(* ===== verification/X1_Prelude.thy ===== *)
theory X1_Prelude
  imports Main "HOL-Library.Word" "HOL-Library.State_Monad" "HOL-Library.Sublist"
begin

text \<open>
  Shared vocabulary of the development.

  \<^item> Machine integers keep their width (\<open>u8\<close>, \<open>u16\<close>, \<open>u32\<close>, \<open>u64\<close>); an \<open>int\<close>
    return value of the C code is an \<^typ>\<open>int\<close>, with 0 for success and \<open>- errno\<close> for a
    refusal, because several callers also look at positive values.
  \<^item> A byte buffer is a list of bytes.  A read or a write outside it is \<^const>\<open>None\<close>, so
    the C code's undefined behaviour is visible, and its absence is something to prove.
  \<^item> Code that talks to hardware or to a callback is a program over a history of events
    (newest first).  The answer to every read, poll or callback is a function of the whole
    history before it, so a statement over all such functions holds for every device.
\<close>

unbundle bit_operations_syntax

type_synonym u8 = "8 word"
type_synonym u16 = "16 word"
type_synonym u32 = "32 word"
type_synonym u64 = "64 word"

named_theorems byte_simps \<open>reads and writes of byte buffers\<close>
named_theorems run_simps \<open>evaluation of history programs\<close>

section \<open>Error numbers\<close>

text \<open>The values of \<open>include/uapi/asm-generic/errno*.h\<close> that the sources use.\<close>

abbreviation EPERM :: int where "EPERM \<equiv> 1"
abbreviation ENOENT :: int where "ENOENT \<equiv> 2"
abbreviation EIO :: int where "EIO \<equiv> 5"
abbreviation EAGAIN :: int where "EAGAIN \<equiv> 11"
abbreviation ENOMEM :: int where "ENOMEM \<equiv> 12"
abbreviation EFAULT :: int where "EFAULT \<equiv> 14"
abbreviation EBUSY :: int where "EBUSY \<equiv> 16"
abbreviation ENODEV :: int where "ENODEV \<equiv> 19"
abbreviation EINVAL :: int where "EINVAL \<equiv> 22"
abbreviation EFBIG :: int where "EFBIG \<equiv> 27"
abbreviation ENOSPC :: int where "ENOSPC \<equiv> 28"
abbreviation ERANGE :: int where "ERANGE \<equiv> 34"
abbreviation ELOOP :: int where "ELOOP \<equiv> 40"
abbreviation ETIME :: int where "ETIME \<equiv> 62"
abbreviation ENOLINK :: int where "ENOLINK \<equiv> 67"
abbreviation EPROTO :: int where "EPROTO \<equiv> 71"
abbreviation EBADMSG :: int where "EBADMSG \<equiv> 74"
abbreviation EOVERFLOW :: int where "EOVERFLOW \<equiv> 75"
abbreviation EMSGSIZE :: int where "EMSGSIZE \<equiv> 90"
abbreviation EPROTONOSUPPORT :: int where "EPROTONOSUPPORT \<equiv> 93"
abbreviation EOPNOTSUPP :: int where "EOPNOTSUPP \<equiv> 95"
abbreviation ENOTCONN :: int where "ENOTCONN \<equiv> 107"
abbreviation ESHUTDOWN :: int where "ESHUTDOWN \<equiv> 108"
abbreviation ETIMEDOUT :: int where "ETIMEDOUT \<equiv> 110"
abbreviation EHOSTDOWN :: int where "EHOSTDOWN \<equiv> 112"
abbreviation EALREADY :: int where "EALREADY \<equiv> 114"
abbreviation ESTALE :: int where "ESTALE \<equiv> 116"
abbreviation EREMOTEIO :: int where "EREMOTEIO \<equiv> 121"
abbreviation EKEYREJECTED :: int where "EKEYREJECTED \<equiv> 129"
abbreviation ECANCELED :: int where "ECANCELED \<equiv> 125"

section \<open>Bytes and byte buffers\<close>

definition be32_of :: "u8 \<Rightarrow> u8 \<Rightarrow> u8 \<Rightarrow> u8 \<Rightarrow> u32" where
  "be32_of a b c d =
     push_bit 24 (ucast a) OR push_bit 16 (ucast b) OR push_bit 8 (ucast c) OR ucast d"

definition be32_bytes :: "u32 \<Rightarrow> u8 list" where
  "be32_bytes v =
     [ucast (drop_bit 24 v), ucast (drop_bit 16 v), ucast (drop_bit 8 v), ucast v]"

definition le32_bytes :: "u32 \<Rightarrow> u8 list" where
  "le32_bytes v =
     [ucast v, ucast (drop_bit 8 v), ucast (drop_bit 16 v), ucast (drop_bit 24 v)]"

definition le16_bytes :: "u16 \<Rightarrow> u8 list" where
  "le16_bytes v = [ucast v, ucast (drop_bit 8 v)]"

definition le64_bytes :: "u64 \<Rightarrow> u8 list" where
  "le64_bytes v = map (\<lambda>i. ucast (drop_bit (8 * i) v)) [0, 1, 2, 3, 4, 5, 6, 7]"

definition get_u8 :: "u8 list \<Rightarrow> nat \<Rightarrow> u8 option" where
  "get_u8 bs off = (if off < length bs then Some (bs ! off) else None)"

definition get_unaligned_be32 :: "u8 list \<Rightarrow> nat \<Rightarrow> u32 option" where
  "get_unaligned_be32 bs off =
     (if off + 4 \<le> length bs
      then Some (be32_of (bs ! off) (bs ! (off + 1)) (bs ! (off + 2)) (bs ! (off + 3)))
      else None)"

definition get_unaligned_le32 :: "u8 list \<Rightarrow> nat \<Rightarrow> u32 option" where
  "get_unaligned_le32 bs off =
     (if off + 4 \<le> length bs
      then Some (be32_of (bs ! (off + 3)) (bs ! (off + 2)) (bs ! (off + 1)) (bs ! off))
      else None)"

definition get_unaligned_le16 :: "u8 list \<Rightarrow> nat \<Rightarrow> u16 option" where
  "get_unaligned_le16 bs off =
     (if off + 2 \<le> length bs
      then Some (push_bit 8 (ucast (bs ! (off + 1))) OR ucast (bs ! off)) else None)"

text \<open>
  \<open>n\<close> big-endian words from an offset (\<open>for\<close> loops over \<open>get_unaligned_be32\<close>), and a store to the
  front of an array of words.
\<close>

fun get_be32_words :: "u8 list \<Rightarrow> nat \<Rightarrow> nat \<Rightarrow> u32 list option" where
  "get_be32_words bs off 0 = Some []"
| "get_be32_words bs off (Suc n) = do {
     v \<leftarrow> get_unaligned_be32 bs off;
     vs \<leftarrow> get_be32_words bs (off + 4) n;
     Some (v # vs)
   }"

definition put_words :: "u32 list \<Rightarrow> u32 list \<Rightarrow> u32 list option" where
  "put_words arr vs = (if length vs \<le> length arr then Some (vs @ drop (length vs) arr) else None)"

text \<open>Storing bytes at an offset of a buffer (\<open>memcpy\<close>, \<open>put_unaligned_*\<close>).\<close>

definition put_bytes :: "u8 list \<Rightarrow> nat \<Rightarrow> u8 list \<Rightarrow> u8 list option" where
  "put_bytes buf off bs =
     (if off + length bs \<le> length buf
      then Some (take off buf @ bs @ drop (off + length bs) buf) else None)"

definition put_unaligned_be32 :: "u32 \<Rightarrow> u8 list \<Rightarrow> nat \<Rightarrow> u8 list option" where
  "put_unaligned_be32 v buf off = put_bytes buf off (be32_bytes v)"

definition put_unaligned_le32 :: "u32 \<Rightarrow> u8 list \<Rightarrow> nat \<Rightarrow> u8 list option" where
  "put_unaligned_le32 v buf off = put_bytes buf off (le32_bytes v)"

definition put_unaligned_le64 :: "u64 \<Rightarrow> u8 list \<Rightarrow> nat \<Rightarrow> u8 list option" where
  "put_unaligned_le64 v buf off = put_bytes buf off (le64_bytes v)"

lemma unat_u32_less: "unat (w :: u32) < 2 ^ 32"
  using unsigned_less [of w] by simp

lemma xor_cancel: "a XOR c = b XOR c \<longleftrightarrow> a = b" for a b c :: "'a::len word"
  by (metis xor.assoc xor_self_eq xor.right_neutral)

lemma and_push_bit_1: "d AND push_bit n 1 = (if bit d n then push_bit n 1 else 0)" for d :: "'a::len word"
  by (rule bit_word_eqI) (auto simp: bit_simps)

lemma bit_unat_le:
  assumes "unat (w :: 'a::len word) < 2 ^ k" and "bit w n"
  shows "n < k"
proof -
  have "bit (take_bit k (unat w)) n"
    using assms by (simp add: take_bit_eq_mod bit_unsigned_iff)
  then show ?thesis by (simp add: bit_take_bit_iff)
qed

lemma length_bytes [simp]:
  "length (be32_bytes v) = 4" "length (le32_bytes v) = 4" "length (le64_bytes w) = 8"
  "length (le16_bytes h) = 2"
  by (simp_all add: be32_bytes_def le32_bytes_def le64_bytes_def le16_bytes_def)

lemma be32_of_bytes [simp]:
  "be32_of (ucast (drop_bit 24 v)) (ucast (drop_bit 16 v)) (ucast (drop_bit 8 v)) (ucast v) = v"
proof (rule bit_word_eqI)
  fix n assume "n < LENGTH(32)"
  then consider "n < 8" | "8 \<le> n" "n < 16" | "16 \<le> n" "n < 24" | "24 \<le> n" "n < 32"
    by force
  then show "bit (be32_of (ucast (drop_bit 24 v)) (ucast (drop_bit 16 v))
      (ucast (drop_bit 8 v)) (ucast v)) n = bit v n"
    by cases (auto simp: be32_of_def bit_simps)
qed

lemma ucast_be32_of [simp]:
  "(ucast (drop_bit 24 (be32_of a b c d)) :: u8) = a"
  "(ucast (drop_bit 16 (be32_of a b c d)) :: u8) = b"
  "(ucast (drop_bit 8 (be32_of a b c d)) :: u8) = c"
  "(ucast (be32_of a b c d) :: u8) = d"
  by (rule bit_word_eqI; auto simp: be32_of_def bit_simps dest: bit_imp_le_length)+

lemma be32_bytes_of [simp]: "be32_bytes (be32_of a b c d) = [a, b, c, d]"
  by (simp add: be32_bytes_def)

lemma be32_bytes_inject [simp]: "be32_bytes v = be32_bytes w \<longleftrightarrow> v = w"
proof
  assume eq: "be32_bytes v = be32_bytes w"
  have "v = be32_of (be32_bytes v ! 0) (be32_bytes v ! 1) (be32_bytes v ! 2) (be32_bytes v ! 3)"
    by (simp add: be32_bytes_def)
  also have "\<dots> = w" unfolding eq by (simp add: be32_bytes_def)
  finally show "v = w" .
qed simp

text \<open>
  Reading from a concatenation: a field either starts at the front or lies behind the first
  segment.  With these rules the simplifier walks to the field at a constant offset.
\<close>

lemma get_be32_front [byte_simps]:
  "get_unaligned_be32 (be32_bytes v @ bs) 0 = Some v"
  "get_unaligned_be32 (be32_bytes v) 0 = Some v"
  by (simp_all add: get_unaligned_be32_def be32_bytes_def)

lemma get_be32_skip [byte_simps]:
  "length xs \<le> off \<Longrightarrow> get_unaligned_be32 (xs @ bs) off = get_unaligned_be32 bs (off - length xs)"
  by (auto simp: get_unaligned_be32_def nth_append Suc_diff_le)

lemma get_be32_prefix:
  "off + 4 \<le> length xs \<Longrightarrow> get_unaligned_be32 (xs @ bs) off = get_unaligned_be32 xs off"
  by (auto simp: get_unaligned_be32_def nth_append)

lemma get_le32_front [byte_simps]:
  "get_unaligned_le32 (le32_bytes v @ bs) 0 = Some v"
  "get_unaligned_le32 (le32_bytes v) 0 = Some v"
  by (simp_all add: get_unaligned_le32_def le32_bytes_def)

lemma get_le32_skip [byte_simps]:
  "length xs \<le> off \<Longrightarrow> get_unaligned_le32 (xs @ bs) off = get_unaligned_le32 bs (off - length xs)"
  by (auto simp: get_unaligned_le32_def nth_append Suc_diff_le)

lemma le16_of_bytes: "push_bit 8 (ucast (ucast (drop_bit 8 v) :: u8)) OR ucast (ucast v :: u8) = v"
  for v :: u16
proof (rule bit_word_eqI)
  fix n assume "n < LENGTH(16)"
  then consider "n < 8" | "8 \<le> n" "n < 16" by force
  then show "bit (push_bit 8 (ucast (ucast (drop_bit 8 v) :: u8)) OR ucast (ucast v :: u8) :: u16) n = bit v n"
    by cases (auto simp: bit_simps)
qed

lemma get_le16_front [byte_simps]:
  "get_unaligned_le16 (le16_bytes v @ bs) 0 = Some v"
  "get_unaligned_le16 (le16_bytes v) 0 = Some v"
  by (simp_all add: get_unaligned_le16_def le16_bytes_def le16_of_bytes)

lemma get_le16_skip [byte_simps]:
  "length xs \<le> off \<Longrightarrow> get_unaligned_le16 (xs @ bs) off = get_unaligned_le16 bs (off - length xs)"
  by (auto simp: get_unaligned_le16_def nth_append Suc_diff_le)

lemma get_u8_skip [byte_simps]:
  "length xs \<le> off \<Longrightarrow> get_u8 (xs @ bs) off = get_u8 bs (off - length xs)"
  by (auto simp: get_u8_def nth_append)

lemma get_Cons [byte_simps]:
  "get_u8 (x # bs) 0 = Some x"
  "0 < off \<Longrightarrow> get_u8 (x # bs) off = get_u8 bs (off - 1)"
  "0 < off \<Longrightarrow> get_unaligned_le16 (x # bs) off = get_unaligned_le16 bs (off - 1)"
  "0 < off \<Longrightarrow> get_unaligned_le32 (x # bs) off = get_unaligned_le32 bs (off - 1)"
  using get_u8_skip [of "[x]" off bs] get_le16_skip [of "[x]" off bs] get_le32_skip [of "[x]" off bs]
  by (simp_all add: get_u8_def)

lemma get_be32_Some: "off + 4 \<le> length bs \<Longrightarrow> \<exists>v. get_unaligned_be32 bs off = Some v"
  by (simp add: get_unaligned_be32_def)

lemma get_le32_Some: "off + 4 \<le> length bs \<Longrightarrow> \<exists>v. get_unaligned_le32 bs off = Some v"
  by (simp add: get_unaligned_le32_def)

lemma get_be32_inverse:
  assumes "get_unaligned_be32 bs off = Some v"
  shows "take 4 (drop off bs) = be32_bytes v"
proof -
  from assms have len: "off + 4 \<le> length bs"
    and v: "v = be32_of (bs ! off) (bs ! (off + 1)) (bs ! (off + 2)) (bs ! (off + 3))"
    by (auto simp: get_unaligned_be32_def split: if_splits)
  show ?thesis
    using len unfolding v be32_bytes_of
    by (intro nth_equalityI) (auto simp: nth_Cons' numeral_eq_Suc less_Suc_eq)
qed

lemma le32_bytes_of [simp]: "le32_bytes (be32_of a b c d) = [d, c, b, a]"
  by (simp add: le32_bytes_def)

lemma le16_bytes_of: "le16_bytes (push_bit 8 (ucast b) OR ucast a) = [a, b]" for a b :: u8
proof -
  have "(ucast (push_bit 8 (ucast b) OR ucast a :: u16) :: u8) = a"
    "(ucast (drop_bit 8 (push_bit 8 (ucast b) OR ucast a :: u16)) :: u8) = b"
    by (rule bit_word_eqI; auto simp: bit_simps dest: bit_imp_le_length)+
  then show ?thesis by (simp add: le16_bytes_def)
qed

lemma get_le32_inverse:
  assumes "get_unaligned_le32 bs off = Some v"
  shows "take 4 (drop off bs) = le32_bytes v"
proof -
  from assms have len: "off + 4 \<le> length bs"
    and v: "v = be32_of (bs ! (off + 3)) (bs ! (off + 2)) (bs ! (off + 1)) (bs ! off)"
    by (auto simp: get_unaligned_le32_def split: if_splits)
  show ?thesis
    using len unfolding v le32_bytes_of
    by (intro nth_equalityI) (auto simp: nth_Cons' numeral_eq_Suc less_Suc_eq)
qed

lemma get_le16_inverse:
  assumes "get_unaligned_le16 bs off = Some v"
  shows "take 2 (drop off bs) = le16_bytes v"
proof -
  from assms have len: "off + 2 \<le> length bs"
    and v: "v = push_bit 8 (ucast (bs ! (off + 1))) OR ucast (bs ! off)"
    by (auto simp: get_unaligned_le16_def split: if_splits)
  show ?thesis
    using len unfolding v le16_bytes_of
    by (intro nth_equalityI) (auto simp: nth_Cons' numeral_eq_Suc less_Suc_eq)
qed

lemma get_le16_Some: "off + 2 \<le> length bs \<Longrightarrow> \<exists>v. get_unaligned_le16 bs off = Some v"
  by (simp add: get_unaligned_le16_def)

text \<open>Cutting a buffer into consecutive fields.\<close>

lemma drop_cut: "drop a p = take n (drop a p) @ drop (a + n) p"
  by (metis append_take_drop_id drop_drop add.commute)

text \<open>Stores at consecutive offsets rebuild the front of a buffer.\<close>

lemma put_bytes_append:
  "off = length xs \<Longrightarrow> length bs \<le> length rest \<Longrightarrow>
     put_bytes (xs @ rest) off bs = Some ((xs @ bs) @ drop (length bs) rest)"
  by (simp add: put_bytes_def)

lemma length_put_bytes: "put_bytes buf off bs = Some buf' \<Longrightarrow> length buf' = length buf"
  by (auto simp: put_bytes_def split: if_splits)

lemmas put_defs = put_unaligned_be32_def put_unaligned_le32_def put_unaligned_le64_def

section \<open>Programs over an event history\<close>

type_synonym ('e, 'a) io = "('e list, 'a) state"

text \<open>
  \<open>perform ans ev\<close> asks the environment: the answer is \<open>ans\<close> of the history so far, and the
  event \<open>ev\<close> of that answer is added to the history.
\<close>

definition perform :: "('e list \<Rightarrow> 'r) \<Rightarrow> ('r \<Rightarrow> 'e) \<Rightarrow> ('e, 'r) io" where
  "perform ans ev = State (\<lambda>h. (ans h, ev (ans h) # h))"

definition emit :: "'e \<Rightarrow> ('e, unit) io" where
  "emit ev = State (\<lambda>h. ((), ev # h))"

text \<open>
  The C idiom \<open>ret = step(); if (ret) return ret;\<close> for a list of steps: the first nonzero
  result ends the list and is the result.
\<close>

fun run_ok :: "('s, int) state list \<Rightarrow> ('s, int) state" where
  "run_ok [] = State_Monad.return 0"
| "run_ok (m # ms) = do {
     ret \<leftarrow> m;
     if ret \<noteq> 0 then State_Monad.return ret else run_ok ms
   }"

lemma run_perform [simp, run_simps]: "run_state (perform ans ev) h = (ans h, ev (ans h) # h)"
  by (simp add: perform_def)

lemma run_emit [simp, run_simps]: "run_state (emit ev) h = ((), ev # h)"
  by (simp add: emit_def)

lemma run_ok_append: "run_state (run_ok (ms @ ns)) h =
  (case run_state (run_ok ms) h of
     (ret, h') \<Rightarrow> if ret \<noteq> 0 then (ret, h') else run_state (run_ok ns) h')"
  by (induction ms arbitrary: h) (auto split: prod.splits)

lemma run_ok_single [simp]: "run_ok [m] = m"
  by (rule state_ext) (auto split: prod.splits)

lemma run_state_if [run_simps]:
  "run_state (if b then m else n) h = (if b then run_state m h else run_state n h)"
  by simp

subsection \<open>Programs with a trace\<close>

text \<open>
  Where the callbacks are programs of another component, over a state of their own, the trace is
  kept beside that state: \<open>traced e m\<close> runs \<open>m\<close> and records the event \<open>e a\<close> for its answer \<open>a\<close>.  \<open>shadows m' m\<close>: the
  traced program \<open>m'\<close> does to the component's state exactly what \<open>m\<close> does.
\<close>

definition traced :: "('a \<Rightarrow> 'e) \<Rightarrow> ('s, 'a) state \<Rightarrow> ('s \<times> 'e list, 'a) state" where
  "traced e m = State (\<lambda>(s, h). case run_state m s of (a, s') \<Rightarrow> (a, (s', e a # h)))"

definition shadows :: "('s \<times> 'h, 'a) state \<Rightarrow> ('s, 'a) state \<Rightarrow> bool" where
  "shadows m' m \<longleftrightarrow> (\<forall>s h. fst (run_state m' (s, h)) = fst (run_state m s) \<and>
     fst (snd (run_state m' (s, h))) = snd (run_state m s))"

lemma run_traced [simp]:
  "run_state (traced e m) (s, h) = (case run_state m s of (a, s') \<Rightarrow> (a, (s', e a # h)))"
  by (simp add: traced_def)

lemma shadows_return: "shadows (State_Monad.return a) (State_Monad.return a)"
  by (simp add: shadows_def)

lemma shadows_traced: "shadows (traced e m) m"
  by (simp add: shadows_def split: prod.splits)

lemma shadows_bind:
  assumes "shadows m' m" and "\<And>a. shadows (k' a) (k a)"
  shows "shadows (m' \<bind> k') (m \<bind> k)"
  unfolding shadows_def
proof (intro allI)
  fix s h
  obtain a s' where m: "run_state m s = (a, s')" by (cases "run_state m s")
  with assms(1) obtain h' where "run_state m' (s, h) = (a, (s', h'))"
    unfolding shadows_def by (metis prod.collapse fst_conv snd_conv)
  with m assms(2) [of a] show "fst (run_state (m' \<bind> k') (s, h)) = fst (run_state (m \<bind> k) s) \<and>
      fst (snd (run_state (m' \<bind> k') (s, h))) = snd (run_state (m \<bind> k) s)"
    by (simp add: shadows_def)
qed

lemma shadows_case_prod: "(\<And>a b. shadows (k' a b) (k a b)) \<Longrightarrow> shadows (case p of (a, b) \<Rightarrow> k' a b) (case p of (a, b) \<Rightarrow> k a b)"
  by (simp split: prod.splits)

lemma shadows_if: "(b \<Longrightarrow> shadows m' m) \<Longrightarrow> (\<not> b \<Longrightarrow> shadows n' n) \<Longrightarrow>
    shadows (if b then m' else n') (if b then m else n)"
  by simp

lemmas shadows_rules = shadows_return shadows_traced shadows_bind shadows_case_prod shadows_if

subsection \<open>Plans: what a program may do, in order\<close>

text \<open>
  A plan is the list of effects a program means to have, each as a predicate on events.
  \<open>follows eff m plan\<close>: on every run the history only grows, the effects added (the events
  that satisfy \<open>eff\<close>, oldest first) are a prefix of the plan, and a run that returns 0 has
  carried out the whole plan.
\<close>

definition matches :: "('e \<Rightarrow> bool) list \<Rightarrow> 'e list \<Rightarrow> bool" where
  "matches plan es \<longleftrightarrow> length es \<le> length plan \<and> list_all2 (\<lambda>p e. p e) (take (length es) plan) es"

definition follows :: "('e \<Rightarrow> bool) \<Rightarrow> ('e, int) io \<Rightarrow> ('e \<Rightarrow> bool) list \<Rightarrow> bool" where
  "follows eff m plan \<longleftrightarrow>
     (\<forall>h ret h'. run_state m h = (ret, h') \<longrightarrow>
        (\<exists>ds. h' = ds @ h \<and> matches plan (rev (filter eff ds)) \<and>
              (ret = 0 \<longrightarrow> length (filter eff ds) = length plan)))"

lemma matches_Nil [simp]: "matches plan []"
  by (simp add: matches_def)

lemma matches_append_plan: "matches p es \<Longrightarrow> matches (p @ q) es"
  by (auto simp: matches_def)

lemma matches_append:
  assumes "matches p es" and "length es = length p" and "matches q fs"
  shows "matches (p @ q) (es @ fs)"
  using assms by (auto simp: matches_def intro: list_all2_appendI)

lemma matches_nth: "matches plan es \<Longrightarrow> i < length es \<Longrightarrow> (plan ! i) (es ! i)"
  by (auto simp: matches_def list_all2_conv_all_nth)

lemma followsI:
  assumes "\<And>h ret h'. run_state m h = (ret, h') \<Longrightarrow>
     \<exists>ds. h' = ds @ h \<and> matches plan (rev (filter eff ds)) \<and>
          (ret = 0 \<longrightarrow> length (filter eff ds) = length plan)"
  shows "follows eff m plan"
  using assms by (auto simp: follows_def)

lemma followsD:
  assumes "follows eff m plan" and "run_state m h = (ret, h')"
  obtains ds where "h' = ds @ h" and "matches plan (rev (filter eff ds))"
    and "ret = 0 \<longrightarrow> length (filter eff ds) = length plan"
  using assms unfolding follows_def by blast

lemma follows_return [intro, simp]: "follows eff (State_Monad.return ret) []"
  by (auto simp: follows_def)

lemma follows_return_error: "ret \<noteq> 0 \<Longrightarrow> follows eff (State_Monad.return ret) plan"
  by (auto simp: follows_def)

lemma follows_seq:
  assumes m: "follows eff m p" and n: "follows eff n q"
  shows "follows eff (do { ret \<leftarrow> m; if ret \<noteq> 0 then State_Monad.return ret else n }) (p @ q)"
proof (rule followsI)
  fix h ret h'
  assume run: "run_state (do { ret \<leftarrow> m; if ret \<noteq> 0 then State_Monad.return ret else n }) h = (ret, h')"
  obtain r1 h1 where r1: "run_state m h = (r1, h1)" by (cases "run_state m h")
  from m r1 obtain ds where ds: "h1 = ds @ h" "matches p (rev (filter eff ds))"
    "r1 = 0 \<longrightarrow> length (filter eff ds) = length p" by (rule followsD)
  show "\<exists>ds. h' = ds @ h \<and> matches (p @ q) (rev (filter eff ds)) \<and>
          (ret = 0 \<longrightarrow> length (filter eff ds) = length (p @ q))"
  proof (cases "r1 = 0")
    case False
    with run r1 have "h' = h1" "ret = r1" by auto
    with False ds show ?thesis by (auto intro: matches_append_plan)
  next
    case True
    with run r1 have r2: "run_state n h1 = (ret, h')" by simp
    from n r2 obtain es where es: "h' = es @ h1" "matches q (rev (filter eff es))"
      "ret = 0 \<longrightarrow> length (filter eff es) = length q" by (rule followsD)
    from True ds es have "matches (p @ q) (rev (filter eff ds) @ rev (filter eff es))"
      by (intro matches_append) auto
    with True ds es show ?thesis by (intro exI [of _ "es @ ds"]) auto
  qed
qed

lemma follows_run_ok:
  "list_all2 (follows eff) ms plans \<Longrightarrow> follows eff (run_ok ms) (concat plans)"
proof (induction rule: list_all2_induct)
  case Nil
  show ?case by simp
next
  case (Cons m ms p ps)
  then show ?case by (simp del: State_Monad.run_state_bind) (rule follows_seq)
qed

text \<open>Reads and other events outside \<open>eff\<close> leave no trace in a plan.\<close>

lemma follows_perform_bind:
  assumes "\<And>r. \<not> eff (ev r)" and "\<And>r. follows eff (k r) plan"
  shows "follows eff (perform ans ev \<bind> k) plan"
proof (rule followsI)
  fix h ret h'
  assume "run_state (perform ans ev \<bind> k) h = (ret, h')"
  then have "run_state (k (ans h)) (ev (ans h) # h) = (ret, h')" by simp
  with assms(2) obtain ds where "h' = ds @ ev (ans h) # h" "matches plan (rev (filter eff ds))"
    "ret = 0 \<longrightarrow> length (filter eff ds) = length plan" by (rule followsD)
  with assms(1) show "\<exists>ds. h' = ds @ h \<and> matches plan (rev (filter eff ds)) \<and>
        (ret = 0 \<longrightarrow> length (filter eff ds) = length plan)"
    by (intro exI [of _ "ds @ [ev (ans h)]"]) auto
qed

lemma follows_emit_bind:
  assumes "eff e \<Longrightarrow> p e" and "follows eff k plan"
  shows "follows eff (do { emit e; k }) (if eff e then p # plan else plan)"
proof (rule followsI)
  fix h ret h'
  assume "run_state (do { emit e; k }) h = (ret, h')"
  then have "run_state k (e # h) = (ret, h')" by simp
  with assms(2) obtain ds where ds: "h' = ds @ e # h" "matches plan (rev (filter eff ds))"
    "ret = 0 \<longrightarrow> length (filter eff ds) = length plan" by (rule followsD)
  with assms(1) show "\<exists>ds. h' = ds @ h \<and>
        matches (if eff e then p # plan else plan) (rev (filter eff ds)) \<and>
        (ret = 0 \<longrightarrow> length (filter eff ds) = length (if eff e then p # plan else plan))"
    by (intro exI [of _ "ds @ [e]"]) (auto simp: matches_def)
qed

subsection \<open>What a program keeps\<close>

text \<open>
  \<open>keeps R m\<close>: on every run the state after \<open>m\<close> is related by \<open>R\<close> to the state before.
  \<open>rets Q m\<close>: every result satisfies \<open>Q\<close>.
\<close>

definition keeps :: "('s \<Rightarrow> 's \<Rightarrow> bool) \<Rightarrow> ('s, 'a) state \<Rightarrow> bool" where
  "keeps R m \<longleftrightarrow> (\<forall>s. R s (snd (run_state m s)))"

definition rets :: "('a \<Rightarrow> bool) \<Rightarrow> ('s, 'a) state \<Rightarrow> bool" where
  "rets Q m \<longleftrightarrow> (\<forall>s. Q (fst (run_state m s)))"

lemma keepsD: "keeps R m \<Longrightarrow> run_state m s = (a, s') \<Longrightarrow> R s s'"
  by (metis keeps_def snd_conv)

lemma rets_return [simp]: "rets Q (State_Monad.return a) = Q a"
  by (simp add: rets_def)

lemma rets_bind:
  assumes "rets P m" and "\<And>a. P a \<Longrightarrow> rets Q (k a)"
  shows "rets Q (m \<bind> k)"
  unfolding rets_def
proof
  fix s
  obtain a s' where m: "run_state m s = (a, s')" by (cases "run_state m s")
  with assms(1) have "P a" unfolding rets_def by (metis fst_conv)
  with assms(2) m show "Q (fst (run_state (m \<bind> k) s))" by (simp add: rets_def)
qed

lemma rets_True [simp]: "rets (\<lambda>_. True) m"
  by (simp add: rets_def)

text \<open>A preorder on states gives the rules to walk through a program.\<close>

locale history_order =
  fixes R :: "'s \<Rightarrow> 's \<Rightarrow> bool"
  assumes refl: "R s s"
    and trans: "R s t \<Longrightarrow> R t u \<Longrightarrow> R s u"
begin

lemma keeps_return: "keeps R (State_Monad.return a)"
  by (simp add: keeps_def refl)

lemma keeps_bind: "keeps R m \<Longrightarrow> (\<And>a. keeps R (k a)) \<Longrightarrow> keeps R (m \<bind> k)"
  unfolding keeps_def
proof
  fix s
  assume m: "\<forall>s. R s (snd (run_state m s))" and k: "\<And>a. \<forall>s. R s (snd (run_state (k a) s))"
  obtain a s' where r: "run_state m s = (a, s')" by (cases "run_state m s")
  from m [THEN spec, of s] have "R s s'" by (simp add: r)
  moreover have "R s' (snd (run_state (k a) s'))" using k by blast
  ultimately show "R s (snd (run_state (m \<bind> k) s))" by (simp add: r trans)
qed

lemma keeps_if: "(b \<Longrightarrow> keeps R m) \<Longrightarrow> (\<not> b \<Longrightarrow> keeps R n) \<Longrightarrow> keeps R (if b then m else n)"
  by simp

lemma keeps_run_ok: "(\<And>m. m \<in> set ms \<Longrightarrow> keeps R m) \<Longrightarrow> keeps R (run_ok ms)"
  by (induction ms) (auto intro!: keeps_return keeps_bind)

lemma keeps_case_prod: "(\<And>a b. keeps R (k a b)) \<Longrightarrow> keeps R (case p of (a, b) \<Rightarrow> k a b)"
  by (simp split: prod.splits)

lemma keeps_case_option:
  "keeps R m \<Longrightarrow> (\<And>x. keeps R (k x)) \<Longrightarrow> keeps R (case v of None \<Rightarrow> m | Some x \<Rightarrow> k x)"
  by (simp split: option.split)

lemmas keeps_rules = keeps_return keeps_bind keeps_if keeps_case_prod

lemma fold_keeps:
  assumes "\<And>i. keeps R (m i)"
  shows "R s (fold (\<lambda>i s. snd (run_state (m i) s)) is s)"
proof (induction "is" arbitrary: s)
  case (Cons i "is")
  have "R s (snd (run_state (m i) s))" using assms by (simp add: keeps_def)
  from trans [OF this Cons] show ?case by simp
qed (simp add: refl)

end

subsection \<open>Growth of a measure\<close>

text \<open>\<open>adds f k m\<close>: the program increases the measure \<open>f\<close> of the state by at most \<open>k\<close>.\<close>

definition adds :: "('s \<Rightarrow> nat) \<Rightarrow> nat \<Rightarrow> ('s, 'a) state \<Rightarrow> bool" where
  "adds f k m \<longleftrightarrow> (\<forall>s. f (snd (run_state m s)) \<le> f s + k)"

lemma addsD: "adds f k m \<Longrightarrow> run_state m s = (a, s') \<Longrightarrow> f s' \<le> f s + k"
  by (metis adds_def snd_conv)

lemma adds_return: "adds f k (State_Monad.return a)"
  by (simp add: adds_def)

lemma adds_bind:
  assumes "adds f j m" and "\<And>a. adds f k (g a)"
  shows "adds f (j + k) (m \<bind> g)"
  unfolding adds_def
proof
  fix s
  obtain a t where m: "run_state m s = (a, t)" by (cases "run_state m s")
  have "f (snd (run_state (g a) t)) \<le> f t + k" using assms(2) by (simp add: adds_def)
  with addsD [OF assms(1) m] show "f (snd (run_state (m \<bind> g) s)) \<le> f s + (j + k)" by (simp add: m)
qed

lemma adds_if: "adds f k m \<Longrightarrow> adds f k n \<Longrightarrow> adds f k (if b then m else n)"
  by simp

lemma adds_mono: "adds f j m \<Longrightarrow> j \<le> k \<Longrightarrow> adds f k m"
  by (meson adds_def add_le_mono order_trans order_refl)

lemma adds_case_prod: "(\<And>a b. adds f k (g a b)) \<Longrightarrow> adds f k (case p of (a, b) \<Rightarrow> g a b)"
  by (simp split: prod.split)

text \<open>The first program of a sequence, when it adds nothing or one.\<close>

lemmas adds_quiet = adds_bind [where j = 0, simplified]
lemmas adds_one = adds_bind [where j = 1, simplified]

subsection \<open>Triples\<close>

text \<open>
  \<open>triple P m Q\<close>: from a state that satisfies \<open>P\<close>, \<open>m\<close> ends with a result and a state that satisfy
  \<open>Q\<close>.  Programs are total functions, so this is total correctness.
\<close>

definition triple :: "('s \<Rightarrow> bool) \<Rightarrow> ('s, 'a) state \<Rightarrow> ('a \<Rightarrow> 's \<Rightarrow> bool) \<Rightarrow> bool" where
  "triple P m Q \<longleftrightarrow> (\<forall>s a s'. P s \<longrightarrow> run_state m s = (a, s') \<longrightarrow> Q a s')"

lemma tripleI: "(\<And>s a s'. P s \<Longrightarrow> run_state m s = (a, s') \<Longrightarrow> Q a s') \<Longrightarrow> triple P m Q"
  by (simp add: triple_def)

lemma tripleD: "triple P m Q \<Longrightarrow> P s \<Longrightarrow> run_state m s = (a, s') \<Longrightarrow> Q a s'"
  by (simp add: triple_def)

lemma triple_return: "(\<And>s. P s \<Longrightarrow> Q a s) \<Longrightarrow> triple P (State_Monad.return a) Q"
  by (auto simp: triple_def)

lemma triple_bind:
  assumes "triple P m R" and "\<And>a. triple (R a) (k a) Q"
  shows "triple P (m \<bind> k) Q"
proof (rule tripleI)
  fix s b s'
  assume P: "P s" and run: "run_state (m \<bind> k) s = (b, s')"
  obtain a t where m: "run_state m s = (a, t)" by (cases "run_state m s")
  from tripleD [OF assms(1) P m] have "R a t" .
  moreover from run m have "run_state (k a) t = (b, s')" by simp
  ultimately show "Q b s'" by (rule tripleD [OF assms(2)])
qed

lemma triple_if:
  "(b \<Longrightarrow> triple P m Q) \<Longrightarrow> (\<not> b \<Longrightarrow> triple P n Q) \<Longrightarrow> triple P (if b then m else n) Q"
  by simp

lemma triple_case_option:
  "triple P m Q \<Longrightarrow> (\<And>x. triple P (k x) Q) \<Longrightarrow> triple P (case v of None \<Rightarrow> m | Some x \<Rightarrow> k x) Q"
  by (simp split: option.split)

lemma triple_ex: "(\<And>x. triple (P x) m Q) \<Longrightarrow> triple (\<lambda>s. \<exists>x. P x s) m Q"
  by (auto simp: triple_def)

lemma triple_pure: "(A \<Longrightarrow> triple P m Q) \<Longrightarrow> triple (\<lambda>s. A \<and> P s) m Q"
  by (auto simp: triple_def)

lemma triple_weaken:
  "triple P' m Q' \<Longrightarrow> (\<And>s. P s \<Longrightarrow> P' s) \<Longrightarrow> (\<And>a s. Q' a s \<Longrightarrow> Q a s) \<Longrightarrow> triple P m Q"
  unfolding triple_def by blast

text \<open>The C idiom \<open>ret = m(); if (ret) return f(ret);\<close> in front of \<open>k\<close>.\<close>

lemma triple_check:
  assumes m: "triple P m (\<lambda>ret s. if ret = 0 then R s else E ret s)"
    and e: "\<And>ret s. ret \<noteq> 0 \<Longrightarrow> E ret s \<Longrightarrow> Q (f ret) s" and k: "triple R k Q"
  shows "triple P (do { ret \<leftarrow> m; if ret \<noteq> (0 :: int) then State_Monad.return (f ret) else k }) Q"
proof (rule triple_bind [OF m], rule triple_if)
  fix a :: int
  assume "a \<noteq> 0"
  with e show "triple (\<lambda>s. if a = 0 then R s else E a s) (State_Monad.return (f a)) Q"
    by (intro triple_return) auto
next
  fix a :: int
  assume "\<not> a \<noteq> 0"
  with k show "triple (\<lambda>s. if a = 0 then R s else E a s) k Q" by simp
qed

lemma triple_check_any:
  assumes "triple P m (\<lambda>_. R)" and "\<And>ret s. ret \<noteq> 0 \<Longrightarrow> R s \<Longrightarrow> Q (f ret) s" and "triple R k Q"
  shows "triple P (do { ret \<leftarrow> m; if ret \<noteq> (0 :: int) then State_Monad.return (f ret) else k }) Q"
  using triple_check [of P m R "\<lambda>_. R" Q f k] assms by simp

text \<open>A list of steps that all keep \<open>P\<close> while they succeed, and end in \<open>E\<close> when one fails.\<close>

lemma triple_run_ok:
  assumes "\<And>m. m \<in> set ms \<Longrightarrow> triple P m (\<lambda>ret s. if ret = 0 then P s else E ret s)"
  shows "triple P (run_ok ms) (\<lambda>ret s. if ret = 0 then P s else E ret s)"
  using assms
proof (induction ms)
  case Nil
  show ?case by (simp add: triple_return)
next
  case (Cons m ms)
  have m: "triple P m (\<lambda>ret s. if ret = 0 then P s else E ret s)" using Cons.prems by simp
  show ?case
    unfolding run_ok.simps
  proof (rule triple_bind [OF m], rule triple_if)
    fix a :: int
    assume "a \<noteq> 0"
    then show "triple (\<lambda>s. if a = 0 then P s else E a s) (State_Monad.return a) (\<lambda>ret s. if ret = 0 then P s else E ret s)"
      by (intro triple_return) simp
  next
    fix a :: int
    assume "\<not> a \<noteq> 0"
    moreover have "triple P (run_ok ms) (\<lambda>ret s. if ret = 0 then P s else E ret s)"
      using Cons by simp
    ultimately show "triple (\<lambda>s. if a = 0 then P s else E a s) (run_ok ms) (\<lambda>ret s. if ret = 0 then P s else E ret s)"
      by simp
  qed
qed

section \<open>Contracts several components share\<close>

text \<open>
  One attempt per owner.  \<open>run\<close> is an operation on the component's state, \<open>armed\<close> says that
  no attempt was made yet.  An attempt always disarms; without it the operation refuses and
  changes nothing.
\<close>

locale one_shot =
  fixes run :: "'s \<Rightarrow> int \<times> 's"
    and armed :: "'s \<Rightarrow> bool"
  assumes disarms: "\<not> armed (snd (run s))"
    and refuses: "\<not> armed s \<Longrightarrow> fst (run s) < 0 \<and> snd (run s) = s"
begin

lemma second_refused: "fst (run (snd (run s))) < 0"
  using disarms refuses by blast

lemma second_no_effect: "snd (run (snd (run s))) = snd (run s)"
  using disarms refuses by blast

lemma iterate: "((\<lambda>s. snd (run s)) ^^ Suc n) s = snd (run s)"
  by (induction n) (simp_all add: second_no_effect)

end

text \<open>
  A bounded resource.  Every step uses at most one unit, and none once the limit is reached.
\<close>

locale budget =
  fixes step :: "'i \<Rightarrow> 's \<Rightarrow> 's"
    and used :: "'s \<Rightarrow> nat"
    and limit :: nat
  assumes step_used: "used (step i s) \<le> Suc (used s)"
    and step_full: "limit \<le> used s \<Longrightarrow> used (step i s) \<le> used s"
begin

lemma step_limit: "used s \<le> limit \<Longrightarrow> used (step i s) \<le> limit"
  using step_used [of i s] step_full [of s i] by linarith

lemma fold_limit: "used s \<le> limit \<Longrightarrow> used (fold step is s) \<le> limit"
  by (induction "is" arbitrary: s) (auto intro: step_limit)

end

text \<open>
  A wire format: \<open>enc\<close> lays a value out, \<open>dec\<close> reads it back.  The decoder of the C code
  returns a status and the object its output pointer ends up with.
\<close>

locale wire_format =
  fixes enc :: "'a \<Rightarrow> u8 list"
    and dec :: "u8 list \<Rightarrow> (int \<times> 'b) option"
    and img :: "'a \<Rightarrow> 'b"
    and valid :: "'a \<Rightarrow> bool"
  assumes dec_enc: "valid a \<Longrightarrow> dec (enc a) = Some (0, img a)"
begin

lemma enc_determines: "valid a \<Longrightarrow> valid b \<Longrightarrow> enc a = enc b \<Longrightarrow> img a = img b"
  using dec_enc [of a] dec_enc [of b] by simp

end

end
