(* ===== verification/X1_Pci0.thy ===== *)
theory X1_Pci0
  imports X1_Prelude
begin

unbundle bit_operations_syntax

text \<open>
  The private initialization of the Hamoa PCI0 controller
  (\<open>snapshot/kernel/drivers/thunderbolt/x1-pcie-init.h\<close>) and the read-only audit of its MSI
  registers (\<open>x1-pcie-msi-audit.h\<close>).

  A program reads and writes three register regions, drives the tunnel reset and waits; what a read
  or the reset driver returns is a function of the history.  The bridge driver on top of it adds its
  own events, the parameter of the event type.
\<close>

datatype x1_pci0_region = X1_ROOT | X1_PARF | X1_ROUTER

datatype 'p pci_event =
    PRead x1_pci0_region u32 u32
  | PWrite x1_pci0_region u32 u32
  | PReset bool int
  | PDelay nat
  | PHost 'p

record 'p x1_pci0_io =
  io_read :: "'p pci_event list \<Rightarrow> x1_pci0_region \<Rightarrow> u32 \<Rightarrow> u32"
  io_reset :: "'p pci_event list \<Rightarrow> bool \<Rightarrow> int"

definition x1_pr :: "'p x1_pci0_io \<Rightarrow> x1_pci0_region \<Rightarrow> u32 \<Rightarrow> ('p pci_event, u32) io" where
  "x1_pr io r off = perform (\<lambda>h. io_read io h r off) (PRead r off)"

definition x1_pw :: "x1_pci0_region \<Rightarrow> u32 \<Rightarrow> u32 \<Rightarrow> ('p pci_event, unit) io" where
  "x1_pw r off v = emit (PWrite r off v)"

definition x1_reset :: "'p x1_pci0_io \<Rightarrow> bool \<Rightarrow> ('p pci_event, int) io" where
  "x1_reset io asserted = perform (\<lambda>h. io_reset io h asserted) (PReset asserted)"

definition x1_delay :: "nat \<Rightarrow> ('p pci_event, unit) io" where
  "x1_delay ms = emit (PDelay ms)"

definition x1_pm :: "'p x1_pci0_io \<Rightarrow> x1_pci0_region \<Rightarrow> u32 \<Rightarrow> u32 \<Rightarrow> u32 \<Rightarrow> ('p pci_event, int) io" where
  "x1_pm io r off msk v = do {
     old_value \<leftarrow> x1_pr io r off;
     if old_value = 0xffffffff then State_Monad.return (- EIO)
     else do {
       x1_pw r off ((old_value AND NOT msk) OR v);
       new_value \<leftarrow> x1_pr io r off;
       State_Monad.return (if new_value AND msk = v then 0 else - EIO)
     }
   }"

definition x1_pv :: "'p x1_pci0_io \<Rightarrow> x1_pci0_region \<Rightarrow> u32 \<Rightarrow> u32 \<Rightarrow> ('p pci_event, int) io" where
  "x1_pv io r off v = do {
     x1_pw r off v;
     new_value \<leftarrow> x1_pr io r off;
     State_Monad.return (if new_value = v then 0 else - EIO)
   }"

text \<open>The polling loop with \<open>n\<close> delays left.\<close>

fun x1_pp_from ::
    "'p x1_pci0_io \<Rightarrow> x1_pci0_region \<Rightarrow> u32 \<Rightarrow> u32 \<Rightarrow> u32 \<Rightarrow> nat \<Rightarrow> ('p pci_event, int) io" where
  "x1_pp_from io r off msk expected 0 = do {
     v \<leftarrow> x1_pr io r off;
     State_Monad.return (if v = 0xffffffff then - EIO else if v AND msk = expected then 0 else - ETIMEDOUT)
   }"
| "x1_pp_from io r off msk expected (Suc n) = do {
     v \<leftarrow> x1_pr io r off;
     if v = 0xffffffff then State_Monad.return (- EIO)
     else if v AND msk = expected then State_Monad.return 0
     else do {
       x1_delay 1;
       x1_pp_from io r off msk expected n
     }
   }"

definition x1_pp ::
    "'p x1_pci0_io \<Rightarrow> x1_pci0_region \<Rightarrow> u32 \<Rightarrow> u32 \<Rightarrow> u32 \<Rightarrow> nat \<Rightarrow> ('p pci_event, int) io" where
  "x1_pp io r off msk expected ms = x1_pp_from io r off msk expected ms"

text \<open>A chain of reads joined by \<open>||\<close> in a condition: the first one that does not fit ends it.\<close>

fun reads_fit :: "'p x1_pci0_io \<Rightarrow> (x1_pci0_region \<times> u32 \<times> (u32 \<Rightarrow> bool)) list \<Rightarrow> ('p pci_event, bool) io" where
  "reads_fit io [] = State_Monad.return True"
| "reads_fit io ((r, off, fit) # rest) = do {
     v \<leftarrow> x1_pr io r off;
     if fit v then reads_fit io rest else State_Monad.return False
   }"

section \<open>Root-complex mode\<close>

definition quiescent :: "(x1_pci0_region \<times> u32 \<times> (u32 \<Rightarrow> bool)) list" where
  "quiescent = [(X1_ROOT, 0, \<lambda>v. v = 0x011117cb), (X1_ROOT, 4, \<lambda>v. v = 0x00100000),
     (X1_ROOT, 8, \<lambda>v. v = 0xff000001), (X1_ROOT, 12, \<lambda>v. v = 0)]"

definition type1_header :: "(x1_pci0_region \<times> u32 \<times> (u32 \<Rightarrow> bool)) list" where
  "type1_header = [(X1_ROOT, 0, \<lambda>v. v = 0x011117cb), (X1_ROOT, 12, \<lambda>v. drop_bit 16 v AND 0xff = 1)]"

text \<open>Behind the checks: hold the controller in reset, select the root complex, and look again.\<close>

definition select_rc :: "'p x1_pci0_io \<Rightarrow> ('p pci_event, int) io" where
  "select_rc io = do {
     ret \<leftarrow> run_ok [
       x1_pm io X1_PARF 0x1b0 0x100 0,
       x1_pv io X1_ROUTER 0x82000 1,
       x1_reset io True,
       do { x1_delay 5; x1_reset io False },
       do { x1_delay 5; x1_pm io X1_PARF 0x1000 0xf 4 },
       x1_pv io X1_ROUTER 0x82000 0];
     if ret \<noteq> 0 then State_Monad.return ret
     else do {
       x1_delay 5;
       type1 \<leftarrow> reads_fit io type1_header;
       State_Monad.return (if type1 then 0 else - ENODEV)
     }
   }"

definition x1_pci0_mode :: "'p x1_pci0_io \<Rightarrow> ('p pci_event, int) io" where
  "x1_pci0_mode io = do {
     idle \<leftarrow> reads_fit io quiescent;
     if \<not> idle then State_Monad.return (- ENODEV)
     else do {
       gate \<leftarrow> x1_pr io X1_ROUTER 0x82000;
       if gate > 1 then State_Monad.return (- EBUSY) else select_rc io
     }
   }"

section \<open>Set-up\<close>

definition setup_parf :: "(u32 \<times> u32) list" where
  "setup_parf = [(0x350, 0), (0x354, 4), (0x634, 0x1000), (0x638, 4),
     (0x64c, 0xffffffff), (0x650, 0xffffffff), (0x358, 0), (0x35c, 0x200)]"

definition setup_dbi :: "(u32 \<times> u32 \<times> u32) list" where
  "setup_dbi = [(0xb90, 0x100, 0x100), (0x71c, 0xffff0000, 0x04040000),
     (0x644, 1, 0), (0x718, 0x7c000, 0x10000), (0x20, 0xfff0fff0, 0x4ff04000)]"

definition dbi_steps :: "'p x1_pci0_io \<Rightarrow> (u32 \<times> u32 \<times> u32) list \<Rightarrow> ('p pci_event, int) io list" where
  "dbi_steps io = map (\<lambda>(off, msk, v). x1_pm io X1_ROOT off msk v)"

definition x1_pci0_setup :: "'p x1_pci0_io \<Rightarrow> ('p pci_event, int) io" where
  "x1_pci0_setup io = do {
     ret \<leftarrow> run_ok ([x1_pm io X1_PARF 0x1b4 0xfff 0xf40, x1_pm io X1_PARF 0x20 0x20 0] @
       map (\<lambda>(off, v). x1_pv io X1_PARF off v) setup_parf);
     if ret \<noteq> 0 then State_Monad.return ret
     else do {
       x1_pr io X1_PARF 0x35c;
       ret \<leftarrow> run_ok (dbi_steps io (take 2 setup_dbi));
       if ret \<noteq> 0 then State_Monad.return ret
       else do {
         ret \<leftarrow> x1_pm io X1_ROOT 0x8bc 1 1;
         if ret \<noteq> 0 then State_Monad.return ret
         else do {
           ret \<leftarrow> run_ok [x1_pm io X1_ROOT 8 0xffff0000 0x06040000, x1_pm io X1_ROOT 0x84 0x60 0x60];
           bad \<leftarrow> x1_pm io X1_ROOT 0x8bc 1 0;
           if bad \<noteq> 0 then State_Monad.return (- EIO)
           else if ret \<noteq> 0 then State_Monad.return ret
           else do {
             ret \<leftarrow> run_ok (dbi_steps io (drop 2 setup_dbi) @ [x1_pm io X1_ROOT 0xfe4 1 1]);
             if ret \<noteq> 0 then State_Monad.return ret
             else do {
               x1_pw X1_ROOT 0x10 0;
               x1_pw X1_ROOT 0x14 0;
               x1_pr io X1_ROOT 0x14;
               run_ok [x1_pm io X1_ROOT 0xfe4 1 0, x1_pm io X1_ROOT 4 6 6]
             }
           }
         }
       }
     }
   }"

section \<open>Training and windows\<close>

definition x1_pci0_reset_request :: "'p x1_pci0_io \<Rightarrow> u32 \<Rightarrow> ('p pci_event, int) io" where
  "x1_pci0_reset_request io b = do {
     old_value \<leftarrow> x1_pr io X1_ROUTER 0xe008;
     if old_value AND 3 \<noteq> 0 \<or> (b \<noteq> 1 \<and> b \<noteq> 2) then State_Monad.return (- EBUSY)
     else do {
       x1_pw X1_ROUTER 0xe008 (old_value OR b);
       x1_pp io X1_ROUTER 0xe008 b 0 10
     }
   }"

definition x1_pci0_train :: "'p x1_pci0_io \<Rightarrow> ('p pci_event, int) io" where
  "x1_pci0_train io = do {
     ret \<leftarrow> run_ok [x1_pci0_reset_request io 1, do { x1_delay 1; x1_pci0_reset_request io 2 }];
     if ret \<noteq> 0 then State_Monad.return ret
     else do {
       x1_delay 20;
       x1_pw X1_PARF 0x494 0;
       x1_pw X1_PARF 0x494 2;
       x1_pw X1_PARF 0x494 0;
       x1_pw X1_PARF 0x494 5;
       ret \<leftarrow> run_ok [x1_pm io X1_PARF 0x1b0 0x100 0x100, x1_pp io X1_ROOT 0xf48 0x400 0x400 150];
       x1_pw X1_PARF 0x494 0;
       if ret \<noteq> 0 then State_Monad.return ret
       else x1_pp io X1_PARF 0x1b0 0x3f 0x11 150
     }
   }"

definition window_root :: "(u32 \<times> u32) list" where
  "window_root = [(0x1008, 0x00100000), (0x100c, 4), (0x1010, 0x001fffff),
     (0x1014, 0x01000000), (0x1018, 0), (0x1000, 4), (0x1004, 0x90000000),
     (0x1208, 0x00200000), (0x120c, 4), (0x1210, 0x0fffffff),
     (0x1200, 5), (0x1204, 0x90000000)]"

definition window_parf :: "(u32 \<times> u32) list" where
  "window_parf = [(0x380, 0), (0x360, 0x1000), (0x364, 4), (0x370, 0x1000), (0x374, 4),
     (0x388, 0x000fffff), (0x390, 0x008fefff),
     (0x368, 0x000fffff), (0x36c, 4), (0x378, 0x000fffff), (0x37c, 4),
     (0x398, 0x101000), (0x39c, 4), (0x3a8, 0x101000), (0x3ac, 4),
     (0x3a0, 0x1fffff), (0x3a4, 4), (0x3b0, 0x1fffff), (0x3b4, 4)]"

definition x1_pci0_windows :: "'p x1_pci0_io \<Rightarrow> ('p pci_event, int) io" where
  "x1_pci0_windows io = do {
     ret \<leftarrow> run_ok (map (\<lambda>(off, v). x1_pv io X1_ROOT off v) window_root @
       map (\<lambda>(off, v). x1_pv io X1_PARF off v) window_parf);
     if ret \<noteq> 0 then State_Monad.return ret
     else do {
       latched \<leftarrow> reads_fit io [(X1_ROOT, 0x1004, \<lambda>v. v AND 0x90000000 = 0x90000000),
         (X1_ROOT, 0x1204, \<lambda>v. v AND 0x90000000 = 0x90000000)];
       if \<not> latched then State_Monad.return (- EIO)
       else x1_pm io X1_PARF 0 0x44000000 0x44000000
     }
   }"

section \<open>MSI audit\<close>

definition msi_audit_regs :: "(x1_pci0_region \<times> u32) list" where
  "msi_audit_regs = [(X1_ROOT, 0x820), (X1_ROOT, 0x824), (X1_ROOT, 0x828), (X1_ROOT, 0x82c), (X1_ROOT, 0x830),
     (X1_PARF, 0x1a8), (X1_PARF, 0x234), (X1_PARF, 0x24c), (X1_PARF, 0x2c00)]"

fun read_all :: "'p x1_pci0_io \<Rightarrow> (x1_pci0_region \<times> u32) list \<Rightarrow> ('p pci_event, u32 list) io" where
  "read_all io [] = State_Monad.return []"
| "read_all io ((r, off) # rest) = do {
     v \<leftarrow> x1_pr io r off;
     vs \<leftarrow> read_all io rest;
     State_Monad.return (v # vs)
   }"

definition x1_pci0_msi_audit :: "'p x1_pci0_io \<Rightarrow> ('p pci_event, u32 list) io" where
  "x1_pci0_msi_audit io = read_all io msi_audit_regs"

section \<open>Runs\<close>

lemma run_pr [simp]: "run_state (x1_pr io r off) h = (io_read io h r off, PRead r off (io_read io h r off) # h)"
  by (simp add: x1_pr_def)

lemma run_pw [simp]: "run_state (x1_pw r off v) h = ((), PWrite r off v # h)"
  by (simp add: x1_pw_def)

lemma run_reset [simp]: "run_state (x1_reset io b) h = (io_reset io h b, PReset b (io_reset io h b) # h)"
  by (simp add: x1_reset_def)

lemma run_delay [simp]: "run_state (x1_delay ms) h = ((), PDelay ms # h)"
  by (simp add: x1_delay_def)

lemma pm_cases:
  assumes "run_state (x1_pm io r off msk v) h = (ret, h')"
  obtains (dead) "ret = - EIO" "h' = PRead r off 0xffffffff # h"
  | (written) a b where "h' = [PRead r off b, PWrite r off ((a AND NOT msk) OR v), PRead r off a] @ h"
      "a \<noteq> 0xffffffff" "ret = (if b AND msk = v then 0 else - EIO)"
  using assms by (auto simp: x1_pm_def split: if_splits)

lemma pv_run:
  "run_state (x1_pv io r off v) h = (let b = io_read io (PWrite r off v # h) r off in
     (if b = v then 0 else - EIO, [PRead r off b, PWrite r off v] @ h))"
  by (simp add: x1_pv_def Let_def)

text \<open>The effects of a program on the hardware: everything but its reads.\<close>

fun eff :: "'p pci_event \<Rightarrow> bool" where
  "eff (PRead r off v) = False"
| "eff e = True"

lemma pp_from_run:
  "run_state (x1_pp_from io r off msk v n) h = (ret, h') \<Longrightarrow>
   \<exists>ds. h' = ds @ h \<and> (\<forall>e \<in> set ds. e = PDelay 1 \<or> (\<exists>x. e = PRead r off x)) \<and>
     length (filter eff ds) \<le> n \<and> length ds \<le> 2 * n + 1 \<and> ret \<in> {0, - EIO, - ETIMEDOUT} \<and>
     (ret = 0 \<longrightarrow> (\<exists>x ds'. ds = PRead r off x # ds' \<and> x AND msk = v \<and> x \<noteq> 0xffffffff)) \<and>
     (ret = - EIO \<longrightarrow> (\<exists>ds'. ds = PRead r off 0xffffffff # ds'))"
proof (induction n arbitrary: h)
  case 0
  then show ?case by (auto split: if_splits)
next
  case (Suc n)
  let ?x = "io_read io h r off"
  show ?case
  proof (cases "?x = 0xffffffff \<or> ?x AND msk = v")
    case True
    with Suc.prems show ?thesis by (auto split: if_splits)
  next
    case False
    with Suc.prems have "run_state (x1_pp_from io r off msk v n) (PDelay 1 # PRead r off ?x # h) = (ret, h')"
      by simp
    from Suc.IH [OF this] obtain ds where "h' = ds @ PDelay 1 # PRead r off ?x # h"
      "\<forall>e \<in> set ds. e = PDelay 1 \<or> (\<exists>x. e = PRead r off x)"
      "length (filter eff ds) \<le> n" "length ds \<le> 2 * n + 1" "ret \<in> {0, - EIO, - ETIMEDOUT}"
      "ret = 0 \<longrightarrow> (\<exists>x ds'. ds = PRead r off x # ds' \<and> x AND msk = v \<and> x \<noteq> 0xffffffff)"
      "ret = - EIO \<longrightarrow> (\<exists>ds'. ds = PRead r off 0xffffffff # ds')" by blast
    then show ?thesis by (intro exI [of _ "ds @ [PDelay 1, PRead r off ?x]"]) auto
  qed
qed

text \<open>Polling sees every value the register shows within its budget.\<close>

fun poll_history :: "x1_pci0_region \<Rightarrow> u32 \<Rightarrow> 'p x1_pci0_io \<Rightarrow> nat \<Rightarrow> 'p pci_event list \<Rightarrow> 'p pci_event list" where
  "poll_history r off io 0 h = h"
| "poll_history r off io (Suc k) h =
     poll_history r off io k (PDelay 1 # PRead r off (io_read io h r off) # h)"

lemma pp_from_sees:
  assumes "k \<le> n"
    and "\<forall>j < k. io_read io (poll_history r off io j h) r off \<noteq> 0xffffffff"
    and "io_read io (poll_history r off io k h) r off AND msk = v"
    and "io_read io (poll_history r off io k h) r off \<noteq> 0xffffffff"
  shows "fst (run_state (x1_pp_from io r off msk v n) h) = 0"
  using assms
proof (induction n arbitrary: k h)
  case 0
  then show ?case by simp
next
  case (Suc n)
  show ?case
  proof (cases k)
    case 0
    with Suc.prems show ?thesis by simp
  next
    case (Suc k')
    let ?h = "PDelay 1 # PRead r off (io_read io h r off) # h"
    have nz: "io_read io h r off \<noteq> 0xffffffff" using Suc.prems(2) Suc by (auto dest: spec [of _ 0])
    have "\<forall>j < k'. io_read io (poll_history r off io j ?h) r off \<noteq> 0xffffffff"
    proof (intro allI impI)
      fix j
      assume "j < k'"
      with Suc.prems(2) Suc have "io_read io (poll_history r off io (Suc j) h) r off \<noteq> 0xffffffff" by blast
      then show "io_read io (poll_history r off io j ?h) r off \<noteq> 0xffffffff" by simp
    qed
    with Suc.IH [of k' ?h] Suc.prems Suc nz show ?thesis by simp
  qed
qed

section \<open>Plans\<close>

text \<open>Programs that only read.\<close>

definition quiet :: "('p pci_event, 'a) io \<Rightarrow> bool" where
  "quiet m \<longleftrightarrow> (\<forall>h a h'. run_state m h = (a, h') \<longrightarrow> (\<exists>ds. h' = ds @ h \<and> filter eff ds = []))"

lemma quiet_pr: "quiet (x1_pr io r off)"
  by (simp add: quiet_def)

lemma reads_fit_run:
  "run_state (reads_fit io cs) h = (b, h') \<Longrightarrow>
   \<exists>ds. h' = ds @ h \<and> filter eff ds = [] \<and>
     (b \<longrightarrow> list_all2 (\<lambda>(r, off, fit) e. \<exists>x. e = PRead r off x \<and> fit x) cs (rev ds))"
proof (induction cs arbitrary: h)
  case (Cons c cs)
  obtain r off fit where c: "c = (r, off, fit)" by (cases c)
  let ?x = "io_read io h r off"
  show ?case
  proof (cases "fit ?x")
    case True
    with Cons.prems c have "run_state (reads_fit io cs) (PRead r off ?x # h) = (b, h')" by simp
    from Cons.IH [OF this] obtain ds where "h' = ds @ PRead r off ?x # h" "filter eff ds = []"
      "b \<longrightarrow> list_all2 (\<lambda>(r, off, fit) e. \<exists>x. e = PRead r off x \<and> fit x) cs (rev ds)" by blast
    with True c show ?thesis by (intro exI [of _ "ds @ [PRead r off ?x]"]) auto
  qed (use Cons.prems c in auto)
qed simp

lemma quiet_reads_fit: "quiet (reads_fit io cs)"
  unfolding quiet_def using reads_fit_run by blast

lemma follows_quiet_bind:
  assumes "quiet m" and "\<And>a. follows eff (k a) plan"
  shows "follows eff (m \<bind> k) plan"
proof (rule followsI)
  fix h ret h'
  assume run: "run_state (m \<bind> k) h = (ret, h')"
  obtain a h1 where m: "run_state m h = (a, h1)" by (cases "run_state m h")
  with assms(1) obtain ds where ds: "h1 = ds @ h" "filter eff ds = []" unfolding quiet_def by blast
  from run m have "run_state (k a) h1 = (ret, h')" by simp
  with assms(2) obtain es where "h' = es @ h1" "matches plan (rev (filter eff es))"
    "ret = 0 \<longrightarrow> length (filter eff es) = length plan" by (rule followsD)
  with ds show "\<exists>ds. h' = ds @ h \<and> matches plan (rev (filter eff ds)) \<and>
      (ret = 0 \<longrightarrow> length (filter eff ds) = length plan)"
    by (intro exI [of _ "es @ ds"]) auto
qed

lemma follows_if:
  "(b \<Longrightarrow> follows eff m plan) \<Longrightarrow> (\<not> b \<Longrightarrow> follows eff n plan) \<Longrightarrow> follows eff (if b then m else n) plan"
  by simp

definition masked :: "x1_pci0_region \<Rightarrow> u32 \<Rightarrow> u32 \<Rightarrow> u32 \<Rightarrow> 'p pci_event \<Rightarrow> bool" where
  "masked r off msk v e \<longleftrightarrow> (\<exists>x. e = PWrite r off x \<and> x AND msk = v)"

lemma masked_value: "v AND msk = (v :: u32) \<Longrightarrow> ((a AND NOT msk) OR v) AND msk = v"
  by (simp add: bit_eq_iff bit_simps) blast

lemma follows_pm: "v AND msk = v \<Longrightarrow> follows eff (x1_pm io r off msk v) [masked r off msk v]"
  by (rule followsI, erule pm_cases) (auto simp: matches_def masked_def masked_value)

lemma follows_pv: "follows eff (x1_pv io r off v) [\<lambda>e. e = PWrite r off v]"
  by (rule followsI) (auto simp: pv_run Let_def matches_def)

lemma follows_reset: "follows eff (x1_reset io b) [\<lambda>e. \<exists>r. e = PReset b r]"
  by (rule followsI) (auto simp: matches_def)

lemma follows_delay:
  assumes "follows eff m plan"
  shows "follows eff (do { x1_delay n; m }) ((\<lambda>e. e = PDelay n) # plan)"
  using follows_emit_bind [where e = "PDelay n" and eff = eff and p = "\<lambda>e. e = PDelay n", OF _ assms]
  by (simp add: x1_delay_def)

lemma follows_pw:
  assumes "follows eff m plan"
  shows "follows eff (do { x1_pw r off v; m }) ((\<lambda>e. e = PWrite r off v) # plan)"
  using follows_emit_bind [where e = "PWrite r off v" and eff = eff and p = "\<lambda>e. e = PWrite r off v", OF _ assms]
  by (simp add: x1_pw_def)

definition mode_plan :: "('p pci_event \<Rightarrow> bool) list" where
  "mode_plan = [masked X1_PARF 0x1b0 0x100 0, \<lambda>e. e = PWrite X1_ROUTER 0x82000 1,
     \<lambda>e. \<exists>r. e = PReset True r, \<lambda>e. e = PDelay 5, \<lambda>e. \<exists>r. e = PReset False r, \<lambda>e. e = PDelay 5,
     masked X1_PARF 0x1000 0xf 4, \<lambda>e. e = PWrite X1_ROUTER 0x82000 0, \<lambda>e. e = PDelay 5]"

lemma mode_length: "length mode_plan = 9"
  by (simp add: mode_plan_def)

lemma select_follows: "follows eff (select_rc io) mode_plan"
proof -
  have steps: "follows eff (run_ok [x1_pm io X1_PARF 0x1b0 0x100 0, x1_pv io X1_ROUTER 0x82000 1,
       x1_reset io True, do { x1_delay 5; x1_reset io False },
       do { x1_delay 5; x1_pm io X1_PARF 0x1000 0xf 4 }, x1_pv io X1_ROUTER 0x82000 0])
     (concat [[masked X1_PARF 0x1b0 0x100 0], [\<lambda>e. e = PWrite X1_ROUTER 0x82000 1],
       [\<lambda>e. \<exists>r. e = PReset True r], [\<lambda>e. e = PDelay 5, \<lambda>e. \<exists>r. e = PReset False r],
       [\<lambda>e. e = PDelay 5, masked X1_PARF 0x1000 0xf 4], [\<lambda>e. e = PWrite X1_ROUTER 0x82000 0]])"
    by (rule follows_run_ok)
      (intro list_all2_Nil [THEN iffD2] list_all2_Cons [THEN iffD2] conjI follows_pm follows_pv follows_reset
        follows_delay refl TrueI | simp)+
  have last: "follows eff (do { x1_delay 5; type1 \<leftarrow> reads_fit io type1_header;
      State_Monad.return (if type1 then 0 else - ENODEV) }) [\<lambda>e. e = PDelay 5]"
    by (intro follows_delay follows_quiet_bind quiet_reads_fit follows_return)
  from follows_seq [OF steps last] show ?thesis
    unfolding select_rc_def by (simp add: mode_plan_def del: run_ok.simps)
qed

lemma mode_cases:
  assumes "run_state (x1_pci0_mode io) h = (ret, h')"
  obtains (refused) ds where "h' = ds @ h" "filter eff ds = []" "ret = - ENODEV \<or> ret = - EBUSY"
  | (selected) g ds where "g \<le> 1" "h' = ds @ [PRead X1_ROUTER 0x82000 g, PRead X1_ROOT 12 0,
        PRead X1_ROOT 8 0xff000001, PRead X1_ROOT 4 0x100000, PRead X1_ROOT 0 0x011117cb] @ h"
      "matches mode_plan (rev (filter eff ds))" "ret = 0 \<longrightarrow> length (filter eff ds) = 9"
proof -
  obtain b h1 where r: "run_state (reads_fit io quiescent) h = (b, h1)" by (cases "run_state (reads_fit io quiescent) h")
  from reads_fit_run [OF r] obtain ds where ds: "h1 = ds @ h" "filter eff ds = []"
    "b \<longrightarrow> list_all2 (\<lambda>(r, off, fit) e. \<exists>x. e = PRead r off x \<and> fit x) quiescent (rev ds)" by blast
  let ?g = "io_read io h1 X1_ROUTER 0x82000"
  show thesis
  proof (cases "b \<and> ?g \<le> 1")
    case False
    show thesis
    proof (cases b)
      case True
      with False assms r ds(1) have "ret = - EBUSY" "h' = (PRead X1_ROUTER 0x82000 ?g # ds) @ h"
        by (auto simp: x1_pci0_mode_def not_le)
      with ds(2) show thesis by (intro refused [of "PRead X1_ROUTER 0x82000 ?g # ds"]) auto
    next
      case False
      with assms r ds(1,2) show thesis by (intro refused [of ds]) (auto simp: x1_pci0_mode_def)
    qed
  next
    case True
    with ds(3) have "rev ds = [PRead X1_ROOT 0 0x011117cb, PRead X1_ROOT 4 0x100000,
        PRead X1_ROOT 8 0xff000001, PRead X1_ROOT 12 0]"
      by (auto simp: quiescent_def list_all2_Cons1)
    then have ds': "ds = [PRead X1_ROOT 12 0, PRead X1_ROOT 8 0xff000001, PRead X1_ROOT 4 0x100000,
        PRead X1_ROOT 0 0x011117cb]" by (simp add: rev_swap)
    from True have "\<not> ?g > 1" by (simp add: not_less)
    with True assms r have "run_state (select_rc io) (PRead X1_ROUTER 0x82000 ?g # h1) = (ret, h')"
      by (auto simp: x1_pci0_mode_def not_less)
    with select_follows obtain es where "h' = es @ PRead X1_ROUTER 0x82000 ?g # h1"
      "matches mode_plan (rev (filter eff es))" "ret = 0 \<longrightarrow> length (filter eff es) = 9"
      by (rule followsD) (auto simp: mode_length)
    with True ds(1) ds' show thesis by (intro selected [of ?g es]) auto
  qed
qed

section \<open>The write gate of the root port\<close>

text \<open>
  Register 0x8bc of the root port opens and closes the protected fields of its header; the last
  value written to it says what the program left behind.
\<close>

fun last_write :: "x1_pci0_region \<Rightarrow> u32 \<Rightarrow> 'p pci_event list \<Rightarrow> u32 option" where
  "last_write r off [] = None"
| "last_write r off (PWrite r' off' v # h) = (if r' = r \<and> off' = off then Some v else last_write r off h)"
| "last_write r off (e # h) = last_write r off h"

definition gate_open :: "'p pci_event list \<Rightarrow> bool" where
  "gate_open h = (case last_write X1_ROOT 0x8bc h of Some v \<Rightarrow> v AND 1 \<noteq> 0 | None \<Rightarrow> False)"

fun protected_ok :: "'p pci_event list \<Rightarrow> bool" where
  "protected_ok [] = True"
| "protected_ok (PWrite r off v # h) = ((r = X1_ROOT \<and> (off = 8 \<or> off = 0x84) \<longrightarrow> gate_open h) \<and> protected_ok h)"
| "protected_ok (e # h) = protected_ok h"

definition gate_shut :: "'p pci_event list \<Rightarrow> bool" where
  "gate_shut h \<longleftrightarrow> protected_ok h \<and> \<not> gate_open h"

definition gate_known :: "int \<Rightarrow> 'p pci_event list \<Rightarrow> bool" where
  "gate_known ret h \<longleftrightarrow> protected_ok h \<and> (gate_open h \<longrightarrow> ret = - EIO \<and>
     (\<exists>x t. h = PRead X1_ROOT 0x8bc x # t \<and> (x AND 1 = 0 \<or> x = 0xffffffff)))"

lemma gate_open_simps [simp]:
  "gate_open (PRead r off v # h) = gate_open h"
  "gate_open (PWrite r off v # h) = (if r = X1_ROOT \<and> off = 0x8bc then v AND 1 \<noteq> 0 else gate_open h)"
  by (simp_all add: gate_open_def)

lemma shut_known: "gate_shut h \<Longrightarrow> gate_known ret h"
  by (simp add: gate_shut_def gate_known_def)

lemma shut_pm:
  "r \<noteq> X1_ROOT \<or> off \<notin> {8, 0x84, 0x8bc} \<Longrightarrow> triple gate_shut (x1_pm io r off msk v) (\<lambda>_. gate_shut)"
  by (rule tripleI, erule pm_cases) (auto simp: gate_shut_def)

lemma shut_pv:
  "r \<noteq> X1_ROOT \<or> off \<notin> {8, 0x84, 0x8bc} \<Longrightarrow> triple gate_shut (x1_pv io r off v) (\<lambda>_. gate_shut)"
  by (rule tripleI) (auto simp: gate_shut_def pv_run Let_def)

lemma shut_run_ok:
  assumes "\<And>m. m \<in> set ms \<Longrightarrow> triple gate_shut m (\<lambda>_. gate_shut)"
  shows "triple gate_shut (run_ok ms) (\<lambda>_. gate_shut)"
  using triple_run_ok [of ms gate_shut "\<lambda>_. gate_shut"] assms by simp

lemma open_pm: "triple (\<lambda>h. protected_ok h \<and> gate_open h) (x1_pm io X1_ROOT off msk v) (\<lambda>_ h. protected_ok h \<and> gate_open h)"
  if "off = 8 \<or> off = 0x84"
  using that by (intro tripleI, elim pm_cases) auto

lemma gate_bits:
  "((a AND NOT 1) OR 1) AND 1 = (1 :: u32)" "((a AND NOT 1) OR 0) AND 1 = (0 :: u32)"
  using masked_value [of 1 1 a] masked_value [of 0 1 a] by (simp_all only: and.idem and_zero_eq simp_thms) simp_all

lemma and_one_cases: "b AND 1 \<noteq> 1 \<longleftrightarrow> b AND 1 = (0 :: u32)"
  by (simp add: and_one_eq)

lemma gate_opens:
  "triple gate_shut (x1_pm io X1_ROOT 0x8bc 1 1)
     (\<lambda>ret h. if ret = 0 then protected_ok h \<and> gate_open h else gate_known ret h)"
  by (rule tripleI, erule pm_cases) (simp_all add: gate_shut_def gate_known_def gate_bits [simplified] and_one_cases)

lemma gate_closes:
  "triple (\<lambda>h. protected_ok h \<and> gate_open h) (x1_pm io X1_ROOT 0x8bc 1 0)
     (\<lambda>ret h. if ret = 0 then gate_shut h else gate_known (- EIO) h)"
  by (rule tripleI, erule pm_cases) (simp_all add: gate_shut_def gate_known_def gate_bits [simplified])

lemma setup_gate_triple: "triple gate_shut (x1_pci0_setup io) gate_known"
proof -
  have parf: "triple gate_shut (run_ok ([x1_pm io X1_PARF 0x1b4 0xfff 0xf40, x1_pm io X1_PARF 0x20 0x20 0] @
      map (\<lambda>(off, v). x1_pv io X1_PARF off v) setup_parf)) (\<lambda>_. gate_shut)"
    by (rule shut_run_ok) (auto intro: shut_pm shut_pv)
  have dbi: "triple gate_shut (run_ok (dbi_steps io xs @ ys)) (\<lambda>_. gate_shut)"
    if "set xs \<subseteq> set setup_dbi" "\<And>m. m \<in> set ys \<Longrightarrow> triple gate_shut m (\<lambda>_. gate_shut)" for xs ys
    using that by (intro shut_run_ok) (auto simp: dbi_steps_def setup_dbi_def intro!: shut_pm)
  have rd: "triple gate_shut (x1_pr io r off) (\<lambda>_. gate_shut)" for r off
    by (rule tripleI) (auto simp: gate_shut_def)
  have wr: "triple gate_shut (x1_pw X1_ROOT off 0) (\<lambda>_. gate_shut)" if "off = 0x10 \<or> off = 0x14" for off
    using that by (intro tripleI) (auto simp: gate_shut_def)
  have prot: "triple (\<lambda>h. protected_ok h \<and> gate_open h)
      (run_ok [x1_pm io X1_ROOT 8 0xffff0000 0x06040000, x1_pm io X1_ROOT 0x84 0x60 0x60])
      (\<lambda>_ h. protected_ok h \<and> gate_open h)"
    using triple_run_ok [of "[x1_pm io X1_ROOT 8 0xffff0000 0x06040000, x1_pm io X1_ROOT 0x84 0x60 0x60]"
        "\<lambda>h. protected_ok h \<and> gate_open h" "\<lambda>_ h. protected_ok h \<and> gate_open h"]
    by (auto intro!: open_pm simp del: run_ok.simps)
  have last: "triple gate_shut (run_ok [x1_pm io X1_ROOT 0xfe4 1 0, x1_pm io X1_ROOT 4 6 6]) (\<lambda>_. gate_shut)"
    by (rule shut_run_ok) (auto intro: shut_pm)
  have known: "triple gate_shut (State_Monad.return ret) gate_known" for ret
    by (rule triple_return) (rule shut_known)
  have first: "set (take 2 setup_dbi) \<subseteq> set setup_dbi" and rest: "set (drop 2 setup_dbi) \<subseteq> set setup_dbi"
    by (rule set_take_subset, rule set_drop_subset)
  have rest_ok: "triple gate_shut (run_ok (dbi_steps io (drop 2 setup_dbi) @ [x1_pm io X1_ROOT 0xfe4 1 1])) (\<lambda>_. gate_shut)"
    by (rule dbi [OF rest]) (auto intro: shut_pm)
  note first_ok = dbi [OF first, where ys = "[]", simplified]
  show ?thesis
    unfolding x1_pci0_setup_def
    apply (rule triple_check_any [OF parf], erule shut_known)
    apply (rule triple_bind [OF rd])
    apply (rule triple_check_any [OF first_ok], erule shut_known)
    apply (rule triple_check [OF gate_opens], assumption)
    apply (rule triple_bind [OF prot])
    apply (rule triple_check [OF gate_closes], assumption)
    apply (rule triple_if, rule known)
    apply (rule triple_check_any [OF rest_ok], erule shut_known)
    apply (rule triple_bind [OF wr], simp)+
    apply (rule triple_bind [OF rd])
    apply (rule triple_weaken [OF last], assumption, erule shut_known)
    done
qed

section \<open>Bounds on training\<close>

fun delay_of :: "'p pci_event \<Rightarrow> nat" where
  "delay_of (PDelay n) = n"
| "delay_of e = 0"

fun is_request :: "'p pci_event \<Rightarrow> bool" where
  "is_request (PWrite r off v) = (r = X1_ROUTER \<and> off = 0xe008)"
| "is_request e = False"

definition delays :: "'p pci_event list \<Rightarrow> nat" where
  "delays ds = sum_list (map delay_of ds)"

definition requests :: "'p pci_event list \<Rightarrow> nat" where
  "requests ds = length (filter is_request ds)"

text \<open>At most \<open>c\<close> reset requests and \<open>d\<close> ms of waiting, and no access to the LTSSM control at 0x494.\<close>

definition bounded :: "('p pci_event, int) io \<Rightarrow> nat \<Rightarrow> nat \<Rightarrow> bool" where
  "bounded m c d \<longleftrightarrow> (\<forall>h ret h'. run_state m h = (ret, h') \<longrightarrow>
     (\<exists>ds. h' = ds @ h \<and> requests ds \<le> c \<and> delays ds \<le> d \<and> last_write X1_PARF 0x494 ds = None))"

lemma boundedI: "(\<And>h ret h'. run_state m h = (ret, h') \<Longrightarrow>
     \<exists>ds. h' = ds @ h \<and> requests ds \<le> c \<and> delays ds \<le> d \<and> last_write X1_PARF 0x494 ds = None) \<Longrightarrow> bounded m c d"
  by (simp add: bounded_def)

lemma boundedD:
  assumes "bounded m c d" and "run_state m h = (ret, h')"
  obtains ds where "h' = ds @ h" "requests ds \<le> c" "delays ds \<le> d" "last_write X1_PARF 0x494 ds = None"
  using assms unfolding bounded_def by blast

lemma delays_simps [simp]: "delays [] = 0" "delays (e # ds) = delay_of e + delays ds"
    "delays (ds @ es) = delays ds + delays es"
  by (simp_all add: delays_def)

lemma requests_simps [simp]: "requests [] = 0" "requests (e # ds) = (if is_request e then 1 else 0) + requests ds"
    "requests (ds @ es) = requests ds + requests es"
  by (simp_all add: requests_def)

lemma last_write_append: "last_write r off (ds @ es) =
    (case last_write r off ds of Some v \<Rightarrow> Some v | None \<Rightarrow> last_write r off es)"
  by (induction r off ds rule: last_write.induct) auto

lemma pp_bounded: "bounded (x1_pp io r off msk v n) 0 n"
proof (rule boundedI)
  fix h ret h'
  assume "run_state (x1_pp io r off msk v n) h = (ret, h')"
  from pp_from_run [OF this [unfolded x1_pp_def]] obtain ds where ds: "h' = ds @ h"
    "\<forall>e \<in> set ds. e = PDelay 1 \<or> (\<exists>x. e = PRead r off x)" "length (filter eff ds) \<le> n" by blast
  have "(\<forall>e \<in> set es. e = PDelay 1 \<or> (\<exists>x. e = PRead r off x)) \<Longrightarrow>
      requests es = 0 \<and> delays es = length (filter eff es) \<and> last_write X1_PARF 0x494 es = None"
    for es :: "'a pci_event list"
    by (induction es) auto
  with ds show "\<exists>ds. h' = ds @ h \<and> requests ds \<le> 0 \<and> delays ds \<le> n \<and> last_write X1_PARF 0x494 ds = None"
    by auto
qed

lemma pm_bounded: "(r, off) \<noteq> (X1_ROUTER, 0xe008) \<Longrightarrow> (r, off) \<noteq> (X1_PARF, 0x494) \<Longrightarrow> bounded (x1_pm io r off msk v) 0 0"
  by (rule boundedI, erule pm_cases) auto

lemma bounded_seq:
  assumes m: "bounded m c d" and k: "bounded k c' d'"
  shows "bounded (run_ok [m, k]) (c + c') (d + d')"
proof (rule boundedI)
  fix h ret h'
  assume run: "run_state (run_ok [m, k]) h = (ret, h')"
  obtain r h1 where r: "run_state m h = (r, h1)" by (cases "run_state m h")
  from m r obtain ds where ds: "h1 = ds @ h" "requests ds \<le> c" "delays ds \<le> d" "last_write X1_PARF 0x494 ds = None"
    by (rule boundedD)
  show "\<exists>ds. h' = ds @ h \<and> requests ds \<le> c + c' \<and> delays ds \<le> d + d' \<and> last_write X1_PARF 0x494 ds = None"
  proof (cases "r = 0")
    case True
    obtain r' h2 where r': "run_state k h1 = (r', h2)" by (cases "run_state k h1")
    with True run r have "h' = h2" by (auto split: if_splits)
    with k r' obtain es where "h' = es @ h1" "requests es \<le> c'" "delays es \<le> d'" "last_write X1_PARF 0x494 es = None"
      by (blast elim: boundedD)
    with ds show ?thesis by (intro exI [of _ "es @ ds"]) (auto simp: last_write_append)
  next
    case False
    with run r ds show ?thesis by (intro exI [of _ ds]) auto
  qed
qed

lemma bounded_delay: "bounded m c d \<Longrightarrow> bounded (do { x1_delay n; m }) c (n + d)"
proof (rule boundedI)
  fix h ret h'
  assume "bounded m c d" "run_state (do { x1_delay n; m }) h = (ret, h')"
  then obtain ds where "h' = ds @ PDelay n # h" "requests ds \<le> c" "delays ds \<le> d" "last_write X1_PARF 0x494 ds = None"
    by (auto elim: boundedD)
  then show "\<exists>ds. h' = ds @ h \<and> requests ds \<le> c \<and> delays ds \<le> n + d \<and> last_write X1_PARF 0x494 ds = None"
    by (intro exI [of _ "ds @ [PDelay n]"]) (auto simp: last_write_append)
qed

lemma request_bounded: "bounded (x1_pci0_reset_request io b) 1 10"
proof (rule boundedI)
  fix h ret h'
  assume run: "run_state (x1_pci0_reset_request io b) h = (ret, h')"
  let ?x = "io_read io h X1_ROUTER 0xe008"
  show "\<exists>ds. h' = ds @ h \<and> requests ds \<le> 1 \<and> delays ds \<le> 10 \<and> last_write X1_PARF 0x494 ds = None"
  proof (cases "?x AND 3 \<noteq> 0 \<or> (b \<noteq> 1 \<and> b \<noteq> 2)")
    case True
    with run show ?thesis by (auto simp: x1_pci0_reset_request_def intro!: exI [of _ "[PRead X1_ROUTER 0xe008 ?x]"])
  next
    case False
    with run have "run_state (x1_pp io X1_ROUTER 0xe008 b 0 10)
        ([PWrite X1_ROUTER 0xe008 (?x OR b), PRead X1_ROUTER 0xe008 ?x] @ h) = (ret, h')"
      by (auto simp: x1_pci0_reset_request_def split: if_splits)
    with pp_bounded obtain ds where "h' = ds @ [PWrite X1_ROUTER 0xe008 (?x OR b), PRead X1_ROUTER 0xe008 ?x] @ h"
      "requests ds \<le> 0" "delays ds \<le> 10" "last_write X1_PARF 0x494 ds = None" by (rule boundedD)
    then show ?thesis
      by (intro exI [of _ "ds @ [PWrite X1_ROUTER 0xe008 (?x OR b), PRead X1_ROUTER 0xe008 ?x]"])
        (auto simp: last_write_append)
  qed
qed

section \<open>Properties\<close>

text \<open>Registers that keep what is written and start at zero.\<close>

definition kept :: "unit pci_event list \<Rightarrow> x1_pci0_region \<Rightarrow> u32 \<Rightarrow> u32" where
  "kept h r off = (case last_write r off h of Some v \<Rightarrow> v | None \<Rightarrow> 0)"

definition kept_io :: "unit x1_pci0_io" where
  "kept_io = \<lparr>io_read = kept, io_reset = \<lambda>_ _. 0\<rparr>"

text \<open>A controller that stops answering after the first protected write.\<close>

definition vanishing_io :: "unit x1_pci0_io" where
  "vanishing_io = kept_io\<lparr>io_read := \<lambda>h r off. if last_write X1_ROOT 8 h = None then kept h r off else 0xffffffff\<rparr>"

lemma gate_left_open:
  "fst (run_state (x1_pci0_setup vanishing_io) []) = - EIO \<and> gate_open (snd (run_state (x1_pci0_setup vanishing_io) []))"
  by code_simp

text \<open>
  C37. The protected header fields of the root port are only ever written while the write gate is
  open.  From a shut gate, a set-up that succeeds, or that fails with another error than \<open>-EIO\<close>, ends with the
  gate shut.  The last value written to the gate is the open one only if the result is \<open>-EIO\<close> and the last
  event is a read of the gate register itself that showed the gate shut, or that read all ones.  The second
  case does happen, against the comment in the code: a controller that stops answering after the first
  protected write has its gate left open.
\<close>

theorem setup_gate:
  assumes "protected_ok h" and "\<not> gate_open h" and "run_state (x1_pci0_setup io) h = (ret, h')"
  shows "protected_ok h' \<and> (ret \<noteq> - EIO \<longrightarrow> \<not> gate_open h') \<and>
    (gate_open h' \<longrightarrow> (\<exists>x t. h' = PRead X1_ROOT 0x8bc x # t \<and> (x AND 1 = 0 \<or> x = 0xffffffff))) \<and>
    fst (run_state (x1_pci0_setup vanishing_io) []) = - EIO \<and> gate_open (snd (run_state (x1_pci0_setup vanishing_io) []))"
  using tripleD [OF setup_gate_triple _ assms(3)] assms(1,2) gate_left_open
  by (auto simp: gate_shut_def gate_known_def)

theorem setup_gate_witness:
  "fst (run_state (x1_pci0_setup kept_io) []) = 0 \<and> \<not> gate_open (snd (run_state (x1_pci0_setup kept_io) []))"
proof -
  obtain ret h' where run: "run_state (x1_pci0_setup kept_io) [] = (ret, h')" by (metis surj_pair)
  have "fst (run_state (x1_pci0_setup kept_io) []) = 0" by code_simp
  with setup_gate [OF _ _ run] run show ?thesis by (auto simp: gate_open_def)
qed

text \<open>
  C38. Training leaves the LTSSM control at 0x494 released on every path: its last value is 0 whenever
  it was written at all.  A run makes at most two reset requests and waits at most 341 ms in total,
  whatever the hardware answers; and when it succeeds, the last thing it saw was the link state
  0x11.
\<close>

theorem train_releases:
  assumes run: "run_state (x1_pci0_train io) h = (ret, h')"
  shows "\<exists>ds. h' = ds @ h \<and> (last_write X1_PARF 0x494 ds = None \<or> last_write X1_PARF 0x494 ds = Some 0) \<and>
    requests ds \<le> 2 \<and> delays ds \<le> 341 \<and>
    (ret = 0 \<longrightarrow> (\<exists>x t. ds = PRead X1_PARF 0x1b0 x # t \<and> x AND 0x3f = 0x11))"
proof -
  let ?first = "run_ok [x1_pci0_reset_request io 1, do { x1_delay 1; x1_pci0_reset_request io 2 }]"
  let ?second = "run_ok [x1_pm io X1_PARF 0x1b0 0x100 0x100, x1_pp io X1_ROOT 0xf48 0x400 0x400 150]"
  have b1: "bounded ?first (1 + 1) (10 + (1 + 10))" by (intro bounded_seq request_bounded bounded_delay)
  have b2: "bounded ?second (0 + 0) (0 + 150)" by (intro bounded_seq pm_bounded pp_bounded) simp_all
  obtain r1 h1 where r1: "run_state ?first h = (r1, h1)" by (metis surj_pair)
  from b1 r1 obtain ds where ds: "h1 = ds @ h" "requests ds \<le> 2" "delays ds \<le> 21" "last_write X1_PARF 0x494 ds = None"
    by (rule boundedD) auto
  show ?thesis
  proof (cases "r1 = 0")
    case False
    with run r1 ds show ?thesis by (intro exI [of _ ds]) (auto simp: x1_pci0_train_def simp del: run_ok.simps)
  next
    case True
    let ?ws = "[PWrite X1_PARF 0x494 5, PWrite X1_PARF 0x494 0, PWrite X1_PARF 0x494 2, PWrite X1_PARF 0x494 0, PDelay 20]"
    obtain r2 h2 where r2: "run_state ?second (?ws @ h1) = (r2, h2)" by (metis surj_pair)
    from b2 r2 obtain es where es: "h2 = es @ ?ws @ h1" "requests es = 0" "delays es \<le> 150" by (rule boundedD) auto
    show ?thesis
    proof (cases "r2 = 0")
      case False
      with run r1 r2 True ds es show ?thesis
        by (intro exI [of _ "PWrite X1_PARF 0x494 0 # es @ ?ws @ ds"])
          (auto simp: x1_pci0_train_def simp del: run_ok.simps)
    next
      case r20: True
      with run r1 r2 True have p: "run_state (x1_pp io X1_PARF 0x1b0 0x3f 0x11 150) (PWrite X1_PARF 0x494 0 # h2) = (ret, h')"
        by (auto simp: x1_pci0_train_def simp del: run_ok.simps)
      from pp_bounded p obtain fs where fs: "h' = fs @ PWrite X1_PARF 0x494 0 # h2" "requests fs = 0" "delays fs \<le> 150"
        "last_write X1_PARF 0x494 fs = None" by (rule boundedD) auto
      from pp_from_run [OF p [unfolded x1_pp_def]] fs(1) have "ret = 0 \<longrightarrow> (\<exists>x t. fs = PRead X1_PARF 0x1b0 x # t \<and> x AND 0x3f = 0x11)"
        by auto
      with fs ds es show ?thesis
        by (intro exI [of _ "fs @ PWrite X1_PARF 0x494 0 # es @ ?ws @ ds"]) (auto simp: last_write_append)
    qed
  qed
qed

theorem train_releases_witness:
  "fst (run_state (x1_pci0_train kept_io) []) < 0 \<and>
   requests (snd (run_state (x1_pci0_train kept_io) [])) \<le> 2 \<and> delays (snd (run_state (x1_pci0_train kept_io) [])) \<le> 341"
proof -
  obtain ret h' where run: "run_state (x1_pci0_train kept_io) [] = (ret, h')" by (metis surj_pair)
  have "fst (run_state (x1_pci0_train kept_io) []) < 0" by code_simp
  with train_releases [OF run] run show ?thesis by auto
qed

text \<open>
  Selecting the root complex is refused without touching anything unless the controller shows its
  exact quiescent identity and an idle gate; then the effects are the nine of the plan, in order,
  as far as each one succeeded, and all nine when the call succeeds.
\<close>

lemma mode_exact:
  assumes "run_state (x1_pci0_mode io) h = (ret, h')"
  shows "(\<exists>ds. h' = ds @ h \<and> filter eff ds = [] \<and> ret < 0) \<or>
    (\<exists>g ds. g \<le> 1 \<and> h' = ds @ [PRead X1_ROUTER 0x82000 g, PRead X1_ROOT 12 0,
        PRead X1_ROOT 8 0xff000001, PRead X1_ROOT 4 0x100000, PRead X1_ROOT 0 0x011117cb] @ h \<and>
       matches mode_plan (rev (filter eff ds)) \<and> (ret = 0 \<longrightarrow> length (filter eff ds) = 9))"
  using assms
proof (cases rule: mode_cases)
  case (refused ds)
  then show ?thesis by auto
next
  case (selected g ds)
  then show ?thesis by blast
qed

text \<open>
  C39. Polling waits at most its budget, only reads the one register, and never misses: if the
  register shows the expected value within the budget and answers until then, the result is
  success; success in turn means the value was seen.
\<close>

theorem poll_sees:
  assumes run: "run_state (x1_pp io r off msk v ms) h = (ret, h')"
  shows "(\<exists>ds. h' = ds @ h \<and> delays ds \<le> ms \<and> length ds \<le> 2 * ms + 1 \<and>
      (\<forall>e \<in> set ds. e = PDelay 1 \<or> (\<exists>x. e = PRead r off x)) \<and>
      (ret = 0 \<longrightarrow> (\<exists>x t. ds = PRead r off x # t \<and> x AND msk = v))) \<and>
    (\<forall>k \<le> ms. (\<forall>j \<le> k. io_read io (poll_history r off io j h) r off \<noteq> 0xffffffff) \<longrightarrow>
       io_read io (poll_history r off io k h) r off AND msk = v \<longrightarrow> ret = 0)"
proof (intro conjI allI impI)
  from pp_bounded run obtain ds where ds: "h' = ds @ h" "delays ds \<le> ms" by (rule boundedD)
  from pp_from_run [OF run [unfolded x1_pp_def]] ds
  show "\<exists>ds. h' = ds @ h \<and> delays ds \<le> ms \<and> length ds \<le> 2 * ms + 1 \<and>
      (\<forall>e \<in> set ds. e = PDelay 1 \<or> (\<exists>x. e = PRead r off x)) \<and>
      (ret = 0 \<longrightarrow> (\<exists>x t. ds = PRead r off x # t \<and> x AND msk = v))"
    by (intro exI [of _ ds]) auto
next
  fix k
  assume "k \<le> ms" "\<forall>j \<le> k. io_read io (poll_history r off io j h) r off \<noteq> 0xffffffff"
    "io_read io (poll_history r off io k h) r off AND msk = v"
  then have "fst (run_state (x1_pp_from io r off msk v ms) h) = 0"
    by (intro pp_from_sees [of k]) auto
  with run show "ret = 0" by (simp add: x1_pp_def)
qed

theorem poll_sees_witness:
  "run_state (x1_pp (kept_io\<lparr>io_read := \<lambda>h _ _. if length h \<ge> 4 then 5 else 0\<rparr>) X1_PARF 8 1 1 10) [] =
     (0, [PRead X1_PARF 8 5, PDelay 1, PRead X1_PARF 8 0, PDelay 1, PRead X1_PARF 8 0]) \<and>
   delays ([PRead X1_PARF 8 5, PDelay 1, PRead X1_PARF 8 0, PDelay 1, PRead X1_PARF 8 0] :: unit pci_event list) \<le> 10"
proof -
  have run: "run_state (x1_pp (kept_io\<lparr>io_read := \<lambda>h _ _. if length h \<ge> 4 then 5 else 0\<rparr>) X1_PARF 8 1 1 10) [] =
     (0, [PRead X1_PARF 8 5, PDelay 1, PRead X1_PARF 8 0, PDelay 1, PRead X1_PARF 8 0])"
    by code_simp
  from poll_sees [OF run] run show ?thesis by auto
qed

definition window_plan :: "('p pci_event \<Rightarrow> bool) list" where
  "window_plan = map (\<lambda>(off, v) e. e = PWrite X1_ROOT off v) window_root @
     map (\<lambda>(off, v) e. e = PWrite X1_PARF off v) window_parf @ [masked X1_PARF 0 0x44000000 0x44000000]"

lemma follows_table:
  "follows eff (run_ok (map (\<lambda>(off, v). x1_pv io r off v) ws)) (map (\<lambda>(off, v) e. e = PWrite r off v) ws)"
proof -
  have "list_all2 (follows eff) (map (\<lambda>(off, v). x1_pv io r off v) ws) (map (\<lambda>(off, v). [\<lambda>e. e = PWrite r off v]) ws)"
    by (auto simp: list_all2_conv_all_nth follows_pv split: prod.splits)
  from follows_run_ok [OF this] show ?thesis by (simp add: concat_map_singleton case_prod_unfold)
qed

lemma windows_follows: "follows eff (x1_pci0_windows io) window_plan"
proof -
  let ?root = "map (\<lambda>(off, v). x1_pv io X1_ROOT off v) window_root"
  let ?parf = "map (\<lambda>(off, v). x1_pv io X1_PARF off v) window_parf"
  let ?plan = "map (\<lambda>(off, v) e. e = PWrite X1_ROOT off v) window_root @ map (\<lambda>(off, v) e. e = PWrite X1_PARF off v) window_parf"
  have split: "run_ok (?root @ ?parf) =
      do { ret \<leftarrow> run_ok ?root; if ret \<noteq> 0 then State_Monad.return ret else run_ok ?parf }"
    by (rule state_ext) (simp add: run_ok_append split: prod.splits)
  have table: "follows eff (run_ok (?root @ ?parf)) ?plan"
    unfolding split by (rule follows_seq [OF follows_table follows_table])
  have rest: "follows eff (do {
      latched \<leftarrow> reads_fit io [(X1_ROOT, 0x1004, \<lambda>v. v AND 0x90000000 = 0x90000000),
         (X1_ROOT, 0x1204, \<lambda>v. v AND 0x90000000 = 0x90000000)];
      if \<not> latched then State_Monad.return (- EIO)
      else x1_pm io X1_PARF 0 0x44000000 0x44000000 }) [masked X1_PARF 0 0x44000000 0x44000000]"
    by (intro follows_quiet_bind quiet_reads_fit follows_if follows_return_error follows_pm) simp_all
  show ?thesis
    unfolding x1_pci0_windows_def window_plan_def append_assoc [symmetric] by (rule follows_seq [OF table rest])
qed

lemma window_length: "length window_plan = 32"
  by (simp add: window_plan_def window_root_def window_parf_def)

text \<open>
  Opening the configuration windows writes only the fixed addresses of the board, in the order of
  the two tables and the final enable, stops at the first register that does not read back, and a
  success has written all 32.
\<close>

lemma windows_exact:
  assumes "run_state (x1_pci0_windows io) h = (ret, h')"
  shows "\<exists>ds. h' = ds @ h \<and> matches window_plan (rev (filter eff ds)) \<and> (ret = 0 \<longrightarrow> length (filter eff ds) = 32)"
proof -
  from windows_follows assms obtain ds where "h' = ds @ h" "matches window_plan (rev (filter eff ds))"
    "ret = 0 \<longrightarrow> length (filter eff ds) = 32"
    by (rule followsD) (simp add: window_length)
  then show ?thesis by blast
qed

end
