(* ===== verification/X1_Board.thy ===== *)
theory X1_Board
  imports X1_Prelude
begin

text \<open>
  The board check every driver of the bring-up starts from
  (\<open>snapshot/kernel/include/linux/soc/qcom/x1-usb4-diag.h\<close>), with the operations the clock and PHY
  providers offer in the same header.
\<close>

section \<open>The board\<close>

text \<open>
  The build configuration (\<open>IS_ENABLED\<close>, \<open>IS_MODULE\<close>) by option name, and the device tree: the
  properties of its root, which nodes exist and whether they are available, the machine's compatible.
\<close>

record board =
  enabled :: "string \<Rightarrow> bool"
  is_module :: "string \<Rightarrow> bool"
  root_property :: "string \<Rightarrow> bool"
  node_available :: "string \<Rightarrow> bool option"
  yoga_slim7x :: bool

definition x1_diag_disabled :: "board \<Rightarrow> string \<Rightarrow> bool" where
  "x1_diag_disabled b path = (case node_available b path of Some available \<Rightarrow> \<not> available | None \<Rightarrow> False)"

definition x1_diag_board_allowed :: "board \<Rightarrow> bool" where
  "x1_diag_board_allowed b =
     (if enabled b ''USB4_X1_NATIVE'' \<and> \<not> root_property b ''birk,usb4-native-cm-test'' then False
      else if enabled b ''USB_DWC3'' \<or> enabled b ''DRM_MSM'' \<or>
        (enabled b ''QCOM_PMIC_GLINK'' \<and>
          (\<not> enabled b ''USB4_X1_TYPEC_DIAG'' \<or> \<not> root_property b ''birk,usb4-typec-observer'')) \<or>
        (enabled b ''TYPEC_MUX_PS883X'' \<and>
          (\<not> is_module b ''TYPEC_MUX_PS883X'' \<or> \<not> enabled b ''USB4_X1_TYPEC_DIAG'' \<or>
           \<not> root_property b ''birk,usb4-retimer-test'')) \<or>
        enabled b ''TYPEC_UCSI'' \<or> enabled b ''USB_XHCI_HCD'' \<or>
        (enabled b ''USB4'' \<and> \<not> enabled b ''USB4_X1_DIAG'') \<or> enabled b ''USB4_QCOM'' \<or>
        (enabled b ''BLK_DEV_NVME'' \<and>
          (\<not> enabled b ''USB4_X1_NATIVE'' \<or> \<not> is_module b ''BLK_DEV_NVME'' \<or>
           \<not> root_property b ''birk,usb4-pci0-test'' \<or> \<not> root_property b ''birk,usb4-pci0-init-v23'' \<or>
           \<not> x1_diag_disabled b ''/soc@0/pcie@1bf8000'' \<or> \<not> x1_diag_disabled b ''/soc@0/pcie@1c08000'')) \<or>
        enabled b ''SCSI'' \<or> enabled b ''ATA'' \<or> enabled b ''MMC'' \<or> enabled b ''MTD'' \<or>
        enabled b ''USB_STORAGE'' \<or> enabled b ''USB_UAS'' then False
      else yoga_slim7x b \<and> root_property b ''birk,usb4-mcu-ram-probe'' \<and>
        x1_diag_disabled b ''/soc@0/usb@a600000'' \<and> x1_diag_disabled b ''/soc@0/display-subsystem@ae00000'')"

datatype x1_diag_gcc_op =
    X1_GCC_RX_REFERENCE | X1_GCC_RX_PHY
  | X1_GCC_MISC_ASSERT | X1_GCC_MISC_CLEAR
  | X1_GCC_EXTRA_ASSERT | X1_GCC_EXTRA_CLEAR
  | X1_GCC_PIPE_ASSERT | X1_GCC_PIPE_CLEAR
  | X1_GCC_SYS_READY | X1_GCC_MEMORY_FORCE | X1_GCC_HWCG_OFF

datatype x1_diag_phy_op = X1_DIAG_PHY_PREPARE | X1_DIAG_PHY_DP_ASSERT | X1_DIAG_PHY_DP_CLEAR

text \<open>The first error among pointers asked for one after the other.\<close>

definition first_error :: "int option list \<Rightarrow> int option" where
  "first_error es = (case List.find (\<lambda>e. e \<noteq> None) es of Some e \<Rightarrow> e | None \<Rightarrow> None)"

text \<open>A board that passes.\<close>

definition lab_board :: board where
  "lab_board = \<lparr>enabled = (\<lambda>_. False), is_module = (\<lambda>_. False), root_property = (\<lambda>_. True),
     node_available = (\<lambda>_. Some False), yoga_slim7x = True\<rparr>"

end
