(* ===== verification/X1_Bridge.thy ===== *)
theory X1_Bridge
  imports X1_Pci0 X1_Board
begin

unbundle bit_operations_syntax

text \<open>
  The private PCI0 host bridge (\<open>snapshot/kernel/drivers/thunderbolt/qcom-x1-pcie.c\<close>): the probe that
  powers and initializes the controller, the class fix-up of its root port, and the three calls the
  connection manager makes, start, train and scan.

  Power, clocks, interconnect and the PCI core are events of the same history as the register
  accesses; what they return, and which devices the PCI core finds, is a function of that history.
  A device found by the core is passed to the class fix-up as the core does for early fix-ups.
  Constants of the PCI header and capability layout are those of the PCI specification.
\<close>

section \<open>State\<close>

datatype bridge_call =
    Pm_resume | Clk_enable nat | Icc_mem | Icc_cfg | Alloc_bridge | Ecam_create | Host_probe | Rescan

type_synonym bridge_event = "bridge_call pci_event"

text \<open>What the driver looks at in a \<open>struct pci_dev\<close>; \<open>dev_id\<close> stands for the pointer.\<close>

record pci_dev =
  dev_id :: nat
  on_root_bus :: bool
  on_owned_cfg :: bool
  domain_nr :: nat
  bus_number :: nat
  devfn :: nat
  vendor :: u32
  device :: u32
  hdr_type :: u32
  multifunction :: bool
  pcie_port_type :: "u32 option"
  dev_class :: u32
  revision :: u32
  has_driver :: bool

record x1_bridge =
  b_log :: "bridge_event list"
  b_attempted :: bool
  b_powered :: bool
  b_downstream :: bool
  b_ready :: bool
  b_error :: int
  b_enabled :: nat
  b_endpoint :: "nat option"
  b_endpoint_validated :: bool
  b_root_validated :: bool
  b_root_fixup_done :: bool
  b_root_class :: u32
  b_trained :: bool
  b_train_attempted :: bool

definition bridge_zero :: x1_bridge where
  "bridge_zero = \<lparr>b_log = [], b_attempted = False, b_powered = False, b_downstream = False, b_ready = False,
     b_error = 0, b_enabled = 0, b_endpoint = None, b_endpoint_validated = False, b_root_validated = False,
     b_root_fixup_done = False, b_root_class = 0, b_trained = False, b_train_attempted = False\<rparr>"

record bridge_env =
  bio :: "bridge_call x1_pci0_io"
  bcall :: "bridge_event list \<Rightarrow> bridge_call \<Rightarrow> int"
  found :: "bridge_event list \<Rightarrow> pci_dev list"

definition on_io :: "(bridge_event, 'a) io \<Rightarrow> (x1_bridge, 'a) state" where
  "on_io m = State (\<lambda>b. case run_state m (b_log b) of (a, h) \<Rightarrow> (a, b\<lparr>b_log := h\<rparr>))"

definition host :: "bridge_env \<Rightarrow> bridge_call \<Rightarrow> (x1_bridge, int) state" where
  "host env c = on_io (perform (\<lambda>h. bcall env h c) (\<lambda>_. PHost c))"

definition setb :: "(x1_bridge \<Rightarrow> x1_bridge) \<Rightarrow> (x1_bridge, unit) state" where
  "setb f = State (\<lambda>b. ((), f b))"

definition getb :: "(x1_bridge \<Rightarrow> 'a) \<Rightarrow> (x1_bridge, 'a) state" where
  "getb f = State (\<lambda>b. (f b, b))"

section \<open>Identity of the root port\<close>

definition cap_bad :: "u32 \<Rightarrow> u64 \<Rightarrow> bool" where
  "cap_bad ptr seen \<longleftrightarrow> ptr < 0x40 \<or> ptr > 0xfc \<or> ptr AND 3 \<noteq> 0 \<or> bit seen (unat ptr div 4 - 16)"

definition exp_cap_bad :: "u32 \<Rightarrow> u32 \<Rightarrow> u32 \<Rightarrow> bool" where
  "exp_cap_bad flags ptr pcie \<longleftrightarrow> pcie \<noteq> 0 \<or> flags AND 0xf0 \<noteq> 0x40 \<or> flags AND 0xf = 0 \<or>
     flags AND 0xf > 2 \<or> ptr > 0xc4"

text \<open>The walk with \<open>n\<close> rounds left; the result is an error, or the pointer and capability at its end.\<close>

fun root_caps ::
    "bridge_call x1_pci0_io \<Rightarrow> nat \<Rightarrow> u32 \<Rightarrow> u64 \<Rightarrow> u32 \<Rightarrow> (bridge_event, int + u32 \<times> u32) io" where
  "root_caps io 0 ptr seen pcie = State_Monad.return (Inr (ptr, pcie))"
| "root_caps io (Suc n) ptr seen pcie =
     (if ptr = 0 then State_Monad.return (Inr (ptr, pcie))
      else if cap_bad ptr seen then State_Monad.return (Inl (- EPROTO))
      else do {
        cap \<leftarrow> x1_pr io X1_ROOT ptr;
        let seen = seen OR push_bit (unat ptr div 4 - 16) 1;
        let cap_id = cap AND 0xff;
        if cap_id = 0 \<or> cap_id = 0xff then State_Monad.return (Inl (- EPROTO))
        else if cap_id = 0x10 then
          (if exp_cap_bad (drop_bit 16 cap) ptr pcie then State_Monad.return (Inl (- ENODEV))
           else root_caps io n (drop_bit 8 cap AND 0xff) seen ptr)
        else root_caps io n (drop_bit 8 cap AND 0xff) seen pcie
      })"

definition port_header_ok :: "u32 list \<Rightarrow> bool" where
  "port_header_ok h \<longleftrightarrow> h ! 0 = 0x011117cb \<and> (drop_bit 8 (h ! 2) = 0x060400 \<or> h ! 2 = 0xff000001) \<and>
     drop_bit 16 (h ! 3) AND 0xff = 1 \<and> h ! 1 AND 0x100000 \<noteq> 0"

definition header_regs :: "(x1_pci0_region \<times> u32) list" where
  "header_regs = map (\<lambda>i. (X1_ROOT, of_nat (4 * i))) [0..<16]"

definition root_identity :: "bridge_call x1_pci0_io \<Rightarrow> (bridge_event, int + u32) io" where
  "root_identity io = do {
     h \<leftarrow> read_all io header_regs;
     if \<not> port_header_ok h then State_Monad.return (Inl (- ENODEV))
     else do {
       r \<leftarrow> root_caps io 48 (h ! 13 AND 0xff) 0 0;
       State_Monad.return (case r of
          Inl e \<Rightarrow> Inl e
        | Inr (ptr, pcie) \<Rightarrow> if ptr \<noteq> 0 \<or> pcie = 0 then Inl (- ENODEV) else Inr (h ! 2))
     }
   }"

definition x1_root_validate :: "bridge_env \<Rightarrow> (x1_bridge, int) state" where
  "x1_root_validate env = do {
     r \<leftarrow> on_io (root_identity (bio env));
     case r of
       Inl e \<Rightarrow> State_Monad.return e
     | Inr class_word \<Rightarrow> do {
         setb (\<lambda>b. b\<lparr>b_root_class := class_word, b_root_validated := True\<rparr>);
         State_Monad.return 0
       }
   }"

definition fixup_applies :: "x1_bridge \<Rightarrow> pci_dev \<Rightarrow> bool" where
  "fixup_applies b d \<longleftrightarrow> b_root_validated b \<and> b_powered b \<and> b_error b = 0 \<and>
     on_root_bus d \<and> on_owned_cfg d \<and> domain_nr d = 0 \<and> bus_number d = 0 \<and> devfn d = 0 \<and>
     vendor d = 0x17cb \<and> device d = 0x0111 \<and> hdr_type d = 1 \<and> \<not> multifunction d \<and>
     pcie_port_type d = Some 4 \<and> dev_class d = drop_bit 8 (b_root_class b) \<and>
     revision d = b_root_class b AND 0xff"

text \<open>The class Linux works with for the device, and the driver's state, after the early fix-up.\<close>

definition x1_root_fixup_class :: "x1_bridge \<Rightarrow> pci_dev \<Rightarrow> x1_bridge \<times> pci_dev" where
  "x1_root_fixup_class b d =
     (if \<not> fixup_applies b d then (b, d)
      else let d = (if b_root_class b = 0xff000001 then d\<lparr>dev_class := 0x060400\<rparr> else d) in
        (b\<lparr>b_root_fixup_done := (dev_class d = 0x060400)\<rparr>, d))"

text \<open>
  The PCI core's pass over the devices it finds, with the fix-up for each; the result is the devices
  with the classes Linux has for them afterwards.
\<close>

fun fixup_devs :: "pci_dev list \<Rightarrow> x1_bridge \<Rightarrow> pci_dev list \<times> x1_bridge" where
  "fixup_devs [] b = ([], b)"
| "fixup_devs (d # ds) b =
     (case x1_root_fixup_class b d of (b, d) \<Rightarrow> case fixup_devs ds b of (ds, b) \<Rightarrow> (d # ds, b))"

definition fixup_all :: "bridge_env \<Rightarrow> (x1_bridge, pci_dev list) state" where
  "fixup_all env = State (\<lambda>b. fixup_devs (found env (b_log b)) b)"

section \<open>Configuration access\<close>

text \<open>\<open>Some\<close> is the access \<open>pci_ecam_map_bus\<close> is asked for; \<open>root_bus\<close> says that the bus is the first of the window.\<close>

definition x1_ecam_map :: "x1_bridge option \<Rightarrow> bool \<Rightarrow> nat \<Rightarrow> int \<Rightarrow> (bool \<times> nat \<times> int) option" where
  "x1_ecam_map owner root_bus dfn reg =
     (case owner of
        None \<Rightarrow> None
      | Some b \<Rightarrow>
          if \<not> b_powered b \<or> reg < 0 \<or> reg \<ge> 4096 then None
          else if root_bus then (if dfn \<noteq> 0 then None else Some (root_bus, dfn, reg))
          else if \<not> b_downstream b then None
          else Some (root_bus, dfn, reg))"

definition x1_native_nvme_allowed :: "x1_bridge option \<Rightarrow> nat \<Rightarrow> bool" where
  "x1_native_nvme_allowed owner pdev =
     (case owner of None \<Rightarrow> False | Some b \<Rightarrow> b_endpoint_validated b \<and> b_endpoint b = Some pdev)"

section \<open>Probe\<close>

text \<open>
  What the platform offers: a phandle resolves to an error, or to whether it names the expected clock
  controller together with its arguments; a pointer the driver gets is an error or granted.
\<close>

record bridge_platform =
  bp_res0 :: "(u64 \<times> u64) option"
  bp_domain :: "u32 option"
  bp_smmu_reserved :: bool
  bp_alloc :: bool
  bp_res1 :: "(u64 \<times> u64) option"
  bp_pipe_first :: bool
  bp_clock_count :: nat
  bp_clock0 :: "int + bool \<times> u32 list"
  bp_reset0 :: "int + bool \<times> u32 list"
  bp_reset_count :: nat
  bp_parf :: "int option"
  bp_tunnel_reset :: "int option"
  bp_clocks :: "int option list"
  bp_mem :: "int + bool"
  bp_cfg :: "int + bool"

definition x1_bridge_init_resources :: "u32 \<Rightarrow> u32 \<Rightarrow> board \<Rightarrow> bool \<Rightarrow> bridge_platform \<Rightarrow> int" where
  "x1_bridge_init_resources pipe_clk tunnel_bcr brd router f =
     (if \<not> router \<or> bp_res1 f \<noteq> Some (0x1c28000, 0x8000) \<or> \<not> root_property brd ''birk,usb4-pci0-init-v23''
      then - EPERM
      else if \<not> bp_pipe_first f \<or> bp_clock_count f \<noteq> 8 then - EPERM
      else (case bp_clock0 f of
         Inl e \<Rightarrow> e
       | Inr (gcc, args) \<Rightarrow>
           if \<not> (gcc \<and> args = [pipe_clk]) then - EPERM
           else (case bp_reset0 f of
              Inl e \<Rightarrow> e
            | Inr (gcc, args) \<Rightarrow>
                if \<not> (gcc \<and> args = [tunnel_bcr] \<and> bp_reset_count f = 1) then - EPERM
                else (case (bp_parf f, bp_tunnel_reset f) of
                   (Some e, _) \<Rightarrow> e
                 | (None, Some e) \<Rightarrow> e
                 | (None, None) \<Rightarrow> 0))))"

text \<open>The common guard of \<open>x1_pcie_start\<close> and of the probe.\<close>

definition pci0_allowed :: "board \<Rightarrow> bool \<Rightarrow> bool \<Rightarrow> bool" where
  "pci0_allowed brd hyp nhi \<longleftrightarrow> \<not> hyp \<and> x1_diag_board_allowed brd \<and> nhi \<and>
     root_property brd ''birk,usb4-pci0-test'' \<and> root_property brd ''birk,usb4-pci0-init-v23'' \<and>
     x1_diag_disabled brd ''/soc@0/pcie@1bf8000'' \<and> x1_diag_disabled brd ''/soc@0/pcie@1c08000''"

text \<open>The part of the probe before the owner is set.\<close>

definition bridge_acquire ::
    "u32 \<Rightarrow> u32 \<Rightarrow> board \<Rightarrow> bool \<Rightarrow> bool \<Rightarrow> bool \<Rightarrow> bool \<Rightarrow> bool \<Rightarrow> bridge_platform \<Rightarrow> int" where
  "bridge_acquire pipe_clk tunnel_bcr brd window hyp nhi owned router f =
     (if \<not> window \<or> \<not> pci0_allowed brd hyp nhi then - EPERM
      else if bp_res0 f \<noteq> Some (0x400000000, 0x10000000) \<or> bp_domain f \<noteq> Some 0 then - EINVAL
      else if \<not> bp_smmu_reserved f then - EPERM
      else if owned then - EBUSY
      else if \<not> bp_alloc f then - ENOMEM
      else let ret = x1_bridge_init_resources pipe_clk tunnel_bcr brd router f in
        if ret \<noteq> 0 then ret
        else (case (first_error (bp_clocks f), bp_mem f, bp_cfg f) of
           (Some e, _, _) \<Rightarrow> e
         | (None, Inl e, _) \<Rightarrow> e
         | (None, Inr _, Inl e) \<Rightarrow> e
         | (None, Inr m, Inr c) \<Rightarrow> if \<not> m \<or> \<not> c then - ENODEV else 0))"

fun enable_bridge_clocks :: "bridge_env \<Rightarrow> nat list \<Rightarrow> (x1_bridge, int) state" where
  "enable_bridge_clocks env [] = State_Monad.return 0"
| "enable_bridge_clocks env (i # rest) = do {
     ret \<leftarrow> host env (Clk_enable i);
     if ret \<noteq> 0 then State_Monad.return ret
     else do {
       setb (\<lambda>b. b\<lparr>b_enabled := b_enabled b + 1\<rparr>);
       enable_bridge_clocks env rest
     }
   }"

text \<open>Power, clocks and votes.\<close>

definition bridge_power :: "bridge_env \<Rightarrow> (x1_bridge, int) state" where
  "bridge_power env = do {
     ret \<leftarrow> host env Pm_resume;
     if ret < 0 then State_Monad.return ret
     else do {
       ret \<leftarrow> run_ok [enable_bridge_clocks env [0..<8], host env Icc_mem, host env Icc_cfg];
       if ret \<noteq> 0 then State_Monad.return ret
       else do {
         setb (\<lambda>b. b\<lparr>b_powered := True\<rparr>);
         State_Monad.return 0
       }
     }
   }"

text \<open>
  From \<open>devm_pci_alloc_host_bridge\<close> to the end; the allocation answers 0 or -ENOMEM, the ECAM
  mapping 0 or its error.
\<close>

definition bridge_bring_up :: "bridge_env \<Rightarrow> (x1_bridge, int) state" where
  "bridge_bring_up env = do {
     ret \<leftarrow> run_ok [
       do { ret \<leftarrow> host env Alloc_bridge; State_Monad.return (if ret \<noteq> 0 then - ENOMEM else 0) },
       host env Ecam_create,
       on_io (x1_pci0_mode (bio env)),
       x1_root_validate env,
       on_io (x1_pci0_setup (bio env)),
       x1_root_validate env,
       do { ret \<leftarrow> host env Host_probe; fixup_all env; State_Monad.return ret }];
     if ret \<noteq> 0 then State_Monad.return ret
     else do {
       ok \<leftarrow> getb b_root_fixup_done;
       if \<not> ok then State_Monad.return (- ENODEV)
       else do {
         setb (\<lambda>b. b\<lparr>b_ready := True\<rparr>);
         State_Monad.return 0
       }
     }
   }"

definition bridge_d0 :: "bridge_env \<Rightarrow> (x1_bridge, int) state" where
  "bridge_d0 env = do {
     setb (\<lambda>b. b\<lparr>b_attempted := True\<rparr>);
     ret \<leftarrow> run_ok [bridge_power env, bridge_bring_up env];
     if ret \<noteq> 0 then do {
       setb (\<lambda>b. b\<lparr>b_error := ret\<rparr>);
       State_Monad.return 0
     }
     else State_Monad.return 0
   }"

section \<open>The driver's calls\<close>

record pcie_state =
  bridge_owner :: "x1_bridge option"
  registered :: bool
  registration_window :: bool
  registration_router :: bool

text \<open>The environment of a call: the board, whether a hypervisor stub is available and the NHI run is complete.\<close>

record pcie_env =
  pe_bridge :: bridge_env
  pe_board :: board
  pe_hyp :: bool
  pe_nhi_complete :: bool
  pe_pipe_clk :: u32
  pe_tunnel_bcr :: u32
  pe_devices :: "bridge_platform list"
  pe_register :: int

definition x1_bridge_probe :: "pcie_env \<Rightarrow> bridge_platform \<Rightarrow> pcie_state \<Rightarrow> int \<times> pcie_state" where
  "x1_bridge_probe e f s =
     (let ret = bridge_acquire (pe_pipe_clk e) (pe_tunnel_bcr e) (pe_board e) (registration_window s) (pe_hyp e)
            (pe_nhi_complete e) (bridge_owner s \<noteq> None) (registration_router s) f in
      if ret \<noteq> 0 then (ret, s)
      else (case run_state (bridge_d0 (pe_bridge e)) bridge_zero of
         (ret, b) \<Rightarrow> (ret, s\<lparr>bridge_owner := Some b\<rparr>)))"

text \<open>
  Registering the driver probes every matching device before it returns (the driver forces
  synchronous probing); \<open>pe_register\<close> is the result of the registration.
\<close>

definition x1_pcie_start :: "pcie_env \<Rightarrow> bool \<Rightarrow> pcie_state \<Rightarrow> int \<times> pcie_state" where
  "x1_pcie_start e router s =
     (if \<not> router \<or> \<not> pci0_allowed (pe_board e) (pe_hyp e) (pe_nhi_complete e) then (- EPERM, s)
      else if registered s then (- EALREADY, s)
      else
        let s = s\<lparr>registered := True, registration_router := router, registration_window := True\<rparr>;
            s = fold (\<lambda>f s. snd (x1_bridge_probe e f s)) (pe_devices e) s;
            s = s\<lparr>registration_window := False\<rparr> in
        if pe_register e \<noteq> 0 then (pe_register e, s)
        else (case bridge_owner s of
           None \<Rightarrow> (- ENODEV, s)
         | Some b \<Rightarrow> (if b_ready b then 0 else b_error b, s)))"

definition bridge_train :: "bridge_env \<Rightarrow> (x1_bridge, int) state" where
  "bridge_train env = do {
     setb (\<lambda>b. b\<lparr>b_train_attempted := True\<rparr>);
     ret \<leftarrow> on_io (run_ok [x1_pci0_train (bio env), x1_pci0_windows (bio env)]);
     setb (\<lambda>b. if ret \<noteq> 0 then b\<lparr>b_error := ret\<rparr> else b\<lparr>b_trained := True\<rparr>);
     State_Monad.return ret
   }"

definition x1_pcie_train :: "pcie_env \<Rightarrow> pcie_state \<Rightarrow> int \<times> pcie_state" where
  "x1_pcie_train e s =
     (case bridge_owner s of
        None \<Rightarrow> (- EPERM, s)
      | Some b \<Rightarrow>
          if \<not> b_ready b \<or> b_error b \<noteq> 0 \<or> b_train_attempted b \<or> b_downstream b then (- EPERM, s)
          else (case run_state (bridge_train (pe_bridge e)) b of (ret, b) \<Rightarrow> (ret, s\<lparr>bridge_owner := Some b\<rparr>)))"

record endpoint_scan =
  scan_endpoint :: "nat option"
  nvmes :: nat
  other :: nat

definition find_endpoint :: "pci_dev \<Rightarrow> endpoint_scan \<Rightarrow> endpoint_scan" where
  "find_endpoint d s =
     (if drop_bit 8 (dev_class d) = 0x0604 then s
      else if dev_class d \<noteq> 0x010802 \<or> has_driver d \<or> domain_nr d \<noteq> 0 then s\<lparr>other := other s + 1\<rparr>
      else s\<lparr>nvmes := nvmes s + 1,
             scan_endpoint := (case scan_endpoint s of None \<Rightarrow> Some (dev_id d) | Some x \<Rightarrow> Some x)\<rparr>)"

definition bridge_scan :: "bridge_env \<Rightarrow> (x1_bridge, int) state" where
  "bridge_scan env = do {
     setb (\<lambda>b. b\<lparr>b_downstream := True\<rparr>);
     host env Rescan;
     devs \<leftarrow> fixup_all env;
     endpoint \<leftarrow> getb b_endpoint;
     let scan = fold find_endpoint devs \<lparr>scan_endpoint = endpoint, nvmes = 0, other = 0\<rparr>;
     setb (\<lambda>b. b\<lparr>b_endpoint := scan_endpoint scan\<rparr>);
     if nvmes scan = 1 \<and> other scan = 0 then do {
       on_io (x1_pci0_msi_audit (bio env));
       setb (\<lambda>b. b\<lparr>b_endpoint_validated := True\<rparr>);
       State_Monad.return 0
     }
     else do {
       setb (\<lambda>b. b\<lparr>b_error := - ENODEV\<rparr>);
       State_Monad.return (- ENODEV)
     }
   }"

definition x1_pcie_scan :: "pcie_env \<Rightarrow> pcie_state \<Rightarrow> int \<times> pcie_state" where
  "x1_pcie_scan e s =
     (case bridge_owner s of
        None \<Rightarrow> (- EPERM, s)
      | Some b \<Rightarrow>
          if \<not> b_ready b \<or> \<not> b_trained b \<or> b_error b \<noteq> 0 \<or> b_downstream b then (- EPERM, s)
          else (case run_state (bridge_scan (pe_bridge e)) b of (ret, b) \<Rightarrow> (ret, s\<lparr>bridge_owner := Some b\<rparr>)))"

section \<open>The capability walk\<close>

abbreviation cap_index :: "u32 \<Rightarrow> nat" where
  "cap_index off \<equiv> unat off div 4 - 16"

lemma seen_bits: "bit (seen OR 2 ^ k :: u64) j \<longleftrightarrow> bit seen j \<or> (j = k \<and> k < 64)"
  by (auto simp: bit_simps)

lemma cap_index_less: "off \<le> 0xfc \<Longrightarrow> cap_index off < (64 :: nat)" for off :: u32
  by (simp add: word_le_nat_alt)

definition cap_slot :: "u32 \<Rightarrow> bool" where
  "cap_slot off \<longleftrightarrow> 0x40 \<le> off \<and> off \<le> 0xfc \<and> off AND 3 = 0"

text \<open>The reads of a program, oldest first.\<close>

definition root_reads :: "(u32 \<times> u32) list \<Rightarrow> bridge_event list" where
  "root_reads rs = rev (map (\<lambda>(off, v). PRead X1_ROOT off v) rs)"

definition walk_ok :: "u64 \<Rightarrow> nat \<Rightarrow> (u32 \<times> u32) list \<Rightarrow> bool" where
  "walk_ok seen n rs \<longleftrightarrow> length rs \<le> n \<and> distinct (map fst rs) \<and>
     (\<forall>off \<in> fst ` set rs. cap_slot off \<and> \<not> bit seen (cap_index off))"

definition walk_found :: "u32 \<Rightarrow> u32 \<Rightarrow> (u32 \<times> u32) list \<Rightarrow> bool" where
  "walk_found pcie c rs \<longleftrightarrow>
     (let es = filter (\<lambda>(off, v). v AND 0xff = 0x10) rs in
      (es = [] \<and> c = pcie) \<or> (pcie = 0 \<and> (\<exists>v. es = [(c, v)] \<and> drop_bit 16 v AND 0xf0 = 0x40)))"

lemma root_caps_run:
  "run_state (root_caps io n ptr seen pcie) h = (r, h') \<Longrightarrow>
   \<exists>rs. h' = root_reads rs @ h \<and> walk_ok seen n rs \<and> (\<forall>p c. r = Inr (p, c) \<longrightarrow> walk_found pcie c rs) \<and>
     (\<forall>e. r = Inl e \<longrightarrow> e < 0)"
proof (induction n arbitrary: ptr seen pcie h)
  case 0
  then show ?case by (auto simp: walk_ok_def walk_found_def root_reads_def intro!: exI [of _ "[]"])
next
  case (Suc n)
  let ?v = "io_read io h X1_ROOT ptr"
  let ?seen = "seen OR push_bit (cap_index ptr) 1"
  show ?case
  proof (cases "ptr = 0 \<or> cap_bad ptr seen")
    case True
    with Suc.prems show ?thesis
      by (auto simp: walk_ok_def walk_found_def root_reads_def split: if_splits intro!: exI [of _ "[]"])
  next
    case False
    then have slot: "cap_slot ptr" "\<not> bit seen (cap_index ptr)"
      by (auto simp: cap_bad_def cap_slot_def)
    then have idx: "cap_index ptr < 64" by (auto simp: cap_slot_def intro: cap_index_less)
    show ?thesis
    proof (cases "?v AND 0xff = 0 \<or> ?v AND 0xff = 0xff \<or> (?v AND 0xff = 0x10 \<and> exp_cap_bad (drop_bit 16 ?v) ptr pcie)")
      case True
      with Suc.prems False slot show ?thesis
        by (auto simp: walk_ok_def root_reads_def Let_def split: if_splits intro!: exI [of _ "[(ptr, ?v)]"])
    next
      case ok: False
      define pcie' where "pcie' = (if ?v AND 0xff = 0x10 then ptr else pcie)"
      from ok False Suc.prems have "run_state (root_caps io n (drop_bit 8 ?v AND 0xff) ?seen pcie')
          (PRead X1_ROOT ptr ?v # h) = (r, h')"
        by (auto simp: Let_def pcie'_def split: if_splits)
      from Suc.IH [OF this] obtain rs where rs: "h' = root_reads rs @ PRead X1_ROOT ptr ?v # h" "walk_ok ?seen n rs"
        "\<forall>p c. r = Inr (p, c) \<longrightarrow> walk_found pcie' c rs" "\<forall>e. r = Inl e \<longrightarrow> e < 0" by blast
      have "walk_ok seen (Suc n) ((ptr, ?v) # rs)"
        using rs(2) slot idx by (auto simp: walk_ok_def seen_bits)
      moreover have "walk_found pcie c ((ptr, ?v) # rs)" if "walk_found pcie' c rs" for c
        using that ok slot by (auto simp: walk_found_def pcie'_def exp_cap_bad_def cap_slot_def Let_def split: if_splits)
      ultimately show ?thesis
        using rs by (intro exI [of _ "(ptr, ?v) # rs"]) (auto simp: root_reads_def)
    qed
  qed
qed

lemma read_all_run:
  "run_state (read_all io regs) h = (vs, h') \<Longrightarrow>
   length vs = length regs \<and> h' = rev (map (\<lambda>((r, off), v). PRead r off v) (zip regs vs)) @ h"
proof (induction regs arbitrary: vs h h')
  case (Cons x xs)
  obtain r off where x: "x = (r, off)" by (cases x)
  let ?v = "io_read io h r off"
  obtain us h1 where u: "run_state (read_all io xs) (PRead r off ?v # h) = (us, h1)" by (metis surj_pair)
  with Cons.prems x have "vs = ?v # us" "h' = h1" by auto
  with Cons.IH [OF u] x show ?case by simp
qed simp

section \<open>What the probe keeps\<close>

lemma run_on_io [simp]:
  "run_state (on_io m) b = (case run_state m (b_log b) of (a, h) \<Rightarrow> (a, b\<lparr>b_log := h\<rparr>))"
  by (simp add: on_io_def)

lemma run_setb [simp]: "run_state (setb f) b = ((), f b)"
  by (simp add: setb_def)

lemma run_getb [simp]: "run_state (getb f) b = (f b, b)"
  by (simp add: getb_def)

lemma run_host [simp]:
  "run_state (host env c) b = (bcall env (b_log b) c, b\<lparr>b_log := PHost c # b_log b\<rparr>)"
  by (simp add: host_def)

definition class_known :: "x1_bridge \<Rightarrow> bool" where
  "class_known b \<longleftrightarrow> (b_root_validated b \<longrightarrow> drop_bit 8 (b_root_class b) = 0x060400 \<or> b_root_class b = 0xff000001) \<and>
     (b_root_fixup_done b \<longrightarrow> b_root_validated b \<and> b_powered b)"

text \<open>A bridge on its way through the probe.\<close>

definition fresh :: "x1_bridge \<Rightarrow> bool" where
  "fresh b \<longleftrightarrow> class_known b \<and> \<not> b_ready b \<and> \<not> b_trained b \<and> \<not> b_train_attempted b \<and> \<not> b_downstream b \<and>
     b_endpoint b = None \<and> \<not> b_endpoint_validated b \<and> b_error b = 0"

text \<open>A fix-up changes nothing but the mark that it was done.\<close>

definition fixed :: "x1_bridge \<Rightarrow> x1_bridge \<Rightarrow> bool" where
  "fixed b b' \<longleftrightarrow> (\<exists>x. b' = b\<lparr>b_root_fixup_done := x\<rparr> \<and>
     (b_root_fixup_done b \<longrightarrow> x) \<and> (x \<longrightarrow> b_root_fixup_done b \<or> (b_root_validated b \<and> b_powered b)))"

lemma fixed_refl: "fixed b b"
  unfolding fixed_def by (rule exI [of _ "b_root_fixup_done b"]) simp

lemma fixed_trans: "fixed b c \<Longrightarrow> fixed c d \<Longrightarrow> fixed b d"
  unfolding fixed_def
proof (elim exE conjE)
  fix x y
  assume "c = b\<lparr>b_root_fixup_done := x\<rparr>" "d = c\<lparr>b_root_fixup_done := y\<rparr>"
    "b_root_fixup_done b \<longrightarrow> x" "x \<longrightarrow> b_root_fixup_done b \<or> (b_root_validated b \<and> b_powered b)"
    "b_root_fixup_done c \<longrightarrow> y" "y \<longrightarrow> b_root_fixup_done c \<or> (b_root_validated c \<and> b_powered c)"
  then show "\<exists>x. d = b\<lparr>b_root_fixup_done := x\<rparr> \<and> (b_root_fixup_done b \<longrightarrow> x) \<and>
      (x \<longrightarrow> b_root_fixup_done b \<or> (b_root_validated b \<and> b_powered b))"
    by (intro exI [of _ y]) (simp, blast)
qed

lemma fixup_cases:
  assumes "class_known b"
  shows "fixed b (fst (x1_root_fixup_class b d))"
proof (cases "fixup_applies b d")
  case True
  then have "b_root_validated b" "b_powered b" "dev_class d = drop_bit 8 (b_root_class b)"
    by (simp_all add: fixup_applies_def)
  with assms True show ?thesis
    unfolding fixed_def
    by (intro exI [of _ True]; cases "b_root_class b = 0xff000001") (simp_all add: x1_root_fixup_class_def class_known_def)
qed (simp add: x1_root_fixup_class_def fixed_refl)

lemma fixed_class: "fixed b b' \<Longrightarrow> class_known b \<Longrightarrow> class_known b'"
  by (auto simp: fixed_def class_known_def)

lemma fixup_devs_fixed: "class_known b \<Longrightarrow> fixed b (snd (fixup_devs ds b))"
proof (induction ds arbitrary: b)
  case (Cons d ds)
  obtain b1 d1 where b1: "x1_root_fixup_class b d = (b1, d1)" by (metis surj_pair)
  with fixup_cases [OF Cons.prems, of d] have c: "fixed b b1" by simp
  from Cons.IH [OF fixed_class [OF c Cons.prems]] have "fixed b (snd (fixup_devs ds b1))" by (rule fixed_trans [OF c])
  then show ?case by (cases "fixup_devs ds b1") (simp add: b1)
qed (simp add: fixed_refl)

abbreviation fresh_kept :: "(x1_bridge, 'a) state \<Rightarrow> bool" where
  "fresh_kept m \<equiv> triple fresh m (\<lambda>_. fresh)"

lemma fresh_simps [simp]:
  "fresh (b\<lparr>b_log := h\<rparr>) = fresh b" "fresh (b\<lparr>b_enabled := n\<rparr>) = fresh b" "fresh (b\<lparr>b_attempted := x\<rparr>) = fresh b"
  "fresh b \<Longrightarrow> fresh (b\<lparr>b_powered := True\<rparr>)"
  by (auto simp: fresh_def class_known_def)

lemma fresh_on_io: "fresh_kept (on_io m)"
  by (rule tripleI) (auto split: prod.splits)

lemma fresh_host: "fresh_kept (host env c)"
  by (rule tripleI) auto

lemma fresh_clocks: "fresh_kept (enable_bridge_clocks env is)"
proof (induction "is")
  case Nil
  show ?case by (simp add: triple_return)
next
  case (Cons i "is")
  have "fresh_kept (setb (\<lambda>b. b\<lparr>b_enabled := b_enabled b + 1\<rparr>))" by (rule tripleI) auto
  from triple_bind [OF this Cons] show ?case
    unfolding enable_bridge_clocks.simps by (intro triple_check_any [OF fresh_host]) auto
qed

lemma fresh_run_ok: "list_all fresh_kept ms \<Longrightarrow> fresh_kept (run_ok ms)"
  using triple_run_ok [of ms fresh "\<lambda>_. fresh"] by (simp add: list_all_iff)

lemma fresh_power: "fresh_kept (bridge_power env)"
proof -
  have on: "fresh_kept (do { setb (\<lambda>b. b\<lparr>b_powered := True\<rparr>); State_Monad.return (0 :: int) })"
    by (rule tripleI) auto
  have "fresh_kept (run_ok [enable_bridge_clocks env [0..<8], host env Icc_mem, host env Icc_cfg])"
    by (rule fresh_run_ok) (simp only: list.pred_inject simp_thms fresh_clocks fresh_host)
  from triple_check_any [OF this _ on] show ?thesis
    unfolding bridge_power_def
    by (intro triple_bind [OF fresh_host] triple_if triple_return) auto
qed

lemma root_identity_class:
  assumes "run_state (root_identity io) h = (Inr c, h')"
  shows "drop_bit 8 c = 0x060400 \<or> c = 0xff000001"
proof -
  obtain vs h1 where vs: "run_state (read_all io header_regs) h = (vs, h1)" by (metis surj_pair)
  obtain r h2 where r: "run_state (root_caps io 48 (vs ! 13 AND 0xff) 0 0) h1 = (r, h2)" by (metis surj_pair)
  from assms vs have ok: "port_header_ok vs"
    by (cases "port_header_ok vs") (simp_all add: root_identity_def)
  with assms vs r have "c = vs ! 2"
    by (cases r) (simp_all add: root_identity_def split: prod.splits if_splits)
  with ok show ?thesis by (simp add: port_header_ok_def)
qed

lemma fresh_validate: "fresh_kept (x1_root_validate env)"
proof (rule tripleI)
  fix b ret b'
  assume f: "fresh b" and run: "run_state (x1_root_validate env) b = (ret, b')"
  obtain r h where r: "run_state (root_identity (bio env)) (b_log b) = (r, h)" by (metis surj_pair)
  show "fresh b'"
  proof (cases r)
    case (Inl e)
    with f run r show ?thesis by (auto simp: x1_root_validate_def)
  next
    case (Inr c)
    with root_identity_class r have "drop_bit 8 c = 0x060400 \<or> c = 0xff000001" by blast
    with Inr f run r show ?thesis by (auto simp: x1_root_validate_def fresh_def class_known_def)
  qed
qed

lemma fresh_fixup: "fresh_kept (fixup_all env)"
proof (rule tripleI)
  fix b ds b'
  assume "fresh b" "run_state (fixup_all env) b = (ds, b')"
  moreover from this have "fixed b b'"
    using fixup_devs_fixed [of b "found env (b_log b)"] by (simp add: fixup_all_def fresh_def)
  ultimately show "fresh b'" by (auto simp: fixed_def fresh_def class_known_def)
qed

definition brought_up :: "x1_bridge \<Rightarrow> bool" where
  "brought_up b \<longleftrightarrow> fresh (b\<lparr>b_ready := False\<rparr>) \<and> b_ready b \<and> b_root_fixup_done b"

lemma bring_up_triple: "triple fresh (bridge_bring_up env) (\<lambda>ret b. if ret = 0 then brought_up b else fresh b)"
proof -
  have alloc: "fresh_kept (do { ret \<leftarrow> host env Alloc_bridge; State_Monad.return (if ret \<noteq> 0 then - ENOMEM else 0) })"
    by (rule triple_bind [OF fresh_host]) (simp add: triple_return)
  have probe: "fresh_kept (do { ret \<leftarrow> host env Host_probe; fixup_all env; State_Monad.return ret })"
    by (rule triple_bind [OF fresh_host triple_bind [OF fresh_fixup]]) (simp add: triple_return)
  have steps: "fresh_kept (run_ok [
       do { ret \<leftarrow> host env Alloc_bridge; State_Monad.return (if ret \<noteq> 0 then - ENOMEM else 0) },
       host env Ecam_create, on_io (x1_pci0_mode (bio env)), x1_root_validate env,
       on_io (x1_pci0_setup (bio env)), x1_root_validate env,
       do { ret \<leftarrow> host env Host_probe; fixup_all env; State_Monad.return ret }])"
    by (rule fresh_run_ok) (simp only: list.pred_inject simp_thms alloc probe fresh_host fresh_on_io fresh_validate)
  have final: "triple fresh (do { ok \<leftarrow> getb b_root_fixup_done;
       if \<not> ok then State_Monad.return (- ENODEV)
       else do { setb (\<lambda>b. b\<lparr>b_ready := True\<rparr>); State_Monad.return 0 } })
     (\<lambda>ret b. if ret = 0 then brought_up b else fresh b)"
  proof (rule tripleI)
    fix b ret b'
    assume "fresh b" "run_state (do { ok \<leftarrow> getb b_root_fixup_done;
       if \<not> ok then State_Monad.return (- ENODEV)
       else do { setb (\<lambda>b. b\<lparr>b_ready := True\<rparr>); State_Monad.return 0 } }) b = (ret, b')"
    then show "if ret = 0 then brought_up b' else fresh b'"
      by (cases "b_root_fixup_done b") (auto simp: brought_up_def fresh_def class_known_def)
  qed
  show ?thesis
    unfolding bridge_bring_up_def by (rule triple_check_any [OF steps], simp, rule final)
qed

section \<open>Reachable states\<close>

definition bridge_inv :: "x1_bridge \<Rightarrow> bool" where
  "bridge_inv b \<longleftrightarrow> class_known b \<and>
     (b_ready b \<longrightarrow> b_powered b \<and> b_root_validated b \<and> b_root_fixup_done b) \<and>
     (\<not> b_ready b \<longrightarrow> b_error b \<noteq> 0) \<and>
     (b_train_attempted b \<longrightarrow> b_ready b \<and> (b_trained b \<or> b_error b \<noteq> 0)) \<and>
     (b_trained b \<longrightarrow> b_train_attempted b) \<and>
     (b_downstream b \<longrightarrow> b_trained b \<and> (b_endpoint_validated b \<or> b_error b \<noteq> 0)) \<and>
     (b_endpoint_validated b \<longrightarrow> b_downstream b \<and> b_error b = 0 \<and> b_endpoint b \<noteq> None) \<and>
     (b_endpoint b \<noteq> None \<longrightarrow> b_downstream b)"

lemma d0_inv:
  assumes run: "run_state (bridge_d0 env) bridge_zero = (ret, b)"
  shows "bridge_inv b" "\<not> b_train_attempted b" "b_ready b \<longrightarrow> b_error b = 0" "ret = 0"
proof -
  let ?z = "bridge_zero\<lparr>b_attempted := True\<rparr>"
  have z: "fresh ?z" by (simp add: bridge_zero_def fresh_def class_known_def)
  have "triple fresh (run_ok [bridge_power env, bridge_bring_up env]) (\<lambda>ret b. if ret = 0 then brought_up b else fresh b)"
    unfolding run_ok.simps(2) [of "bridge_power env"] run_ok_single
    by (rule triple_check_any [OF fresh_power], simp, rule bring_up_triple)
  moreover obtain r b1 where r: "run_state (run_ok [bridge_power env, bridge_bring_up env]) ?z = (r, b1)" by (metis surj_pair)
  ultimately have b1: "if r = 0 then brought_up b1 else fresh b1" using z by (blast dest: tripleD)
  from run r have "ret = 0 \<and> b = (if r = 0 then b1 else b1\<lparr>b_error := r\<rparr>)"
    by (cases "r = 0") (simp_all add: bridge_d0_def del: run_ok.simps)
  with b1 show "bridge_inv b" "\<not> b_train_attempted b" "b_ready b \<longrightarrow> b_error b = 0" "ret = 0"
    by (auto simp: brought_up_def fresh_def bridge_inv_def class_known_def split: if_splits)
qed

lemma train_cases:
  assumes "run_state (bridge_train env) b = (ret, b')"
  obtains h where "b' = (if ret = 0 then b\<lparr>b_train_attempted := True, b_log := h, b_trained := True\<rparr>
    else b\<lparr>b_train_attempted := True, b_log := h, b_error := ret\<rparr>)"
proof -
  obtain r h where "run_state (run_ok [x1_pci0_train (bio env), x1_pci0_windows (bio env)]) (b_log b) = (r, h)"
    by (metis surj_pair)
  with assms have "ret = r" "b' = (if ret = 0 then b\<lparr>b_train_attempted := True, b_log := h, b_trained := True\<rparr>
      else b\<lparr>b_train_attempted := True, b_log := h, b_error := ret\<rparr>)"
    by (cases "r = 0"; simp add: bridge_train_def del: run_ok.simps)+
  then show thesis by (intro that)
qed

text \<open>The scan accepts exactly one NVMe device among bridges.\<close>

definition is_bridge :: "pci_dev \<Rightarrow> bool" where
  "is_bridge d \<longleftrightarrow> drop_bit 8 (dev_class d) = 0x0604"

definition is_candidate :: "pci_dev \<Rightarrow> bool" where
  "is_candidate d \<longleftrightarrow> \<not> is_bridge d \<and> dev_class d = 0x010802 \<and> \<not> has_driver d \<and> domain_nr d = 0"

lemma find_endpoint_eq:
  "find_endpoint d s = (if is_bridge d then s
     else if is_candidate d then s\<lparr>nvmes := nvmes s + 1,
       scan_endpoint := (case scan_endpoint s of None \<Rightarrow> Some (dev_id d) | Some x \<Rightarrow> Some x)\<rparr>
     else s\<lparr>other := other s + 1\<rparr>)"
  by (simp add: find_endpoint_def is_bridge_def is_candidate_def)

lemma candidate_no_bridge: "is_candidate d \<Longrightarrow> \<not> is_bridge d"
  by (simp add: is_candidate_def)

lemma find_fold:
  "fold find_endpoint ds s = \<lparr>scan_endpoint = (case scan_endpoint s of Some x \<Rightarrow> Some x
       | None \<Rightarrow> (case filter is_candidate ds of [] \<Rightarrow> None | d # _ \<Rightarrow> Some (dev_id d))),
     nvmes = nvmes s + length (filter is_candidate ds),
     other = other s + length (filter (\<lambda>d. \<not> is_bridge d \<and> \<not> is_candidate d) ds)\<rparr>"
proof (induction ds arbitrary: s)
  case (Cons d ds)
  show ?case
    by (cases "is_bridge d"; cases "is_candidate d")
      (auto simp: Cons find_endpoint_eq [of d] candidate_no_bridge split: option.splits)
qed (simp split: option.splits)

lemma scan_cases:
  assumes run: "run_state (bridge_scan env) b = (ret, b')" and k: "class_known b" and e: "b_endpoint b = None"
  obtains (accepted) b1 h ds d where "fixed (b\<lparr>b_downstream := True, b_log := PHost Rescan # b_log b\<rparr>) b1"
      "ds = fst (fixup_devs (found env (PHost Rescan # b_log b)) (b\<lparr>b_downstream := True, b_log := PHost Rescan # b_log b\<rparr>))"
      "filter (\<lambda>d. \<not> is_bridge d) ds = [d]" "is_candidate d" "ret = 0"
      "b' = b1\<lparr>b_endpoint := Some (dev_id d), b_log := h, b_endpoint_validated := True\<rparr>"
  | (refused) b1 ep where "fixed (b\<lparr>b_downstream := True, b_log := PHost Rescan # b_log b\<rparr>) b1" "ret = - ENODEV"
      "b' = b1\<lparr>b_endpoint := ep, b_error := - ENODEV\<rparr>"
proof -
  let ?b = "b\<lparr>b_downstream := True, b_log := PHost Rescan # b_log b\<rparr>"
  obtain ds b1 where f: "fixup_devs (found env (PHost Rescan # b_log b)) ?b = (ds, b1)" by (metis surj_pair)
  have "class_known ?b" using k by (simp add: class_known_def)
  from fixup_devs_fixed [OF this, of "found env (PHost Rescan # b_log b)"] f have fixed: "fixed ?b b1" by simp
  then have ep: "b_endpoint b1 = None" using e by (auto simp: fixed_def)
  let ?scan = "fold find_endpoint ds \<lparr>scan_endpoint = None, nvmes = 0, other = 0\<rparr>"
  show thesis
  proof (cases "nvmes ?scan = 1 \<and> other ?scan = 0")
    case True
    then have n: "length (filter is_candidate ds) = 1" "filter (\<lambda>d. \<not> is_bridge d \<and> \<not> is_candidate d) ds = []"
      by (simp_all add: find_fold)
    then obtain d where d: "filter is_candidate ds = [d]" by (auto simp: length_Suc_conv)
    have "filter (\<lambda>d. \<not> is_bridge d) ds = filter is_candidate ds"
      using n(2) by (intro filter_cong) (auto simp: filter_empty_conv is_candidate_def)
    moreover from d have "d \<in> set (filter is_candidate ds)" by simp
    then have "is_candidate d" by simp
    moreover obtain vs h where "run_state (x1_pci0_msi_audit (bio env)) (b_log b1) = (vs, h)" by (metis surj_pair)
    ultimately show thesis
      using True run f ep d fixed
      by (intro accepted [of b1 ds d h]) (simp_all add: bridge_scan_def fixup_all_def find_fold)
  next
    case False
    with run f ep fixed show thesis
      by (intro refused [of b1 "scan_endpoint ?scan"]) (auto simp: bridge_scan_def fixup_all_def)
  qed
qed

text \<open>The driver's life: any sequence of its three calls, in any environment each time.\<close>

definition pcie_init :: pcie_state where
  "pcie_init = \<lparr>bridge_owner = None, registered = False, registration_window = False, registration_router = False\<rparr>"

datatype pcie_call = Start pcie_env bool | Train pcie_env | Scan pcie_env

fun pcie_do :: "pcie_call \<Rightarrow> pcie_state \<Rightarrow> int \<times> pcie_state" where
  "pcie_do (Start e router) s = x1_pcie_start e router s"
| "pcie_do (Train e) s = x1_pcie_train e s"
| "pcie_do (Scan e) s = x1_pcie_scan e s"

inductive pcie_reach :: "pcie_state \<Rightarrow> bool" where
  init: "pcie_reach pcie_init"
| call: "pcie_reach s \<Longrightarrow> pcie_reach (snd (pcie_do c s))"

definition pcie_inv :: "pcie_state \<Rightarrow> bool" where
  "pcie_inv s \<longleftrightarrow> \<not> registration_window s \<and>
     (case bridge_owner s of None \<Rightarrow> True | Some b \<Rightarrow> registered s \<and> bridge_inv b)"

lemma probe_cases:
  assumes "bridge_owner s = None"
  obtains "snd (x1_bridge_probe e f s) = s"
  | b where "snd (x1_bridge_probe e f s) = s\<lparr>bridge_owner := Some b\<rparr>" "bridge_inv b" "\<not> b_train_attempted b"
      "b_ready b \<longrightarrow> b_error b = 0"
proof -
  obtain ret b where d: "run_state (bridge_d0 (pe_bridge e)) bridge_zero = (ret, b)" by (metis surj_pair)
  show thesis
  proof (cases "snd (x1_bridge_probe e f s) = s")
    case False
    with d have "snd (x1_bridge_probe e f s) = s\<lparr>bridge_owner := Some b\<rparr>"
      by (auto simp: x1_bridge_probe_def Let_def split: if_splits)
    with d0_inv [OF d] show thesis by (intro that(2))
  qed (rule that(1))
qed

text \<open>With an owner there is no second one.\<close>

lemma probe_owned: "bridge_owner s \<noteq> None \<Longrightarrow> snd (x1_bridge_probe e f s) = s"
  by (simp add: x1_bridge_probe_def bridge_acquire_def Let_def)

lemma probes_cases:
  assumes "bridge_owner s = None"
  obtains "fold (\<lambda>f s. snd (x1_bridge_probe e f s)) fs s = s"
  | b where "fold (\<lambda>f s. snd (x1_bridge_probe e f s)) fs s = s\<lparr>bridge_owner := Some b\<rparr>" "bridge_inv b"
      "\<not> b_train_attempted b" "b_ready b \<longrightarrow> b_error b = 0"
  using assms
proof (induction fs arbitrary: thesis)
  case (Cons f fs)
  from Cons.prems(3) show ?case
  proof (cases rule: probe_cases [where e = e and f = f])
    case 1
    show ?thesis by (rule Cons.IH) (use 1 Cons.prems in simp_all)
  next
    case (2 b)
    have "fold (\<lambda>f s. snd (x1_bridge_probe e f s)) fs s' = s'" if "bridge_owner s' \<noteq> None" for s'
      using that by (induction fs) (simp_all add: probe_owned)
    with 2 show ?thesis by (intro Cons.prems(2)) simp_all
  qed
qed simp

lemma start_cases:
  assumes "pcie_inv s"
  obtains (refused) "x1_pcie_start e router s = (- EPERM, s) \<or> (registered s \<and> x1_pcie_start e router s = (- EALREADY, s))"
  | (none) "bridge_owner s = None" "fst (x1_pcie_start e router s) \<noteq> 0"
      "snd (x1_pcie_start e router s) = s\<lparr>registered := True, registration_router := router, registration_window := False\<rparr>"
  | (owned) b where "bridge_owner s = None"
      "fst (x1_pcie_start e router s) = (if pe_register e \<noteq> 0 then pe_register e else if b_ready b then 0 else b_error b)"
      "snd (x1_pcie_start e router s) = s\<lparr>registered := True, registration_router := router,
         registration_window := False, bridge_owner := Some b\<rparr>" "bridge_inv b" "\<not> b_train_attempted b"
      "b_ready b \<longrightarrow> b_error b = 0"
proof (cases "\<not> router \<or> \<not> pci0_allowed (pe_board e) (pe_hyp e) (pe_nhi_complete e) \<or> registered s")
  case True
  then show thesis by (intro refused) (auto simp: x1_pcie_start_def)
next
  case False
  with assms have none': "bridge_owner s = None" by (auto simp: pcie_inv_def split: option.splits)
  let ?s = "s\<lparr>registered := True, registration_router := router, registration_window := True\<rparr>"
  have "bridge_owner ?s = None" using none' by simp
  then show thesis
  proof (cases rule: probes_cases [where e = e and fs = "pe_devices e"])
    case 1
    with False none' show thesis by (intro none) (simp_all add: x1_pcie_start_def Let_def)
  next
    case (2 b)
    with False none' show thesis by (intro owned [of b]) (simp_all add: x1_pcie_start_def Let_def)
  qed
qed

lemma train_inv:
  assumes "bridge_inv b" and "b_ready b" "b_error b = 0" "\<not> b_train_attempted b"
    and "run_state (bridge_train env) b = (ret, b')"
  shows "bridge_inv b'"
  using assms(5)
proof (cases rule: train_cases)
  case (1 h)
  have "bridge_inv (b\<lparr>b_train_attempted := True, b_log := h, b_trained := True\<rparr>)"
    by (simp (no_asm) add: bridge_inv_def class_known_def)
      (use assms(1-4) in \<open>unfold bridge_inv_def class_known_def, blast\<close>)
  moreover have "bridge_inv (b\<lparr>b_train_attempted := True, b_log := h, b_error := ret\<rparr>)" if "ret \<noteq> 0"
    by (simp (no_asm) add: bridge_inv_def class_known_def)
      (use assms(1-4) that in \<open>unfold bridge_inv_def class_known_def, blast\<close>)
  ultimately show ?thesis using 1 by (cases "ret = 0") (simp_all only: if_True if_False simp_thms)
qed

lemma scan_inv:
  assumes b: "bridge_inv b" "b_ready b" "b_trained b" "b_error b = 0" "\<not> b_downstream b"
    and run: "run_state (bridge_scan env) b = (ret, b')"
  shows "bridge_inv b'"
proof -
  from b have k: "class_known b" and ep: "b_endpoint b = None" by (auto simp: bridge_inv_def)
  from run k ep show ?thesis
  proof (cases rule: scan_cases)
    case (accepted b1 h ds d)
    from accepted(1) obtain x where b1: "b1 = b\<lparr>b_downstream := True, b_log := PHost Rescan # b_log b, b_root_fixup_done := x\<rparr>"
      "b_root_fixup_done b \<longrightarrow> x" "x \<longrightarrow> b_root_fixup_done b \<or> (b_root_validated b \<and> b_powered b)"
      unfolding fixed_def by auto
    show ?thesis
      unfolding accepted(6) b1(1) by (simp (no_asm) add: bridge_inv_def class_known_def)
        (use b b1(2,3) in \<open>unfold bridge_inv_def class_known_def, blast\<close>)
  next
    case (refused b1 ep)
    from refused(1) obtain x where b1: "b1 = b\<lparr>b_downstream := True, b_log := PHost Rescan # b_log b, b_root_fixup_done := x\<rparr>"
      "b_root_fixup_done b \<longrightarrow> x" "x \<longrightarrow> b_root_fixup_done b \<or> (b_root_validated b \<and> b_powered b)"
      unfolding fixed_def by auto
    show ?thesis
      unfolding refused(3) b1(1) by (simp (no_asm) add: bridge_inv_def class_known_def)
        (use b b1(2,3) in \<open>unfold bridge_inv_def class_known_def, blast\<close>)
  qed
qed

text \<open>A call that is not refused, and what it does to the bridge.\<close>

definition may_train :: "pcie_state \<Rightarrow> bool" where
  "may_train s \<longleftrightarrow> (case bridge_owner s of None \<Rightarrow> False
     | Some b \<Rightarrow> b_ready b \<and> b_error b = 0 \<and> \<not> b_train_attempted b \<and> \<not> b_downstream b)"

lemma train_call_cases:
  obtains (refused) "x1_pcie_train e s = (- EPERM, s)" "\<not> may_train s"
  | (ran) b ret b' where "bridge_owner s = Some b" "b_ready b" "b_error b = 0" "\<not> b_train_attempted b" "\<not> b_downstream b"
      "run_state (bridge_train (pe_bridge e)) b = (ret, b')" "x1_pcie_train e s = (ret, s\<lparr>bridge_owner := Some b'\<rparr>)"
proof (cases "bridge_owner s")
  case None
  then show thesis by (intro refused) (simp_all add: x1_pcie_train_def may_train_def)
next
  case (Some b)
  obtain ret b' where r: "run_state (bridge_train (pe_bridge e)) b = (ret, b')" by (metis surj_pair)
  show thesis
  proof (cases "\<not> b_ready b \<or> b_error b \<noteq> 0 \<or> b_train_attempted b \<or> b_downstream b")
    case True
    with Some show thesis by (intro refused) (simp_all add: x1_pcie_train_def may_train_def)
  next
    case False
    with Some r show thesis by (intro ran [of b ret b']) (simp_all add: x1_pcie_train_def)
  qed
qed

lemma scan_call_cases:
  obtains (refused) "x1_pcie_scan e s = (- EPERM, s)"
  | (ran) b ret b' where "bridge_owner s = Some b" "b_ready b" "b_trained b" "b_error b = 0" "\<not> b_downstream b"
      "run_state (bridge_scan (pe_bridge e)) b = (ret, b')" "x1_pcie_scan e s = (ret, s\<lparr>bridge_owner := Some b'\<rparr>)"
proof (cases "bridge_owner s")
  case None
  then show thesis by (intro refused) (simp add: x1_pcie_scan_def)
next
  case (Some b)
  obtain ret b' where r: "run_state (bridge_scan (pe_bridge e)) b = (ret, b')" by (metis surj_pair)
  show thesis
  proof (cases "\<not> b_ready b \<or> \<not> b_trained b \<or> b_error b \<noteq> 0 \<or> b_downstream b")
    case True
    with Some show thesis by (intro refused) (simp add: x1_pcie_scan_def)
  next
    case False
    with Some r show thesis by (intro ran [of b ret b']) (simp_all add: x1_pcie_scan_def)
  qed
qed

lemma pcie_do_inv:
  assumes inv: "pcie_inv s"
  shows "pcie_inv (snd (pcie_do c s))"
proof (cases c)
  case (Start e router)
  from inv show ?thesis
  proof (cases rule: start_cases [where e = e and router = router])
    case refused
    then have "snd (x1_pcie_start e router s) = s" by auto
    with inv Start show ?thesis by simp
  next
    case none
    with Start show ?thesis by (simp add: pcie_inv_def)
  next
    case (owned b)
    with Start show ?thesis by (simp add: pcie_inv_def)
  qed
next
  case (Train e)
  show ?thesis
  proof (cases rule: train_call_cases [of e s])
    case refused
    with inv Train show ?thesis by simp
  next
    case (ran b ret b')
    with inv have "bridge_inv b" by (simp add: pcie_inv_def)
    from train_inv [OF this ran(2-4,6)] inv Train ran(1,7) show ?thesis by (simp add: pcie_inv_def)
  qed
next
  case (Scan e)
  show ?thesis
  proof (cases rule: scan_call_cases [of e s])
    case refused
    with inv Scan show ?thesis by simp
  next
    case (ran b ret b')
    with inv have "bridge_inv b" by (simp add: pcie_inv_def)
    from scan_inv [OF this ran(2-6)] inv Scan ran(1,7) show ?thesis by (simp add: pcie_inv_def)
  qed
qed

lemma reach_inv: "pcie_reach s \<Longrightarrow> pcie_inv s"
  by (induction rule: pcie_reach.induct) (simp_all add: pcie_do_inv, simp add: pcie_init_def pcie_inv_def)

section \<open>The stages of the bridge\<close>

text \<open>
  What the connection manager may rely on: the bridge is off, up, linked through the tunnel, exposed
  to the storage driver, or dead.  \<open>stage_call\<close> is the contract of a call: its result, and the stage
  it leaves.
\<close>

datatype stage = Off | Up | Linked | Exposed | Dead

definition stage_of :: "pcie_state \<Rightarrow> stage" where
  "stage_of s = (case bridge_owner s of None \<Rightarrow> Off
     | Some b \<Rightarrow> if b_error b \<noteq> 0 then Dead else if b_endpoint_validated b then Exposed
                else if b_trained b then Linked else Up)"

definition stage_move :: "stage \<Rightarrow> stage \<Rightarrow> int \<Rightarrow> stage \<Rightarrow> stage \<Rightarrow> bool" where
  "stage_move from to ret st st' \<longleftrightarrow>
     (if ret = 0 then st = from \<and> st' = to else st' = st \<or> (st = from \<and> st' = Dead))"

fun stage_call :: "pcie_call \<Rightarrow> int \<Rightarrow> stage \<Rightarrow> stage \<Rightarrow> bool" where
  "stage_call (Start e router) ret st st' \<longleftrightarrow>
     stage_move Off Up ret st st' \<or> (pe_register e \<noteq> 0 \<and> ret = pe_register e \<and> st = Off \<and> st' = Up)"
| "stage_call (Train e) ret st st' \<longleftrightarrow> stage_move Up Linked ret st st'"
| "stage_call (Scan e) ret st st' \<longleftrightarrow> stage_move Linked Exposed ret st st'"

lemma start_stage:
  assumes "pcie_inv s"
  shows "stage_call (Start e router) (fst (x1_pcie_start e router s)) (stage_of s) (stage_of (snd (x1_pcie_start e router s)))"
  using assms
proof (cases rule: start_cases [where e = e and router = router])
  case refused
  then show ?thesis by (auto simp: stage_move_def)
next
  case none
  then show ?thesis by (simp add: stage_move_def stage_of_def)
next
  case (owned b)
  then have b: "\<not> b_trained b" "\<not> b_endpoint_validated b" "\<not> b_ready b \<longrightarrow> b_error b \<noteq> 0"
    unfolding bridge_inv_def by blast+
  have "stage_of s = Off" using owned(1) by (simp add: stage_of_def)
  moreover have "stage_of (snd (x1_pcie_start e router s)) = (if b_error b \<noteq> 0 then Dead else Up)"
    unfolding owned(3) using b by (simp add: stage_of_def)
  ultimately show ?thesis using owned(2,6) b(3) by (cases "b_ready b") (simp_all add: stage_move_def)
qed

lemma train_stage:
  assumes "pcie_inv s"
  shows "stage_call (Train e) (fst (x1_pcie_train e s)) (stage_of s) (stage_of (snd (x1_pcie_train e s)))"
proof (cases rule: train_call_cases [of e s])
  case refused
  then show ?thesis by (simp add: stage_move_def)
next
  case (ran b ret b')
  with assms have "bridge_inv b" by (simp add: pcie_inv_def)
  with ran(4,5) have b: "\<not> b_trained b" "\<not> b_endpoint_validated b" unfolding bridge_inv_def by blast+
  from ran(6) obtain h where "b' = (if ret = 0 then b\<lparr>b_train_attempted := True, b_log := h, b_trained := True\<rparr>
    else b\<lparr>b_train_attempted := True, b_log := h, b_error := ret\<rparr>)" by (rule train_cases)
  with ran(1,3,7) b show ?thesis by (cases "ret = 0") (simp_all add: stage_move_def stage_of_def)
qed

lemma scan_stage:
  assumes "pcie_inv s"
  shows "stage_call (Scan e) (fst (x1_pcie_scan e s)) (stage_of s) (stage_of (snd (x1_pcie_scan e s)))"
proof (cases rule: scan_call_cases [of e s])
  case refused
  then show ?thesis by (simp add: stage_move_def)
next
  case (ran b ret b')
  with assms have "bridge_inv b" by (simp add: pcie_inv_def)
  with ran(5) have b: "\<not> b_endpoint_validated b" "class_known b" "b_endpoint b = None" unfolding bridge_inv_def by blast+
  have before: "stage_of s = Linked" using ran(1-4) b by (simp add: stage_of_def)
  from ran(6) b(2,3) show ?thesis
  proof (cases rule: scan_cases)
    case (accepted b1 h ds d)
    then have "b_error b' = 0" "b_endpoint_validated b'" using ran(4) by (auto simp: fixed_def)
    with before accepted(5) ran(7) show ?thesis by (simp add: stage_move_def stage_of_def)
  next
    case (refused b1 ep)
    then have "b_error b' \<noteq> 0" by simp
    with before refused(2) ran(7) show ?thesis by (simp add: stage_move_def stage_of_def)
  qed
qed

text \<open>A dead bridge refuses every call.\<close>

lemma dead_refuses:
  assumes "pcie_inv s" and "stage_of s = Dead"
  shows "fst (pcie_do c s) < 0 \<and> snd (pcie_do c s) = s"
proof -
  from assms obtain b where b: "bridge_owner s = Some b" "b_error b \<noteq> 0" "registered s"
    by (auto simp: stage_of_def pcie_inv_def split: option.splits if_splits)
  show ?thesis
    by (cases c) (simp_all add: b x1_pcie_start_def x1_pcie_train_def x1_pcie_scan_def)
qed

text \<open>Training and scanning are one-shot, whatever comes of the first attempt.\<close>

interpretation train_once: one_shot "x1_pcie_train e" may_train for e
proof unfold_locales
  fix s
  show "fst (x1_pcie_train e s) < 0 \<and> snd (x1_pcie_train e s) = s" if "\<not> may_train s"
    using that by (auto simp: may_train_def x1_pcie_train_def split: option.splits)
  show "\<not> may_train (snd (x1_pcie_train e s))"
  proof (cases rule: train_call_cases [of e s])
    case refused
    then show ?thesis by simp
  next
    case (ran b ret b')
    from ran(6) obtain h where "b' = (if ret = 0 then b\<lparr>b_train_attempted := True, b_log := h, b_trained := True\<rparr>
      else b\<lparr>b_train_attempted := True, b_log := h, b_error := ret\<rparr>)" by (rule train_cases)
    with ran(7) show ?thesis by (cases "ret = 0") (simp_all add: may_train_def)
  qed
qed

section \<open>A controller that works\<close>

text \<open>
  It shows the expected power-on values, and what was just written to a register when that is read
  back; its header becomes one of a bridge once it has been reset.
\<close>

definition lab_read :: "bridge_event list \<Rightarrow> x1_pci0_region \<Rightarrow> u32 \<Rightarrow> u32" where
  "lab_read h r off =
     (let idle = (case r of
          X1_ROOT \<Rightarrow> if off = 0 then 0x011117cb else if off = 4 then 0x100000 else if off = 8 then 0xff000001
            else if off = 12 then (if length h < 20 then 0 else 0x10000)
            else if off = 0x34 then 0x40 else if off = 0x40 then 0x00420010 else if off = 0xf48 then 0x400
            else if off = 0x1004 \<or> off = 0x1204 then 0x90000000 else 0
        | X1_PARF \<Rightarrow> if off = 0x1b0 then 0x11 else 0
        | X1_ROUTER \<Rightarrow> 0) in
      case h of
        PWrite r' off' v # _ \<Rightarrow> if r' = r \<and> off' = off \<and> off \<noteq> 0xe008 then v else idle
      | _ \<Rightarrow> idle)"

definition lab_root :: pci_dev where
  "lab_root = \<lparr>dev_id = 1, on_root_bus = True, on_owned_cfg = True, domain_nr = 0, bus_number = 0, devfn = 0,
     vendor = 0x17cb, device = 0x0111, hdr_type = 1, multifunction = False, pcie_port_type = Some 4,
     dev_class = 0xff0000, revision = 1, has_driver = False\<rparr>"

definition lab_nvme :: pci_dev where
  "lab_nvme = lab_root\<lparr>dev_id := 2, on_root_bus := False, bus_number := 3, vendor := 0x1234, device := 1, hdr_type := 0,
     pcie_port_type := Some 0, dev_class := 0x010802\<rparr>"

definition lab_env :: pcie_env where
  "lab_env = \<lparr>pe_bridge = \<lparr>bio = \<lparr>io_read = lab_read, io_reset = \<lambda>_ _. 0\<rparr>, bcall = \<lambda>_ _. 0,
       found = \<lambda>h. case h of PHost Rescan # _ \<Rightarrow> [lab_root, lab_nvme] | _ \<Rightarrow> [lab_root]\<rparr>,
     pe_board = lab_board, pe_hyp = False, pe_nhi_complete = True, pe_pipe_clk = 7, pe_tunnel_bcr = 9,
     pe_devices = [\<lparr>bp_res0 = Some (0x400000000, 0x10000000), bp_domain = Some 0, bp_smmu_reserved = True,
       bp_alloc = True, bp_res1 = Some (0x1c28000, 0x8000), bp_pipe_first = True, bp_clock_count = 8,
       bp_clock0 = Inr (True, [7]), bp_reset0 = Inr (True, [9]), bp_reset_count = 1, bp_parf = None,
       bp_tunnel_reset = None, bp_clocks = [], bp_mem = Inr True, bp_cfg = Inr True\<rparr>],
     pe_register = 0\<rparr>"

section \<open>Properties\<close>

text \<open>
  C2. In every state the driver can reach by any sequence of its calls, with any answers of hardware and
  PCI core: configuration accesses beyond the root port are only mapped once the controller is
  powered, its root port identified and its link trained, and the storage driver is only allowed
  on the one endpoint recorded by a successful scan of a trained bridge without error.
\<close>

theorem bridge_reachable_safe:
  assumes "pcie_reach s"
  shows "(x1_ecam_map (bridge_owner s) False dfn reg = Some a \<longrightarrow>
       (\<exists>b. bridge_owner s = Some b \<and> b_powered b \<and> b_root_validated b \<and> b_ready b \<and> b_trained b)) \<and>
    (x1_native_nvme_allowed (bridge_owner s) d \<longrightarrow>
       (\<exists>b. bridge_owner s = Some b \<and> b_ready b \<and> b_trained b \<and> b_downstream b \<and> b_error b = 0 \<and>
          b_endpoint b = Some d))"
proof (cases "bridge_owner s")
  case None
  then show ?thesis by (simp add: x1_ecam_map_def x1_native_nvme_allowed_def)
next
  case (Some b)
  with reach_inv [OF assms] have "bridge_inv b" by (simp add: pcie_inv_def)
  with Some show ?thesis
    by (simp add: x1_ecam_map_def x1_native_nvme_allowed_def) (unfold bridge_inv_def, auto)
qed

text \<open>The same platform with a controller that cannot be powered.\<close>

definition dull_env :: pcie_env where
  "dull_env = lab_env\<lparr>pe_bridge := pe_bridge lab_env\<lparr>bcall := \<lambda>_ _. - EIO\<rparr>\<rparr>"

definition dull_state :: pcie_state where
  "dull_state = snd (pcie_do (Start dull_env True) pcie_init)"

lemma dull_reach: "pcie_reach dull_state"
  unfolding dull_state_def by (intro pcie_reach.intros)

lemma lab_allowed: "pci0_allowed lab_board False True"
  by (simp add: pci0_allowed_def x1_diag_board_allowed_def x1_diag_disabled_def lab_board_def)

lemma dull_owner: "bridge_owner dull_state = Some (bridge_zero\<lparr>b_attempted := True, b_log := [PHost Pm_resume], b_error := - EIO\<rparr>)"
proof -
  have "root_property lab_board p" for p by (simp add: lab_board_def)
  moreover have "run_state (bridge_d0 (pe_bridge dull_env)) bridge_zero =
      (0, bridge_zero\<lparr>b_attempted := True, b_log := [PHost Pm_resume], b_error := - EIO\<rparr>)"
    by (simp add: bridge_d0_def bridge_power_def dull_env_def bridge_zero_def)
  ultimately show ?thesis
    using lab_allowed
    by (simp add: dull_state_def x1_pcie_start_def x1_bridge_probe_def bridge_acquire_def x1_bridge_init_resources_def
        dull_env_def lab_env_def pcie_init_def first_error_def)
qed

lemma dull_dead: "stage_of dull_state = Dead"
  by (simp add: stage_of_def dull_owner)

theorem bridge_reachable_safe_witness:
  "pcie_reach dull_state \<and> stage_of dull_state = Dead \<and> x1_ecam_map (bridge_owner dull_state) False 0 0 = None"
proof -
  have "x1_ecam_map (bridge_owner dull_state) False 0 0 = None"
    by (simp add: x1_ecam_map_def dull_owner bridge_zero_def)
  with bridge_reachable_safe [OF dull_reach, of 0 0] show ?thesis by (simp add: dull_reach dull_dead)
qed

text \<open>
  C3. The calls refine the five stages: start brings the bridge up, train links it, scan exposes it,
  each only from the stage before and only with result 0; a call with any other result leaves the
  stage or kills the bridge (or, for start, only the registration failed after a successful probe).
  A dead bridge refuses every further call with an error and without any effect.
\<close>

theorem bridge_refines_stages:
  assumes "pcie_reach s"
  shows "stage_call c (fst (pcie_do c s)) (stage_of s) (stage_of (snd (pcie_do c s))) \<and>
    (stage_of s = Dead \<longrightarrow> fst (pcie_do c s) < 0 \<and> snd (pcie_do c s) = s)"
proof
  note inv = reach_inv [OF assms]
  show "stage_call c (fst (pcie_do c s)) (stage_of s) (stage_of (snd (pcie_do c s)))"
    by (cases c) (simp_all only: pcie_do.simps start_stage [OF inv] train_stage [OF inv] scan_stage [OF inv])
  show "stage_of s = Dead \<longrightarrow> fst (pcie_do c s) < 0 \<and> snd (pcie_do c s) = s"
    using dead_refuses [OF inv] by blast
qed

theorem bridge_refines_stages_witness:
  "fst (pcie_do (Train lab_env) dull_state) < 0 \<and> snd (pcie_do (Train lab_env) dull_state) = dull_state"
  using bridge_refines_stages [OF dull_reach, of "Train lab_env"] dull_dead by blast

text \<open>
  The identity check of the root port only reads: the 16 words of the header and then at most 48
  aligned capability slots, none of them twice.  It succeeds only for the expected device with a
  bridge header and exactly one PCI Express capability, that of a root port.
\<close>

lemma root_identity_exact:
  assumes run: "run_state (root_identity io) h = (r, h')"
  shows "\<exists>hs rs. length hs = 16 \<and> h' = root_reads rs @ rev (map (\<lambda>((r, off), v). PRead r off v) (zip header_regs hs)) @ h \<and>
    walk_ok 0 48 rs \<and>
    (\<forall>c. r = Inr c \<longrightarrow> port_header_ok hs \<and> c = hs ! 2 \<and>
       (\<exists>off v. filter (\<lambda>(off, v). v AND 0xff = 0x10) rs = [(off, v)] \<and> drop_bit 16 v AND 0xf0 = 0x40))"
proof -
  obtain hs h1 where hs: "run_state (read_all io header_regs) h = (hs, h1)" by (metis surj_pair)
  note reads = read_all_run [OF hs]
  have len: "length header_regs = 16" by (simp add: header_regs_def)
  show ?thesis
  proof (cases "port_header_ok hs")
    case False
    with run hs reads len show ?thesis
      by (intro exI [of _ hs] exI [of _ "[]"]) (auto simp: root_identity_def walk_ok_def root_reads_def)
  next
    case True
    obtain q h2 where q: "run_state (root_caps io 48 (hs ! 13 AND 0xff) 0 0) h1 = (q, h2)" by (metis surj_pair)
    from root_caps_run [OF q] obtain rs where rs: "h2 = root_reads rs @ h1" "walk_ok 0 48 rs"
      "\<forall>p c. q = Inr (p, c) \<longrightarrow> walk_found 0 c rs" by blast
    from run hs q True have r: "h' = h2"
      "r = (case q of Inl e \<Rightarrow> Inl e | Inr (ptr, pcie) \<Rightarrow> if ptr \<noteq> 0 \<or> pcie = 0 then Inl (- ENODEV) else Inr (hs ! 2))"
      by (simp_all add: root_identity_def)
    have "\<exists>off v. filter (\<lambda>(off, v). v AND 0xff = 0x10) rs = [(off, v)] \<and> drop_bit 16 v AND 0xf0 = 0x40"
      "c = hs ! 2" if "r = Inr c" for c
      using that r(2) rs(3) by (auto simp: walk_found_def Let_def split: sum.splits prod.splits if_splits)
    with True r(1) rs(1,2) reads len show ?thesis by (intro exI [of _ hs] exI [of _ rs]) auto
  qed
qed

text \<open>
  C40. A successful scan found, apart from bridges, exactly one device, an NVMe controller without a
  driver in the first domain, and from then on the storage driver is allowed on that device and no
  other.
\<close>

theorem scan_one_nvme:
  assumes inv: "pcie_inv s" and run: "x1_pcie_scan e s = (0, s')"
  shows "\<exists>b ds d. ds = fst (fixup_devs (found (pe_bridge e) (PHost Rescan # b_log b))
        (b\<lparr>b_downstream := True, b_log := PHost Rescan # b_log b\<rparr>)) \<and> bridge_owner s = Some b \<and>
     filter (\<lambda>d. drop_bit 8 (dev_class d) \<noteq> 0x0604) ds = [d] \<and>
     dev_class d = 0x010802 \<and> \<not> has_driver d \<and> domain_nr d = 0 \<and>
     (\<forall>x. x1_native_nvme_allowed (bridge_owner s') x \<longleftrightarrow> x = dev_id d)"
proof (cases rule: scan_call_cases [of e s])
  case refused
  with run show ?thesis by simp
next
  case (ran b ret b')
  with inv have "bridge_inv b" by (simp add: pcie_inv_def)
  with ran(5) have b: "class_known b" "b_endpoint b = None" unfolding bridge_inv_def by blast+
  from ran(7) run have r: "ret = 0" "s' = s\<lparr>bridge_owner := Some b'\<rparr>" by simp_all
  from ran(6) b show ?thesis
  proof (cases rule: scan_cases)
    case (accepted b1 h ds d)
    have "filter (\<lambda>d. drop_bit 8 (dev_class d) \<noteq> 0x0604) ds = [d]" using accepted(3) by (simp add: is_bridge_def)
    moreover have "x1_native_nvme_allowed (bridge_owner s') x \<longleftrightarrow> x = dev_id d" for x
      unfolding r(2) accepted(6) by (auto simp: x1_native_nvme_allowed_def)
    ultimately show ?thesis
      using accepted(2,4) ran(1) by (intro exI [of _ b] exI [of _ ds] exI [of _ d]) (auto simp: is_candidate_def)
  next
    case (refused b1 ep)
    with r show ?thesis by simp
  qed
qed

definition trained_state :: pcie_state where
  "trained_state = pcie_init\<lparr>registered := True, bridge_owner := Some (bridge_zero\<lparr>b_powered := True, b_ready := True,
     b_root_validated := True, b_root_fixup_done := True, b_root_class := 0xff000001, b_trained := True,
     b_train_attempted := True\<rparr>)\<rparr>"

theorem scan_one_nvme_witness:
  "\<exists>s'. x1_pcie_scan lab_env trained_state = (0, s') \<and> x1_native_nvme_allowed (bridge_owner s') 2"
proof -
  have inv: "pcie_inv trained_state"
    by (simp add: trained_state_def pcie_init_def pcie_inv_def bridge_inv_def bridge_zero_def class_known_def)
  obtain r s' where run: "x1_pcie_scan lab_env trained_state = (r, s')" by (metis surj_pair)
  have r: "fst (x1_pcie_scan lab_env trained_state) = 0" by code_simp
  have "x1_native_nvme_allowed (bridge_owner (snd (x1_pcie_scan lab_env trained_state))) 2" by code_simp
  with scan_one_nvme [OF inv] r run show ?thesis by auto
qed

end
