(* ===== verification/X1_Time.thy ===== *)
theory X1_Time
  imports X1_Prelude
begin

text \<open>
  The kernel's comparisons of \<open>jiffies\<close> values, which are signed differences so that they survive the
  wrap of the counter (\<open>include/linux/jiffies.h\<close>).
\<close>

definition time_after_eq :: "u64 \<Rightarrow> u64 \<Rightarrow> bool" where
  "time_after_eq a b \<longleftrightarrow> 0 \<le> sint (a - b)"

definition time_before :: "u64 \<Rightarrow> u64 \<Rightarrow> bool" where
  "time_before a b \<longleftrightarrow> sint (a - b) < 0"

definition time_after :: "u64 \<Rightarrow> u64 \<Rightarrow> bool" where
  "time_after a b \<longleftrightarrow> sint (b - a) < 0"

lemma time_before_iff: "time_before a b \<longleftrightarrow> \<not> time_after_eq a b"
  by (simp add: time_before_def time_after_eq_def not_le)

end
