(* ===== verification/X1_Native.thy ===== *)
theory X1_Native
  imports X1_Bridge X1_Time
begin

unbundle bit_operations_syntax

text \<open>
  The glue between the frontend, the connection manager and the private PCI0 bridge
  (\<open>snapshot/kernel/drivers/thunderbolt/qcom-x1-native.c\<close>, \<open>x1-native-policy.h\<close>): one owner of the
  host interface per boot, one connect attempt, and the sequence that admits the external disk.

  Every call out of the file is an event of one history (newest first), and its answer is a function
  of that history.  The calls of the PCI0 bridge are those of its own theory.  The driver's mutex makes
  start, register, connect and stop atomic; only scan results, which the connection manager reports
  under its domain lock, arrive while a connect is waiting, and they do so whenever that lock is free
  and during a rescan.  The jiffies counter is read through the history as well; \<open>ne_msecs\<close> is the
  conversion of milliseconds into ticks.
\<close>

section \<open>Policy\<close>

text \<open>The approved disk; a build may set its own, so the predicates take it as their first argument.\<close>

definition X1_NATIVE_LACIE_UID :: u64 where "X1_NATIVE_LACIE_UID = 0"

definition x1_native_route_allowed :: "u64 \<Rightarrow> int" where
  "x1_native_route_allowed route = (if route = 0 \<or> route = 2 then 0 else - EPERM)"

text \<open>A router header is an array of five words.\<close>

type_synonym header = "u32 \<times> u32 \<times> u32 \<times> u32 \<times> u32"

definition x1_native_header_allowed :: "u64 \<Rightarrow> header option \<Rightarrow> int" where
  "x1_native_header_allowed route h =
     (case h of
        None \<Rightarrow> - EPERM
      | Some (h0, h1, _) \<Rightarrow>
          if x1_native_route_allowed route \<noteq> 0 then - EPERM
          else if route = 0 then (if h0 = 0x093805c6 \<and> h1 AND 0xfffff = 0x1c11c then 0 else - ENODEV)
          else (if h0 = 0x113b059f \<and> h1 AND 0xfffff = 0x14120 then 0 else - ENODEV))"

definition x1_native_uid_allowed :: "u64 \<Rightarrow> u64 \<Rightarrow> u64 \<Rightarrow> int" where
  "x1_native_uid_allowed lacie route uid =
     (if lacie \<noteq> 0 \<and> route = 2 \<and> uid = lacie then 0 else - ENODEV)"

definition x1_native_connect_word_allowed :: "u32 \<Rightarrow> int" where
  "x1_native_connect_word_allowed word = (if word = 0x2501 \<or> word = 0x2701 then 0 else - EPERM)"

definition x1_native_rescan_allowed :: "bool \<Rightarrow> bool \<Rightarrow> int \<Rightarrow> bool" where
  "x1_native_rescan_allowed used preconfig error \<longleftrightarrow>
     \<not> used \<and> preconfig \<and> (error = - ETIMEDOUT \<or> error = - ENOTCONN \<or> error = - EAGAIN)"

section \<open>State\<close>

text \<open>
  A domain of the connection manager: its identity, and its host interface and device pointers with
  the test of the device's compatible strings.  A switch it has enumerated.
\<close>

record tb =
  tb_id :: nat
  tb_nhi_dev :: "(string \<Rightarrow> bool) option option"

record tb_switch =
  sw_uid :: u64
  sw_unplugged :: bool
  sw_link_usb4 :: bool
  sw_authorized :: bool
  sw_pcie_up :: bool

record x1_native =
  n_tb :: "nat option"
  n_connect :: bool
  n_live :: bool
  n_attempted :: bool
  n_stopped :: bool
  n_allow_pcie :: bool
  n_scan_results :: u32
  n_scan_error :: int
  n_scan_preconfig :: bool
  n_scan_stage :: string

definition native_zero :: x1_native where
  "native_zero = \<lparr>n_tb = None, n_connect = False, n_live = False, n_attempted = False, n_stopped = False,
     n_allow_pcie = False, n_scan_results = 0, n_scan_error = 0, n_scan_preconfig = False, n_scan_stage = ''''\<rparr>"

text \<open>The event of an approval carries the switch and whether the PCIe authorization is in force.\<close>

datatype native_event =
    N_alloc | N_read_caps | N_tx_options nat | N_rx_options nat | N_alloc_rings
  | N_prepare | N_init_interrupts | N_disable_interrupts | N_tb_probe | N_domain_add | N_watchdog
  | N_valid | N_connect u32 | N_jiffies | N_trylock | N_find_switch | N_rescan | N_msleep
  | N_pcie_start | N_approve tb_switch bool | N_set_authorized | N_pcie_train | N_pcie_scan
  | N_cfg_read u64 | N_prepared | N_ctl_stop

record native_state =
  native_owner :: "x1_native option"
  nv_pcie :: pcie_state
  nv_log :: "native_event list"

record scan =
  sc_tb :: "tb option"
  sc_route :: u64
  sc_port :: u32
  sc_stage :: string
  sc_error :: int
  sc_preconfig :: bool

record native_env =
  ne_uid :: u64
  ne_board :: board
  ne_ring_enable :: u32
  ne_ok :: "native_event list \<Rightarrow> bool"
  ne_int :: "native_event list \<Rightarrow> int"
  ne_read :: "native_event list \<Rightarrow> u32"
  ne_probe :: "native_event list \<Rightarrow> nat option"
  ne_switch :: "native_event list \<Rightarrow> tb_switch option"
  ne_now :: "native_event list \<Rightarrow> u64"
  ne_cfg :: "native_event list \<Rightarrow> int \<times> u32 \<times> u32"
  ne_scans :: "native_event list \<Rightarrow> scan list"
  ne_pcie :: "native_event list \<Rightarrow> pcie_env"
  ne_msecs :: "nat \<Rightarrow> u64"

text \<open>The call \<open>e\<close>: its answer may depend on everything up to and including the call.\<close>

definition ask :: "(native_event list \<Rightarrow> 'a) \<Rightarrow> native_event \<Rightarrow> (native_state, 'a) state" where
  "ask f e = State (\<lambda>s. (f (e # nv_log s), s\<lparr>nv_log := e # nv_log s\<rparr>))"

definition getn :: "(native_state \<Rightarrow> 'a) \<Rightarrow> (native_state, 'a) state" where
  "getn f = State (\<lambda>s. (f s, s))"

definition setn :: "(x1_native option \<Rightarrow> x1_native option) \<Rightarrow> (native_state, unit) state" where
  "setn f = State (\<lambda>s. ((), s\<lparr>native_owner := f (native_owner s)\<rparr>))"

abbreviation change :: "(x1_native \<Rightarrow> x1_native) \<Rightarrow> (native_state, unit) state" where
  "change f \<equiv> setn (map_option f)"

definition owner_is :: "(x1_native \<Rightarrow> bool) \<Rightarrow> native_state \<Rightarrow> bool" where
  "owner_is P s = (case native_owner s of None \<Rightarrow> False | Some n \<Rightarrow> P n)"

text \<open>A call of the PCI0 bridge.\<close>

definition pcie :: "native_env \<Rightarrow> native_event \<Rightarrow> (pcie_env \<Rightarrow> pcie_state \<Rightarrow> int \<times> pcie_state) \<Rightarrow> (native_state, int) state" where
  "pcie env e call = State (\<lambda>s. case call (ne_pcie env (e # nv_log s)) (nv_pcie s) of
     (ret, p) \<Rightarrow> (ret, s\<lparr>nv_pcie := p, nv_log := e # nv_log s\<rparr>))"

section \<open>Hooks of the connection manager\<close>

definition x1_native_test :: "tb option \<Rightarrow> bool" where
  "x1_native_test tb =
     (case tb of
        None \<Rightarrow> False
      | Some t \<Rightarrow> (case tb_nhi_dev t of
           Some (Some compatible) \<Rightarrow> compatible ''birk,yoga-x1-usb4-mcu-test''
         | _ \<Rightarrow> False))"

definition x1_native_pcie_authorizing :: "x1_native option \<Rightarrow> nat option \<Rightarrow> bool" where
  "x1_native_pcie_authorizing owner tb =
     (case owner of None \<Rightarrow> False | Some n \<Rightarrow> n_tb n = tb \<and> n_live n \<and> \<not> n_stopped n \<and> n_allow_pcie n)"

definition x1_native_guard_router ::
    "native_env \<Rightarrow> tb option \<Rightarrow> u64 \<Rightarrow> header option \<Rightarrow> (native_state, int) state" where
  "x1_native_guard_router env tb route header =
     (if \<not> x1_native_test tb then State_Monad.return 0
      else if header = None then State_Monad.return (- EPERM)
      else
        let ret = x1_native_header_allowed route header in
        if ret \<noteq> 0 \<or> route = 0 then State_Monad.return ret
        else do {
          (ret, uid0, uid1) \<leftarrow> ask (ne_cfg env) (N_cfg_read route);
          State_Monad.return
            (if ret \<noteq> 0 then ret
             else x1_native_uid_allowed (ne_uid env) route (push_bit 32 (ucast uid1) OR ucast uid0))
        })"

text \<open>A failure after the configuration of the router is terminal.\<close>

definition terminal :: "x1_native \<Rightarrow> bool" where
  "terminal n \<longleftrightarrow> n_scan_results n \<noteq> 0 \<and> n_scan_error n \<noteq> 0 \<and> \<not> n_scan_preconfig n"

definition scan_ignored :: "scan \<Rightarrow> x1_native \<Rightarrow> bool" where
  "scan_ignored r n \<longleftrightarrow> n_tb n \<noteq> map_option tb_id (sc_tb r) \<or> \<not> n_live n \<or> \<not> n_attempted n \<or> n_stopped n \<or>
     sc_route r \<noteq> 2 \<or> sc_port r \<noteq> 2"

definition x1_native_scan_result :: "scan \<Rightarrow> x1_native option \<Rightarrow> x1_native option" where
  "x1_native_scan_result r owner =
     (if \<not> x1_native_test (sc_tb r) then owner
      else (case owner of
         None \<Rightarrow> None
       | Some n \<Rightarrow>
           if scan_ignored r n then Some n
           else if terminal n then Some n
           else Some (n\<lparr>n_scan_results := n_scan_results n + 1, n_scan_error := sc_error r,
                        n_scan_preconfig := sc_preconfig r, n_scan_stage := sc_stage r\<rparr>)))"

section \<open>Start\<close>

text \<open>The check for rings left running; \<open>ne_ring_enable\<close> is the enable bit of a ring's options.\<close>

fun rings_busy :: "native_env \<Rightarrow> nat list \<Rightarrow> (native_state, bool) state" where
  "rings_busy env [] = State_Monad.return False"
| "rings_busy env (i # rest) = do {
     tx \<leftarrow> ask (ne_read env) (N_tx_options i);
     rx \<leftarrow> ask (ne_read env) (N_rx_options i);
     if (tx OR rx) AND ne_ring_enable env \<noteq> 0 then State_Monad.return True else rings_busy env rest
   }"

definition native_mask :: "int \<Rightarrow> (native_state, int) state" where
  "native_mask ret = do { ask (\<lambda>_. ()) N_disable_interrupts; State_Monad.return ret }"

text \<open>From the initialization of the interrupts to the live domain.\<close>

definition native_domain :: "native_env \<Rightarrow> (native_state, int) state" where
  "native_domain env = do {
     ret \<leftarrow> ask (ne_int env) N_init_interrupts;
     if ret \<noteq> 0 then native_mask ret
     else do {
       tb \<leftarrow> ask (ne_probe env) N_tb_probe;
       change (\<lambda>n. n\<lparr>n_tb := tb\<rparr>);
       if tb = None then native_mask (- ENOMEM)
       else do {
         ret \<leftarrow> ask (ne_int env) N_domain_add;
         if ret \<noteq> 0 then native_mask ret
         else do {
           change (\<lambda>n. n\<lparr>n_live := True\<rparr>);
           ask (\<lambda>_. ()) N_watchdog;
           State_Monad.return 0
         }
       }
     }
   }"

definition native_bring_up :: "native_env \<Rightarrow> (native_state, int) state" where
  "native_bring_up env = do {
     caps \<leftarrow> ask (ne_read env) N_read_caps;
     if caps \<noteq> 3 then State_Monad.return (- ENODEV)
     else do {
       busy \<leftarrow> rings_busy env [0, 1, 2];
       if busy then State_Monad.return (- EBUSY)
       else do {
         ok \<leftarrow> ask (ne_ok env) N_alloc_rings;
         if \<not> ok then State_Monad.return (- ENOMEM)
         else do {
           ret \<leftarrow> ask (ne_int env) N_prepare;
           if ret \<noteq> 0 then State_Monad.return ret else native_domain env
         }
       }
     }
   }"

definition x1_native_start :: "native_env \<Rightarrow> bool \<Rightarrow> bool \<Rightarrow> int \<Rightarrow> (native_state, int) state" where
  "x1_native_start env dev router irq =
     (if \<not> dev \<or> \<not> router \<or> irq \<le> 0 \<or> \<not> root_property (ne_board env) ''birk,usb4-native-cm-test''
      then State_Monad.return (- EPERM)
      else do {
        owned \<leftarrow> getn (owner_is (\<lambda>_. True));
        if owned then State_Monad.return (- EALREADY)
        else do {
          ok \<leftarrow> ask (ne_ok env) N_alloc;
          if \<not> ok then State_Monad.return (- ENOMEM)
          else do {
            setn (\<lambda>_. Some native_zero);
            native_bring_up env
          }
        }
      })"

definition x1_native_register_connect :: "bool \<Rightarrow> bool \<Rightarrow> (native_state, int) state" where
  "x1_native_register_connect connect ctx = do {
     ok \<leftarrow> getn (owner_is (\<lambda>n. n_live n \<and> \<not> n_stopped n \<and> \<not> n_connect n));
     if \<not> ok \<or> \<not> connect \<or> \<not> ctx then State_Monad.return (- EPERM)
     else do {
       change (\<lambda>n. n\<lparr>n_connect := True\<rparr>);
       State_Monad.return 0
     }
   }"

section \<open>Connect\<close>

definition valid :: "native_env \<Rightarrow> (native_state, bool) state" where
  "valid env = ask (ne_ok env) N_valid"

definition jiffies_now :: "native_env \<Rightarrow> (native_state, u64) state" where
  "jiffies_now env = ask (ne_now env) N_jiffies"

text \<open>The results the connection manager has reported by now.\<close>

definition native_deliver :: "native_env \<Rightarrow> (native_state, unit) state" where
  "native_deliver env = State (\<lambda>s. ((), s\<lparr>native_owner := fold x1_native_scan_result (ne_scans env (nv_log s)) (native_owner s)\<rparr>))"

definition scan_error :: "native_state \<Rightarrow> int" where
  "scan_error s = (case native_owner s of None \<Rightarrow> 0 | Some n \<Rightarrow> n_scan_error n)"

text \<open>
  One round of the polling loop, in two parts: the result is what the loop ends with, if it ends, and
  whether the rescan is used up.
\<close>

definition native_rescan :: "native_env \<Rightarrow> u64 \<Rightarrow> bool \<Rightarrow> (native_state, int option \<times> bool) state" where
  "native_rescan env deadline rescanned = do {
     over \<leftarrow> getn (owner_is terminal);
     err \<leftarrow> getn scan_error;
     pre \<leftarrow> getn (owner_is n_scan_preconfig);
     if over then State_Monad.return (Some err, rescanned)
     else if \<not> x1_native_rescan_allowed rescanned pre err then State_Monad.return (None, rescanned)
     else do {
       now \<leftarrow> jiffies_now env;
       if \<not> time_before (now + ne_msecs env 8000) deadline then State_Monad.return (None, rescanned)
       else do {
         ok \<leftarrow> valid env;
         if \<not> ok then State_Monad.return (Some (- ENOTCONN), True)
         else do {
           ret \<leftarrow> ask (ne_int env) N_rescan;
           native_deliver env;
           State_Monad.return (if ret \<noteq> 0 then Some ret else None, True)
         }
       }
     }
   }"

definition switch_ret :: "u64 \<Rightarrow> tb_switch \<Rightarrow> int" where
  "switch_ret lacie sw =
     (let ret = x1_native_uid_allowed lacie 2 (sw_uid sw) in
      if ret = 0 \<and> (sw_unplugged sw \<or> \<not> sw_link_usb4 sw \<or> \<not> sw_pcie_up sw) then - ENODEV else ret)"

definition native_round :: "native_env \<Rightarrow> u64 \<Rightarrow> bool \<Rightarrow> (native_state, int option \<times> bool) state" where
  "native_round env deadline rescanned = do {
     ok \<leftarrow> valid env;
     if \<not> ok then State_Monad.return (Some (- ENOTCONN), rescanned)
     else do {
       native_deliver env;
       locked \<leftarrow> ask (ne_ok env) N_trylock;
       if \<not> locked then State_Monad.return (None, rescanned)
       else do {
         over \<leftarrow> getn (owner_is terminal);
         err \<leftarrow> getn scan_error;
         if over then State_Monad.return (Some err, rescanned)
         else do {
           sw \<leftarrow> ask (ne_switch env) N_find_switch;
           case sw of
             Some sw \<Rightarrow> State_Monad.return (Some (switch_ret (ne_uid env) sw), rescanned)
           | None \<Rightarrow> native_rescan env deadline rescanned
         }
       }
     }
   }"

text \<open>The loop; the result is \<^const>\<open>None\<close> when \<open>fuel\<close> rounds were not enough.\<close>

fun native_poll :: "native_env \<Rightarrow> u64 \<Rightarrow> nat \<Rightarrow> bool \<Rightarrow> (native_state, int option) state" where
  "native_poll env deadline 0 rescanned = State_Monad.return None"
| "native_poll env deadline (Suc fuel) rescanned = do {
     (r, rescanned) \<leftarrow> native_round env deadline rescanned;
     case r of
       Some ret \<Rightarrow> State_Monad.return (Some ret)
     | None \<Rightarrow> do {
         ask (\<lambda>_. ()) N_msleep;
         now \<leftarrow> jiffies_now env;
         if time_before now deadline then native_poll env deadline fuel rescanned
         else State_Monad.return (Some (- ETIMEDOUT))
       }
   }"

text \<open>The approval of the tunnel, with the domain locked.\<close>

definition native_approve :: "native_env \<Rightarrow> tb_switch \<Rightarrow> (native_state, int) state" where
  "native_approve env sw = do {
     change (\<lambda>n. n\<lparr>n_allow_pcie := True\<rparr>);
     auth \<leftarrow> getn (\<lambda>s. x1_native_pcie_authorizing (native_owner s) (Option.bind (native_owner s) n_tb));
     ret \<leftarrow> ask (ne_int env) (N_approve sw auth);
     change (\<lambda>n. n\<lparr>n_allow_pcie := False\<rparr>);
     if ret = 0 then do { ask (\<lambda>_. ()) N_set_authorized; State_Monad.return ret }
     else State_Monad.return ret
   }"

definition native_tunnel :: "native_env \<Rightarrow> (native_state, int) state" where
  "native_tunnel env = do {
     sw \<leftarrow> ask (ne_switch env) N_find_switch;
     case sw of
       None \<Rightarrow> State_Monad.return (- ENODEV)
     | Some sw \<Rightarrow>
         let ret = x1_native_uid_allowed (ne_uid env) 2 (sw_uid sw) in
         if ret \<noteq> 0 then State_Monad.return ret
         else do {
           ok \<leftarrow> valid env;
           if \<not> ok \<or> sw_unplugged sw \<or> \<not> sw_link_usb4 sw \<or> sw_authorized sw \<or> \<not> sw_pcie_up sw
           then State_Monad.return (- ENODEV)
           else native_approve env sw
         }
   }"

text \<open>\<open>if (!valid(ctx)) return -ENOTCONN;\<close> as a step of its own.\<close>

definition still_valid :: "native_env \<Rightarrow> (native_state, int) state" where
  "still_valid env = do { ok \<leftarrow> valid env; State_Monad.return (if ok then 0 else - ENOTCONN) }"

definition x1_native_prepare_storage :: "native_env \<Rightarrow> (native_state, int) state" where
  "x1_native_prepare_storage env =
     run_ok [still_valid env,
       pcie env N_pcie_start (\<lambda>e. x1_pcie_start e True),
       native_tunnel env,
       still_valid env,
       pcie env N_pcie_train x1_pcie_train,
       still_valid env,
       pcie env N_pcie_scan x1_pcie_scan,
       still_valid env]"

definition connect_ready :: "x1_native \<Rightarrow> bool" where
  "connect_ready n \<longleftrightarrow> n_live n \<and> \<not> n_stopped n \<and> \<not> n_attempted n \<and> n_connect n"

text \<open>After the command: the polling loop, and the storage path when the disk was enumerated.\<close>

definition native_enumerate :: "native_env \<Rightarrow> nat \<Rightarrow> (native_state, int option) state" where
  "native_enumerate env fuel = do {
     now \<leftarrow> jiffies_now env;
     r \<leftarrow> native_poll env (now + ne_msecs env 20000) fuel False;
     if r = Some 0 then do { ret \<leftarrow> x1_native_prepare_storage env; State_Monad.return (Some ret) }
     else State_Monad.return r
   }"

definition x1_native_connect :: "native_env \<Rightarrow> nat \<Rightarrow> u32 \<Rightarrow> bool \<Rightarrow> (native_state, int option) state" where
  "x1_native_connect env fuel word has_valid =
     (let ret = x1_native_connect_word_allowed word in
      if ret \<noteq> 0 \<or> \<not> has_valid then State_Monad.return (Some (if ret \<noteq> 0 then ret else - EINVAL))
      else do {
        ready \<leftarrow> getn (owner_is connect_ready);
        if \<not> ready then State_Monad.return (Some (- EPERM))
        else do {
          change (\<lambda>n. n\<lparr>n_attempted := True\<rparr>);
          ok \<leftarrow> valid env;
          if \<not> ok then State_Monad.return (Some (- ENOTCONN))
          else do {
            ret \<leftarrow> ask (ne_int env) (N_connect word);
            if ret \<noteq> 0 then State_Monad.return (Some ret) else native_enumerate env fuel
          }
        }
      })"

section \<open>Stop\<close>

definition x1_native_stop :: "native_env \<Rightarrow> (native_state, unit) state" where
  "x1_native_stop env = do {
     running \<leftarrow> getn (owner_is (\<lambda>n. \<not> n_stopped n));
     if \<not> running then State_Monad.return ()
     else do {
       change (\<lambda>n. n\<lparr>n_stopped := True, n_live := False\<rparr>);
       tb \<leftarrow> getn (owner_is (\<lambda>n. n_tb n \<noteq> None));
       (if tb then ask (\<lambda>_. ()) N_ctl_stop else State_Monad.return ());
       prepared \<leftarrow> ask (ne_ok env) N_prepared;
       if prepared then ask (\<lambda>_. ()) N_disable_interrupts else State_Monad.return ()
     }
   }"

section \<open>Any sequence of calls\<close>

definition native_init :: native_state where
  "native_init = \<lparr>native_owner = None, nv_pcie = pcie_init, nv_log = []\<rparr>"

inductive native_step :: "u64 \<Rightarrow> native_state \<Rightarrow> native_state \<Rightarrow> bool" for lacie where
  start: "ne_uid env = lacie \<Longrightarrow> run_state (x1_native_start env dev router irq) s = (r, s') \<Longrightarrow> native_step lacie s s'"
| register: "run_state (x1_native_register_connect connect ctx) s = (r, s') \<Longrightarrow> native_step lacie s s'"
| connect: "ne_uid env = lacie \<Longrightarrow> run_state (x1_native_connect env fuel word v) s = (r', s') \<Longrightarrow> native_step lacie s s'"
| guard: "ne_uid env = lacie \<Longrightarrow> run_state (x1_native_guard_router env t route header) s = (r, s') \<Longrightarrow> native_step lacie s s'"
| scan: "s' = s\<lparr>native_owner := x1_native_scan_result x (native_owner s)\<rparr> \<Longrightarrow> native_step lacie s s'"
| stop: "run_state (x1_native_stop env) s = (u, s') \<Longrightarrow> native_step lacie s s'"

inductive native_reach :: "u64 \<Rightarrow> native_state \<Rightarrow> bool" for lacie where
  init: "native_reach lacie native_init"
| step: "native_reach lacie s \<Longrightarrow> native_step lacie s s' \<Longrightarrow> native_reach lacie s'"

text \<open>The events that commit the hardware, and the order a whole attempt has them in (newest first).\<close>

definition milestone :: "native_event \<Rightarrow> bool" where
  "milestone e = (case e of N_connect _ \<Rightarrow> True | N_pcie_start \<Rightarrow> True | N_approve _ _ \<Rightarrow> True
     | N_set_authorized \<Rightarrow> True | N_pcie_train \<Rightarrow> True | N_pcie_scan \<Rightarrow> True | _ \<Rightarrow> False)"

definition native_plan :: "u32 \<Rightarrow> tb_switch \<Rightarrow> native_event list" where
  "native_plan word sw = [N_pcie_scan, N_pcie_train, N_set_authorized, N_approve sw True, N_pcie_start, N_connect word]"

definition approved :: "u64 \<Rightarrow> tb_switch \<Rightarrow> bool" where
  "approved lacie sw \<longleftrightarrow> lacie \<noteq> 0 \<and> sw_uid sw = lacie \<and> \<not> sw_unplugged sw \<and> sw_link_usb4 sw \<and>
     \<not> sw_authorized sw \<and> sw_pcie_up sw"

abbreviation marks :: "native_state \<Rightarrow> native_event list" where
  "marks s \<equiv> filter milestone (nv_log s)"

abbreviation rescans :: "native_state \<Rightarrow> nat" where
  "rescans s \<equiv> length (filter (\<lambda>e. e = N_rescan) (nv_log s))"

section \<open>Quiet steps\<close>

text \<open>What most of the code does: it adds events that commit nothing, and it leaves the owner's flags alone.\<close>

definition flags :: "x1_native \<Rightarrow> nat option \<times> bool \<times> bool \<times> bool \<times> bool \<times> bool" where
  "flags n = (n_tb n, n_connect n, n_live n, n_attempted n, n_stopped n, n_allow_pcie n)"

definition quiet :: "native_state \<Rightarrow> native_state \<Rightarrow> bool" where
  "quiet s s' \<longleftrightarrow> map_option flags (native_owner s') = map_option flags (native_owner s) \<and>
     nv_pcie s' = nv_pcie s \<and> marks s' = marks s \<and> rescans s' = rescans s"

interpretation quiet: history_order quiet
  by unfold_locales (auto simp: quiet_def)

lemma run_ask [run_simps]: "run_state (ask f e) s = (f (e # nv_log s), s\<lparr>nv_log := e # nv_log s\<rparr>)"
  by (simp add: ask_def)

lemma run_getn [run_simps]: "run_state (getn f) s = (f s, s)"
  by (simp add: getn_def)

lemma run_setn [run_simps]: "run_state (setn f) s = ((), s\<lparr>native_owner := f (native_owner s)\<rparr>)"
  by (simp add: setn_def)

lemma quiet_ask: "\<not> milestone e \<Longrightarrow> e \<noteq> N_rescan \<Longrightarrow> keeps quiet (ask f e)"
  by (simp add: keeps_def run_simps quiet_def)

lemma quiet_getn: "keeps quiet (getn f)"
  by (simp add: keeps_def run_simps quiet.refl)

lemma quiet_asks:
  "keeps quiet (valid env)" "keeps quiet (jiffies_now env)" "keeps quiet (still_valid env)"
  unfolding valid_def jiffies_now_def still_valid_def
  by (auto intro!: quiet.keeps_rules quiet_ask simp: milestone_def)

lemma scan_flags: "map_option flags (x1_native_scan_result r owner) = map_option flags owner"
  by (simp add: x1_native_scan_result_def flags_def split: option.split)

lemma scans_flags: "map_option flags (fold x1_native_scan_result rs owner) = map_option flags owner"
  by (induction rs arbitrary: owner) (simp_all add: scan_flags)

lemma quiet_deliver: "keeps quiet (native_deliver env)"
  by (simp add: keeps_def native_deliver_def quiet_def scans_flags)

lemmas quiet_steps = quiet.keeps_rules quiet_getn quiet_asks quiet_deliver

section \<open>An attempt under way\<close>

text \<open>The owner is in its one attempt, the milestones are \<open>ms\<close>, and at most \<open>r\<close> rescans were made.\<close>

definition under_way :: "native_event list \<Rightarrow> nat \<Rightarrow> native_state \<Rightarrow> bool" where
  "under_way ms r s \<longleftrightarrow>
     owner_is (\<lambda>n. n_attempted n \<and> n_live n \<and> \<not> n_stopped n \<and> \<not> n_allow_pcie n) s \<and>
     marks s = ms \<and> rescans s \<le> r \<and> pcie_reach (nv_pcie s)"

lemma owner_is_flags:
  assumes "map_option flags (native_owner s') = map_option flags (native_owner s)"
    and "\<And>n m. flags n = flags m \<Longrightarrow> P n = P m"
  shows "owner_is P s' = owner_is P s"
proof (cases "native_owner s")
  case None
  with assms(1) show ?thesis by (simp add: owner_is_def)
next
  case (Some n)
  with assms(1) obtain m where "native_owner s' = Some m" "flags m = flags n" by auto
  with Some assms(2) [of m n] show ?thesis by (simp add: owner_is_def)
qed

lemma under_way_quiet:
  assumes "quiet s s'"
  shows "under_way ms r s' = under_way ms r s"
proof -
  from assms have f: "map_option flags (native_owner s') = map_option flags (native_owner s)"
    and "nv_pcie s' = nv_pcie s" "marks s' = marks s" "rescans s' = rescans s"
    unfolding quiet_def by blast+
  moreover from f have "owner_is (\<lambda>n. n_attempted n \<and> n_live n \<and> \<not> n_stopped n \<and> \<not> n_allow_pcie n) s' =
      owner_is (\<lambda>n. n_attempted n \<and> n_live n \<and> \<not> n_stopped n \<and> \<not> n_allow_pcie n) s"
    by (rule owner_is_flags) (simp add: flags_def)
  ultimately show ?thesis by (simp add: under_way_def)
qed

lemma quiet_triple: "keeps quiet m \<Longrightarrow> triple (under_way ms r) m (\<lambda>_. under_way ms r)"
  by (rule tripleI) (metis keepsD under_way_quiet)

lemma under_way_mono: "under_way ms r s \<Longrightarrow> r \<le> r' \<Longrightarrow> under_way ms r' s"
  by (simp add: under_way_def)

lemma rescan_triple: "triple (under_way ms 0) (ask f N_rescan) (\<lambda>_. under_way ms 1)"
  by (rule tripleI) (auto simp: run_simps under_way_def owner_is_def milestone_def)

lemma round_triple:
  "triple (under_way ms (of_bool b)) (native_round env deadline b) (\<lambda>(_, b'). under_way ms (of_bool b'))"
proof -
  have q: "triple (under_way ms (of_bool b)) (State_Monad.return (x, b)) (\<lambda>(_, b'). under_way ms (of_bool b'))" for x :: "int option"
    by (rule triple_return) simp
  have used: "triple (under_way ms (of_bool b)) (State_Monad.return (x, True)) (\<lambda>(_, b'). under_way ms (of_bool b'))" for x :: "int option"
    by (rule triple_return) (auto elim: under_way_mono)
  have go: "triple (under_way ms (of_bool b)) (ask (ne_int env) N_rescan \<bind> (\<lambda>ret. native_deliver env \<bind>
        (\<lambda>_. State_Monad.return (if ret \<noteq> 0 then Some ret else None, True)))) (\<lambda>(_, b'). under_way ms (of_bool b'))"
    if "\<not> b"
  proof (rule triple_bind [of _ _ "\<lambda>_. under_way ms 1"])
    show "triple (under_way ms (of_bool b)) (ask (ne_int env) N_rescan) (\<lambda>_. under_way ms 1)"
      using that rescan_triple by simp
  qed (rule triple_bind [OF quiet_triple [OF quiet_deliver]], rule triple_return, simp)
  have rescan: "triple (under_way ms (of_bool b)) (native_rescan env deadline b) (\<lambda>(_, b'). under_way ms (of_bool b'))"
    unfolding native_rescan_def
    by (intro triple_bind [OF quiet_triple [OF quiet_getn]] triple_bind [OF quiet_triple [OF quiet_asks(1)]]
        triple_bind [OF quiet_triple [OF quiet_asks(2)]] triple_if q used)
      (rule go, simp add: x1_native_rescan_allowed_def)
  have find: "keeps quiet (ask (ne_switch env) N_find_switch)" "keeps quiet (ask (ne_ok env) N_trylock)"
    by (simp_all add: quiet_ask milestone_def)
  show ?thesis
    unfolding native_round_def
    by (intro triple_bind [OF quiet_triple [OF quiet_getn]] triple_bind [OF quiet_triple [OF quiet_asks(1)]]
        triple_bind [OF quiet_triple [OF quiet_deliver]] triple_bind [OF quiet_triple [OF find(2)]]
        triple_bind [OF quiet_triple [OF find(1)]] triple_if triple_case_option q rescan)
qed

lemma poll_triple: "triple (under_way ms (of_bool b)) (native_poll env deadline fuel b) (\<lambda>_. under_way ms 1)"
proof (induction fuel arbitrary: b)
  case 0
  show ?case unfolding native_poll.simps by (rule triple_return, erule under_way_mono, simp)
next
  case (Suc fuel)
  have sleep: "keeps quiet (ask (\<lambda>_. ()) N_msleep)" by (simp add: quiet_ask milestone_def)
  have r: "triple (under_way ms (of_bool b')) (State_Monad.return x) (\<lambda>_. under_way ms 1)" for x :: "int option" and b'
    by (rule triple_return, erule under_way_mono, simp)
  show ?case
    unfolding native_poll.simps
    by (rule triple_bind [OF round_triple], unfold split_beta)
      (intro triple_case_option triple_bind [OF quiet_triple [OF sleep]]
        triple_bind [OF quiet_triple [OF quiet_asks(2)]] triple_if Suc r)
qed

section \<open>The storage path\<close>

lemma pcie_triple:
  assumes "milestone e" and "\<And>env p. pcie_reach p \<Longrightarrow> pcie_reach (snd (call env p))"
  shows "triple (under_way ms r) (pcie env e call) (\<lambda>_. under_way (e # ms) r)"
proof (rule tripleI)
  fix s ret s'
  assume s: "under_way ms r s" and run: "run_state (pcie env e call) s = (ret, s')"
  obtain q p where c: "call (ne_pcie env (e # nv_log s)) (nv_pcie s) = (q, p)" by (metis surj_pair)
  with assms(2) [of "nv_pcie s" "ne_pcie env (e # nv_log s)"] s have "pcie_reach p" by (simp add: under_way_def)
  moreover from run c have "s' = s\<lparr>nv_pcie := p, nv_log := e # nv_log s\<rparr>" by (simp add: pcie_def)
  moreover have "e \<noteq> N_rescan" using assms(1) by (auto simp: milestone_def)
  ultimately show "under_way (e # ms) r s'" using s assms(1) by (simp add: under_way_def owner_is_def)
qed

lemma start_triple: "triple (under_way ms r) (pcie env N_pcie_start (\<lambda>e. x1_pcie_start e True)) (\<lambda>_. under_way (N_pcie_start # ms) r)"
  by (rule pcie_triple) (simp add: milestone_def, metis pcie_reach.intros(2) pcie_do.simps(1))

lemma train_triple: "triple (under_way ms r) (pcie env N_pcie_train x1_pcie_train) (\<lambda>_. under_way (N_pcie_train # ms) r)"
  by (rule pcie_triple) (simp add: milestone_def, metis pcie_reach.intros(2) pcie_do.simps(2))

lemma scan_triple:
  "triple (under_way ms r) (pcie env N_pcie_scan x1_pcie_scan)
     (\<lambda>ret s. under_way (N_pcie_scan # ms) r s \<and> (ret = 0 \<longrightarrow> stage_of (nv_pcie s) = Exposed))"
proof (rule tripleI, rule conjI)
  fix s ret s'
  assume s: "under_way ms r s" and run: "run_state (pcie env N_pcie_scan x1_pcie_scan) s = (ret, s')"
  have "triple (under_way ms r) (pcie env N_pcie_scan x1_pcie_scan) (\<lambda>_. under_way (N_pcie_scan # ms) r)"
    by (rule pcie_triple) (simp add: milestone_def, metis pcie_reach.intros(2) pcie_do.simps(3))
  from tripleD [OF this s run] show "under_way (N_pcie_scan # ms) r s'" .
  obtain q p where c: "x1_pcie_scan (ne_pcie env (N_pcie_scan # nv_log s)) (nv_pcie s) = (q, p)" by (metis surj_pair)
  from s have "pcie_inv (nv_pcie s)" by (intro reach_inv) (simp add: under_way_def)
  from scan_stage [OF this, of "ne_pcie env (N_pcie_scan # nv_log s)"] c run
  show "ret = 0 \<longrightarrow> stage_of (nv_pcie s') = Exposed" by (auto simp: pcie_def stage_move_def)
qed

lemma approve_triple:
  "triple (under_way ms r) (native_approve env sw)
     (\<lambda>ret s. if ret = 0 then under_way (N_set_authorized # N_approve sw True # ms) r s
             else under_way (N_approve sw True # ms) r s)"
proof (rule tripleI)
  fix s ret s'
  assume s: "under_way ms r s" and run: "run_state (native_approve env sw) s = (ret, s')"
  then obtain n where n: "native_owner s = Some n" "n_attempted n" "n_live n" "\<not> n_stopped n" "\<not> n_allow_pcie n"
    by (auto simp: under_way_def owner_is_def split: option.splits)
  let ?h = "N_approve sw True # nv_log s"
  have "ret = ne_int env ?h"
    "s' = s\<lparr>nv_log := if ret = 0 then N_set_authorized # ?h else ?h, native_owner := Some (n\<lparr>n_allow_pcie := False\<rparr>)\<rparr>"
    using run n by (auto simp: native_approve_def run_simps x1_native_pcie_authorizing_def split: if_splits)
  with s n show "if ret = 0 then under_way (N_set_authorized # N_approve sw True # ms) r s'
             else under_way (N_approve sw True # ms) r s'"
    by (simp add: under_way_def owner_is_def milestone_def)
qed

text \<open>On the way to the disk: the milestones so far are the last part of the plan.\<close>

definition on_plan :: "u64 \<Rightarrow> u32 \<Rightarrow> native_state \<Rightarrow> bool" where
  "on_plan lacie word s \<longleftrightarrow> (\<exists>ms sw. under_way ms 1 s \<and> suffix ms (native_plan word sw) \<and>
     (N_approve sw True \<in> set ms \<longrightarrow> approved lacie sw))"

definition arrived :: "u64 \<Rightarrow> u32 \<Rightarrow> native_state \<Rightarrow> bool" where
  "arrived lacie word s \<longleftrightarrow> (\<exists>sw. approved lacie sw \<and> under_way (native_plan word sw) 1 s \<and> stage_of (nv_pcie s) = Exposed)"

lemma arrived_on_plan: "arrived lacie word s \<Longrightarrow> on_plan lacie word s"
  unfolding arrived_def on_plan_def by (metis suffix_order.refl)

lemma tunnel_triple:
  "triple (under_way ms r) (native_tunnel env)
     (\<lambda>ret s. if ret = 0 then \<exists>sw. approved (ne_uid env) sw \<and> under_way (N_set_authorized # N_approve sw True # ms) r s
        else under_way ms r s \<or> (\<exists>sw. approved (ne_uid env) sw \<and> under_way (N_approve sw True # ms) r s))"
proof -
  have find: "keeps quiet (ask (ne_switch env) N_find_switch)" by (simp add: quiet_ask milestone_def)
  have e: "triple (under_way ms r) (State_Monad.return ret)
     (\<lambda>ret s. if ret = 0 then \<exists>sw. approved (ne_uid env) sw \<and> under_way (N_set_authorized # N_approve sw True # ms) r s
        else under_way ms r s \<or> (\<exists>sw. approved (ne_uid env) sw \<and> under_way (N_approve sw True # ms) r s))"
    if "ret \<noteq> 0" for ret
    using that by (intro triple_return) simp
  show ?thesis
    unfolding native_tunnel_def Let_def
    by (intro triple_bind [OF quiet_triple [OF find]] triple_case_option triple_if
        triple_bind [OF quiet_triple [OF quiet_asks(1)]] e triple_weaken [OF approve_triple])
      (auto simp: approved_def x1_native_uid_allowed_def split: if_splits)
qed

lemma on_planI:
  "under_way [N_connect word] 1 s \<Longrightarrow> on_plan lacie word s"
  "under_way [N_pcie_start, N_connect word] 1 s \<Longrightarrow> on_plan lacie word s"
  "under_way [N_approve sw True, N_pcie_start, N_connect word] 1 s \<Longrightarrow> approved lacie sw \<Longrightarrow> on_plan lacie word s"
  "under_way [N_set_authorized, N_approve sw True, N_pcie_start, N_connect word] 1 s \<Longrightarrow> approved lacie sw \<Longrightarrow> on_plan lacie word s"
  "under_way [N_pcie_train, N_set_authorized, N_approve sw True, N_pcie_start, N_connect word] 1 s \<Longrightarrow> approved lacie sw \<Longrightarrow> on_plan lacie word s"
  "under_way (native_plan word sw) 1 s \<Longrightarrow> approved lacie sw \<Longrightarrow> on_plan lacie word s"
  unfolding on_plan_def native_plan_def
  by (rule exI, rule exI [of _ sw], rule conjI, assumption, simp add: suffix_Cons)+

text \<open>A check that commits nothing, in front of the rest of the path.\<close>

lemma quiet_check:
  assumes "keeps quiet m" and "\<And>s. under_way ms 1 s \<Longrightarrow> on_plan lacie word s"
    and "triple (under_way ms 1) k (\<lambda>ret s. on_plan lacie word s \<and> (ret = 0 \<longrightarrow> arrived lacie word s))"
  shows "triple (under_way ms 1) (do { ret \<leftarrow> m; if ret \<noteq> (0 :: int) then State_Monad.return ret else k })
    (\<lambda>ret s. on_plan lacie word s \<and> (ret = 0 \<longrightarrow> arrived lacie word s))"
  by (rule triple_check_any [OF quiet_triple [OF assms(1)] _ assms(3)]) (simp add: assms(2))

lemma prepare_triple:
  "triple (under_way [N_connect word] 1) (x1_native_prepare_storage env)
     (\<lambda>ret s. on_plan (ne_uid env) word s \<and> (ret = 0 \<longrightarrow> arrived (ne_uid env) word s))"
proof -
  let ?Q = "\<lambda>ret s. on_plan (ne_uid env) word s \<and> (ret = (0 :: int) \<longrightarrow> arrived (ne_uid env) word s)"
  have last: "triple (\<lambda>s. under_way (native_plan word sw) 1 s \<and> stage_of (nv_pcie s) = Exposed)
      (run_ok [still_valid env]) ?Q" if "approved (ne_uid env) sw" for sw
  proof (rule tripleI)
    fix s ret s'
    assume "under_way (native_plan word sw) 1 s \<and> stage_of (nv_pcie s) = Exposed"
      and "run_state (run_ok [still_valid env]) s = (ret, s')"
    moreover from this(2) have "quiet s s'" unfolding run_ok_single by (rule keepsD [OF quiet_asks(3)])
    ultimately have "arrived (ne_uid env) word s'" using that
      unfolding arrived_def by (metis under_way_quiet quiet_def)
    then show "?Q ret s'" by (simp add: arrived_on_plan)
  qed
  have scan: "triple (under_way [N_pcie_train, N_set_authorized, N_approve sw True, N_pcie_start, N_connect word] 1)
      (run_ok [pcie env N_pcie_scan x1_pcie_scan, still_valid env]) ?Q" if "approved (ne_uid env) sw" for sw
    unfolding run_ok.simps(2) [of "pcie env N_pcie_scan x1_pcie_scan"]
    by (rule triple_check [of _ _ _ "\<lambda>_. under_way (native_plan word sw) 1", OF _ _ last [OF that]])
      (rule triple_weaken [OF scan_triple], auto simp: native_plan_def intro: on_planI(6) [OF _ that, unfolded native_plan_def])
  have train: "triple (under_way [N_set_authorized, N_approve sw True, N_pcie_start, N_connect word] 1)
      (run_ok [still_valid env, pcie env N_pcie_train x1_pcie_train, still_valid env,
         pcie env N_pcie_scan x1_pcie_scan, still_valid env]) ?Q" if "approved (ne_uid env) sw" for sw
    unfolding run_ok.simps(2) [of "pcie env N_pcie_train x1_pcie_train"] run_ok.simps(2) [of "still_valid env" "_ # _"]
    by (rule quiet_check [OF quiet_asks(3) on_planI(4) [OF _ that]], assumption,
        rule triple_check_any [OF train_triple], use on_planI(5) [OF _ that] in simp,
        rule quiet_check [OF quiet_asks(3) on_planI(5) [OF _ that]], assumption, rule scan [OF that])
  show ?thesis
    unfolding x1_native_prepare_storage_def run_ok.simps(2) [of "still_valid env" "pcie env N_pcie_start _ # _"]
      run_ok.simps(2) [of "pcie env N_pcie_start _"] run_ok.simps(2) [of "native_tunnel env"]
    by (rule quiet_check [OF quiet_asks(3) on_planI(1)], assumption,
        rule triple_check_any [OF start_triple], use on_planI(2) in simp,
        rule triple_check [OF tunnel_triple], use on_planI(2,3) in blast,
        intro triple_ex triple_pure train)
qed

section \<open>The invariant of the driver\<close>

definition native_inv :: "u64 \<Rightarrow> native_state \<Rightarrow> bool" where
  "native_inv lacie s \<longleftrightarrow> \<not> owner_is n_allow_pcie s \<and> rescans s \<le> 1 \<and> pcie_reach (nv_pcie s) \<and>
     (\<not> owner_is n_attempted s \<longrightarrow> marks s = [] \<and> rescans s = 0) \<and>
     (\<exists>word sw. suffix (marks s) (native_plan word sw) \<and> x1_native_connect_word_allowed word = 0 \<and>
       (N_approve sw True \<in> set (nv_log s) \<longrightarrow> approved lacie sw))"

lemma approve_in_marks: "N_approve sw b \<in> set (nv_log s) \<longleftrightarrow> N_approve sw b \<in> set (marks s)"
  by (simp add: milestone_def)

lemma on_plan_inv:
  assumes "on_plan lacie word s" and "x1_native_connect_word_allowed word = 0"
  shows "native_inv lacie s"
proof -
  from assms(1) obtain ms sw where u: "under_way ms 1 s" and p: "suffix ms (native_plan word sw)"
    "N_approve sw True \<in> set ms \<longrightarrow> approved lacie sw" unfolding on_plan_def by blast
  from u have ms: "marks s = ms" and rest: "rescans s \<le> 1" "pcie_reach (nv_pcie s)" "owner_is n_attempted s" "\<not> owner_is n_allow_pcie s"
    by (auto simp: under_way_def owner_is_def split: option.splits)
  show ?thesis
    unfolding native_inv_def approve_in_marks ms using rest p assms(2) by blast
qed

lemma idle_inv:
  assumes "under_way [] 0 s"
  shows "native_inv lacie s"
proof -
  from assms have m: "marks s = []" "rescans s = 0" "pcie_reach (nv_pcie s)" "owner_is n_attempted s" "\<not> owner_is n_allow_pcie s"
    by (auto simp: under_way_def owner_is_def split: option.splits)
  have "x1_native_connect_word_allowed 0x2501 = 0" by (simp add: x1_native_connect_word_allowed_def)
  with m show ?thesis unfolding native_inv_def approve_in_marks m(1) by auto
qed

lemma enumerate_triple:
  "triple (under_way [N_connect word] 0) (native_enumerate env fuel)
     (\<lambda>r s. on_plan (ne_uid env) word s \<and> (r = Some 0 \<longrightarrow> arrived (ne_uid env) word s))"
proof -
  have poll: "triple (under_way [N_connect word] 0) (native_poll env d fuel False) (\<lambda>_. under_way [N_connect word] 1)" for d
    using poll_triple [of "[N_connect word]" False] by simp
  show ?thesis
    unfolding native_enumerate_def
  proof (intro triple_bind [OF quiet_triple [OF quiet_asks(2)]] triple_bind [OF poll] triple_if)
    fix r :: "int option"
    show "triple (under_way [N_connect word] 1)
        (x1_native_prepare_storage env \<bind> (\<lambda>ret. State_Monad.return (Some ret)))
        (\<lambda>r s. on_plan (ne_uid env) word s \<and> (r = Some 0 \<longrightarrow> arrived (ne_uid env) word s))"
      by (rule triple_bind [OF prepare_triple], rule triple_return) simp
    show "triple (under_way [N_connect word] 1) (State_Monad.return r)
        (\<lambda>r s. on_plan (ne_uid env) word s \<and> (r = Some 0 \<longrightarrow> arrived (ne_uid env) word s))" if "r \<noteq> Some 0"
      using that by (intro triple_return) (simp add: on_planI(1))
  qed
qed

text \<open>The command itself, on an owner that has made no attempt.\<close>

lemma attempt_triple:
  assumes word: "x1_native_connect_word_allowed word = 0"
  shows "triple (under_way [] 0)
    (do { ok \<leftarrow> valid env;
          if \<not> ok then State_Monad.return (Some (- ENOTCONN))
          else do {
            ret \<leftarrow> ask (ne_int env) (N_connect word);
            if ret \<noteq> 0 then State_Monad.return (Some ret) else native_enumerate env fuel
          } })
    (\<lambda>r s. native_inv (ne_uid env) s \<and> (r = Some 0 \<longrightarrow> arrived (ne_uid env) word s))"
proof -
  have cmd: "triple (under_way [] 0) (ask (ne_int env) (N_connect word)) (\<lambda>_. under_way [N_connect word] 0)"
    by (rule tripleI) (auto simp: run_simps under_way_def owner_is_def milestone_def)
  have fail: "triple (under_way [] 0) (State_Monad.return (Some (- ENOTCONN)))
      (\<lambda>r s. native_inv (ne_uid env) s \<and> (r = Some 0 \<longrightarrow> arrived (ne_uid env) word s))"
    by (intro triple_return) (simp add: idle_inv)
  have bad: "triple (under_way [N_connect word] 0) (State_Monad.return (Some ret))
      (\<lambda>r s. native_inv (ne_uid env) s \<and> (r = Some 0 \<longrightarrow> arrived (ne_uid env) word s))" if "ret \<noteq> 0" for ret
    using that on_plan_inv [OF on_planI(1) [OF under_way_mono] word] by (intro triple_return) simp
  have go: "triple (under_way [N_connect word] 0) (native_enumerate env fuel)
      (\<lambda>r s. native_inv (ne_uid env) s \<and> (r = Some 0 \<longrightarrow> arrived (ne_uid env) word s))"
    by (rule triple_weaken [OF enumerate_triple]) (auto intro: on_plan_inv [OF _ word])
  show ?thesis
    by (intro triple_bind [OF quiet_triple [OF quiet_asks(1)]] triple_if fail triple_bind [OF cmd] bad go)
qed

lemma connect_inv:
  assumes inv: "native_inv (ne_uid env) s" and run: "run_state (x1_native_connect env fuel word v) s = (r, s')"
  shows "native_inv (ne_uid env) s' \<and> (r = Some 0 \<longrightarrow> arrived (ne_uid env) word s')"
proof (cases "x1_native_connect_word_allowed word \<noteq> 0 \<or> \<not> v \<or> \<not> owner_is connect_ready s")
  case True
  with run have "s' = s" "r \<noteq> Some 0"
    by (auto simp: x1_native_connect_def Let_def run_simps split: if_splits)
  with inv show ?thesis by simp
next
  case False
  then obtain n where n: "native_owner s = Some n" "connect_ready n" by (auto simp: owner_is_def split: option.splits)
  let ?s = "s\<lparr>native_owner := Some (n\<lparr>n_attempted := True\<rparr>)\<rparr>"
  from False n run have "run_state (do { ok \<leftarrow> valid env;
          if \<not> ok then State_Monad.return (Some (- ENOTCONN))
          else do {
            ret \<leftarrow> ask (ne_int env) (N_connect word);
            if ret \<noteq> 0 then State_Monad.return (Some ret) else native_enumerate env fuel
          } }) ?s = (r, s')"
    by (simp add: x1_native_connect_def Let_def run_getn run_setn)
  moreover have "under_way [] 0 ?s"
    using inv n by (simp add: under_way_def owner_is_def connect_ready_def native_inv_def)
  moreover from False have "x1_native_connect_word_allowed word = 0" by simp
  ultimately show ?thesis using attempt_triple [THEN tripleD] by blast
qed

text \<open>The other calls do not touch what the invariant speaks of.\<close>

definition tame :: "native_state \<Rightarrow> native_state \<Rightarrow> bool" where
  "tame s s' \<longleftrightarrow> marks s' = marks s \<and> rescans s' = rescans s \<and> nv_pcie s' = nv_pcie s \<and>
     owner_is n_attempted s' = owner_is n_attempted s \<and> owner_is n_allow_pcie s' = owner_is n_allow_pcie s"

interpretation tame: history_order tame
  by unfold_locales (simp_all add: tame_def)

lemma tame_inv:
  assumes "tame s s'" and "native_inv lacie s"
  shows "native_inv lacie s'"
  using assms unfolding native_inv_def approve_in_marks tame_def by simp

lemma quiet_tame:
  assumes "quiet s s'"
  shows "tame s s'"
proof -
  from assms have f: "map_option flags (native_owner s') = map_option flags (native_owner s)" by (simp add: quiet_def)
  have "owner_is n_attempted s' = owner_is n_attempted s" "owner_is n_allow_pcie s' = owner_is n_allow_pcie s"
    by (rule owner_is_flags [OF f]; simp add: flags_def)+
  with assms show ?thesis by (simp add: tame_def quiet_def)
qed

lemma keeps_quiet_tame: "keeps quiet m \<Longrightarrow> keeps tame m"
  unfolding keeps_def by (blast intro: quiet_tame)

lemma tame_ask: "\<not> milestone e \<Longrightarrow> e \<noteq> N_rescan \<Longrightarrow> keeps tame (ask f e)"
  by (intro keeps_quiet_tame quiet_ask)

lemma tame_change:
  assumes "\<And>n. n_attempted (f n) = n_attempted n" and "\<And>n. n_allow_pcie (f n) = n_allow_pcie n"
  shows "keeps tame (change f)"
  using assms by (simp add: keeps_def run_simps tame_def owner_is_def split: option.split)

lemmas tame_steps = tame.keeps_rules tame_ask tame_change keeps_quiet_tame [OF quiet_getn]

lemma tame_rings: "keeps tame (rings_busy env is)"
  by (induction "is") (auto simp: milestone_def intro!: tame_steps)

lemma tame_bring_up: "keeps tame (native_bring_up env)"
  unfolding native_bring_up_def native_domain_def native_mask_def
  by (intro tame_steps tame_rings) (simp_all add: milestone_def)

lemma tame_start: "keeps tame (x1_native_start env dev router irq)"
  unfolding keeps_def
proof
  fix s :: native_state
  let ?s = "s\<lparr>nv_log := N_alloc # nv_log s\<rparr>"
  have alloc: "tame s ?s" by (simp add: tame_def milestone_def owner_is_def)
  show "tame s (snd (run_state (x1_native_start env dev router irq) s))"
  proof (cases "native_owner s")
    case None
    let ?t = "?s\<lparr>native_owner := Some native_zero\<rparr>"
    have "tame s ?t" using None by (simp add: tame_def milestone_def owner_is_def native_zero_def)
    moreover have "tame ?t (snd (run_state (native_bring_up env) ?t))" using tame_bring_up by (simp add: keeps_def)
    ultimately have "tame s (snd (run_state (native_bring_up env) ?t))" by (rule tame.trans)
    with None alloc show ?thesis by (simp add: x1_native_start_def run_simps owner_is_def tame.refl)
  qed (simp add: x1_native_start_def run_simps owner_is_def tame.refl)
qed

lemma tame_register: "keeps tame (x1_native_register_connect connect ctx)"
  unfolding x1_native_register_connect_def by (intro tame_steps) simp_all

lemma tame_guard: "keeps tame (x1_native_guard_router env t route header)"
  unfolding x1_native_guard_router_def Let_def by (intro tame_steps) (simp_all add: milestone_def)

lemma tame_stop: "keeps tame (x1_native_stop env)"
  unfolding x1_native_stop_def by (intro tame_steps) (simp_all add: milestone_def)

lemma step_inv: "native_step lacie s s' \<Longrightarrow> native_inv lacie s \<Longrightarrow> native_inv lacie s'"
proof (induction rule: native_step.induct)
  case (connect env fuel word v s r s')
  then show ?case using connect_inv by blast
next
  case (scan s' x s)
  have "quiet s s'" using scan(1) by (simp add: quiet_def scan_flags)
  with scan(2) show ?case by (blast intro: tame_inv quiet_tame)
qed (blast intro: tame_inv keepsD [OF tame_start] keepsD [OF tame_register] keepsD [OF tame_guard] keepsD [OF tame_stop])+

lemma native_reach_inv: "native_reach lacie s \<Longrightarrow> native_inv lacie s"
proof (induction rule: native_reach.induct)
  case init
  have "x1_native_connect_word_allowed 0x2501 = 0" by (simp add: x1_native_connect_word_allowed_def)
  then show ?case by (auto simp: native_inv_def native_init_def owner_is_def intro: pcie_reach.intros(1))
qed (rule step_inv)

section \<open>Without an approved disk\<close>

definition storage :: "native_event \<Rightarrow> bool" where
  "storage e = (case e of N_pcie_start \<Rightarrow> True | N_approve _ _ \<Rightarrow> True | N_set_authorized \<Rightarrow> True
     | N_pcie_train \<Rightarrow> True | N_pcie_scan \<Rightarrow> True | _ \<Rightarrow> False)"

text \<open>The history grows, and neither the bridge nor the tunnel is touched.\<close>

definition apart :: "native_state \<Rightarrow> native_state \<Rightarrow> bool" where
  "apart s s' \<longleftrightarrow> nv_pcie s' = nv_pcie s \<and> (\<exists>ds. nv_log s' = ds @ nv_log s \<and> list_all (\<lambda>e. \<not> storage e) ds)"

interpretation apart: history_order apart
proof unfold_locales
  fix s t u
  show "apart s s" by (simp add: apart_def)
  assume "apart s t" "apart t u"
  then obtain ds es where "nv_log t = ds @ nv_log s" "nv_log u = es @ nv_log t" "list_all (\<lambda>e. \<not> storage e) ds"
    "list_all (\<lambda>e. \<not> storage e) es" "nv_pcie u = nv_pcie s" unfolding apart_def by auto
  then show "apart s u" unfolding apart_def by (intro conjI exI [of _ "es @ ds"]) simp_all
qed

lemma apart_ask: "\<not> storage e \<Longrightarrow> keeps apart (ask f e)"
  by (auto simp: keeps_def run_simps apart_def)

lemma apart_silent: "keeps apart (getn f)" "keeps apart (setn g)" "keeps apart (native_deliver env)"
  by (simp_all add: keeps_def run_simps native_deliver_def apart_def)

lemmas apart_steps = apart.keeps_rules apart_ask apart_silent apart.keeps_case_option

lemma apart_round: "keeps apart (native_round env deadline b)"
  unfolding native_round_def native_rescan_def valid_def jiffies_now_def
  by (intro apart_steps) (simp_all add: storage_def)

lemma apart_poll: "keeps apart (native_poll env deadline fuel b)"
proof (induction fuel arbitrary: b)
  case (Suc fuel)
  show ?case unfolding native_poll.simps jiffies_now_def
    by (intro apart_steps apart_round Suc) (simp_all add: storage_def)
qed (simp add: apart.keeps_return)

text \<open>The loop reports success for the approved disk only.\<close>

lemma round_zero:
  "run_state (native_round env deadline b) s = ((r, b'), s') \<Longrightarrow> r = Some 0 \<Longrightarrow> ne_uid env \<noteq> 0"
  by (auto simp: native_round_def native_rescan_def valid_def jiffies_now_def run_ask run_getn native_deliver_def
      owner_is_def scan_error_def terminal_def switch_ret_def x1_native_uid_allowed_def Let_def
      split: if_splits option.splits)

lemma poll_zero: "run_state (native_poll env deadline fuel b) s = (Some 0, s') \<Longrightarrow> ne_uid env \<noteq> 0"
proof (induction fuel arbitrary: b s)
  case (Suc fuel)
  obtain r b' t where t: "run_state (native_round env deadline b) s = ((r, b'), t)" by (metis surj_pair)
  show ?case
  proof (cases r)
    case None
    with Suc.prems t Suc.IH show ?thesis by (auto simp: jiffies_now_def run_ask split: if_splits)
  next
    case (Some ret)
    with Suc.prems t round_zero [OF t] show ?thesis by simp
  qed
qed simp

lemma enumerate_closed:
  assumes "ne_uid env = 0" and "run_state (native_enumerate env fuel) s = (r, s')"
  shows "r \<noteq> Some 0 \<and> apart s s'"
proof -
  let ?t = "s\<lparr>nv_log := N_jiffies # nv_log s\<rparr>"
  let ?d = "ne_now env (N_jiffies # nv_log s) + ne_msecs env 20000"
  obtain q t where t: "run_state (native_poll env ?d fuel False) ?t = (q, t)" by (metis surj_pair)
  with poll_zero assms(1) have "q \<noteq> Some 0" by blast
  with assms(2) t have "r = q" "s' = t" by (auto simp: native_enumerate_def jiffies_now_def run_ask)
  moreover have "apart s ?t" by (simp add: apart_def storage_def)
  moreover from keepsD [OF apart_poll t] have "apart ?t t" .
  ultimately show ?thesis using \<open>q \<noteq> Some 0\<close> apart.trans by blast
qed

lemma connect_closed:
  assumes "ne_uid env = 0" and run: "run_state (x1_native_connect env fuel word v) s = (r, s')"
  shows "r \<noteq> Some 0 \<and> apart s s'"
proof -
  let ?s1 = "s\<lparr>native_owner := map_option (\<lambda>n. n\<lparr>n_attempted := True\<rparr>) (native_owner s)\<rparr>"
  let ?s2 = "?s1\<lparr>nv_log := N_valid # nv_log s\<rparr>"
  let ?s3 = "?s2\<lparr>nv_log := N_connect word # N_valid # nv_log s\<rparr>"
  have a: "apart s s" "apart s ?s2" "apart s ?s3" by (simp_all add: apart_def storage_def)
  show ?thesis
  proof (cases "run_state (native_enumerate env fuel) ?s3 = (r, s')")
    case True
    from enumerate_closed [OF assms(1) this] a(3) show ?thesis using apart.trans by blast
  next
    case False
    with run a show ?thesis
      by (auto simp: x1_native_connect_def Let_def run_simps valid_def x1_native_connect_word_allowed_def split: if_splits)
  qed
qed

section \<open>The loop ends\<close>

abbreviation sleeps :: "native_event list \<Rightarrow> nat" where
  "sleeps h \<equiv> length (filter (\<lambda>e. e = N_msleep) h)"

text \<open>
  What the loop relies on of the tick counter: it never goes back, a sleep advances it by at least one
  tick, and it is far from the end of its range while no more than \<open>n\<close> sleeps have passed.
\<close>

definition ticking :: "(native_event list \<Rightarrow> u64) \<Rightarrow> (native_event list \<Rightarrow> nat) \<Rightarrow> nat \<Rightarrow> bool" where
  "ticking now t n \<longleftrightarrow> (\<forall>h. now h = of_nat (t h) \<and> (\<forall>e. t h \<le> t (e # h)) \<and> t h < t (N_msleep # h) \<and>
     (sleeps h \<le> n \<longrightarrow> t h < 2 ^ 62))"

lemma ticking_append: "ticking now t n \<Longrightarrow> t h \<le> t (ds @ h)"
  by (induction ds) (auto simp: ticking_def intro: le_trans)

text \<open>A round of the loop does not sleep.\<close>

definition awake :: "native_state \<Rightarrow> native_state \<Rightarrow> bool" where
  "awake s s' \<longleftrightarrow> sleeps (nv_log s') = sleeps (nv_log s) \<and> suffix (nv_log s) (nv_log s')"

interpretation awake: history_order awake
  by unfold_locales (auto simp: awake_def intro: suffix_order.trans)

lemma awake_ask: "e \<noteq> N_msleep \<Longrightarrow> keeps awake (ask f e)"
  by (simp add: keeps_def run_simps awake_def suffix_Cons)

lemma awake_silent: "keeps awake (getn f)" "keeps awake (native_deliver env)"
  by (simp_all add: keeps_def run_simps native_deliver_def awake_def)

lemma awake_round: "keeps awake (native_round env deadline b)"
  unfolding native_round_def native_rescan_def valid_def jiffies_now_def
  by (intro awake.keeps_rules awake_ask awake_silent awake.keeps_case_option) simp_all

lemma before_deadline:
  assumes "a < 2 ^ 62" and "b < 2 ^ 63"
  shows "time_before (of_nat a) (of_nat b) \<longleftrightarrow> a < b"
proof -
  have "(of_nat a - of_nat b :: u64) = of_int (int a - int b)" by simp
  also have "sint \<dots> = signed_take_bit 63 (int a - int b)" by (simp only: signed_of_int) simp
  also have "\<dots> = int a - int b" using assms by (intro signed_take_bit_int_eq_self) simp_all
  finally show ?thesis by (simp add: time_before_def)
qed

text \<open>The check at the end of a round, in terms of the counter.\<close>

lemma round_check:
  assumes tick: "ticking (ne_now env) t n" and dl: "dl < 2 ^ 63" and s: "Suc (sleeps (nv_log s)) \<le> n"
    and u: "run_state (native_round env (of_nat dl) b) s = (x, u)"
  defines "h \<equiv> N_jiffies # N_msleep # nv_log u"
  shows "t (nv_log s) < t h" and "sleeps h = Suc (sleeps (nv_log s))"
    and "time_before (ne_now env h) (of_nat dl) \<longleftrightarrow> t h < dl"
proof -
  from keepsD [OF awake_round u] obtain ds where ds: "nv_log u = ds @ nv_log s" "sleeps (nv_log u) = sleeps (nv_log s)"
    by (auto simp: awake_def suffix_def)
  show sl: "sleeps h = Suc (sleeps (nv_log s))" by (simp add: h_def ds(2))
  have "t (nv_log s) \<le> t (nv_log u)" unfolding ds(1) by (rule ticking_append [OF tick])
  also have "\<dots> < t (N_msleep # nv_log u)" using tick unfolding ticking_def by blast
  also have "\<dots> \<le> t h" unfolding h_def using tick unfolding ticking_def by blast
  finally show "t (nv_log s) < t h" .
  have "t h < 2 ^ 62" "ne_now env h = of_nat (t h)" using tick s sl unfolding ticking_def by auto
  then show "time_before (ne_now env h) (of_nat dl) \<longleftrightarrow> t h < dl" using before_deadline dl by simp
qed

lemma poll_returns:
  assumes tick: "ticking (ne_now env) t n" and dl: "dl < 2 ^ 63"
    and "dl \<le> t (nv_log s) + fuel" and "sleeps (nv_log s) + Suc fuel \<le> n"
  shows "fst (run_state (native_poll env (of_nat dl) (Suc fuel) b) s) \<noteq> None"
  using assms(3,4)
proof (induction fuel arbitrary: s b)
  case (0 s b)
  obtain r b' u where u: "run_state (native_round env (of_nat dl) b) s = ((r, b'), u)" by (metis surj_pair)
  from 0 have "Suc (sleeps (nv_log s)) \<le> n" by simp
  from round_check [OF tick dl this u] 0(1) u show ?case by (cases r) (simp_all add: jiffies_now_def run_ask)
next
  case (Suc fuel s b)
  obtain r b' u where u: "run_state (native_round env (of_nat dl) b) s = ((r, b'), u)" by (metis surj_pair)
  let ?u = "u\<lparr>nv_log := N_jiffies # N_msleep # nv_log u\<rparr>"
  from Suc.prems(2) have "Suc (sleeps (nv_log s)) \<le> n" by simp
  note c = round_check [OF tick dl this u]
  have "fst (run_state (native_poll env (of_nat dl) (Suc fuel) b') ?u) \<noteq> None"
    using Suc.prems c(1,2) by (intro Suc.IH) simp_all
  with u show ?case
    unfolding native_poll.simps(2) [of env "of_nat dl" "Suc fuel"]
    by (cases r) (simp_all add: jiffies_now_def run_ask del: native_poll.simps)
qed

lemma enumerate_returns:
  assumes tick: "ticking (ne_now env) t (sleeps (nv_log s) + fuel)"
    and "unat (ne_msecs env 20000) < 2 ^ 62" and "unat (ne_msecs env 20000) < fuel"
  shows "fst (run_state (native_enumerate env fuel) s) \<noteq> None"
proof -
  let ?h = "N_jiffies # nv_log s"
  let ?dl = "t ?h + unat (ne_msecs env 20000)"
  have now: "ne_now env ?h + ne_msecs env 20000 = of_nat ?dl" using tick by (simp add: ticking_def)
  have "t ?h < 2 ^ 62" using tick unfolding ticking_def by simp
  with assms(2) have lt: "?dl < 2 ^ 63" by simp
  from assms(3) obtain n where n: "fuel = Suc n" "unat (ne_msecs env 20000) \<le> n" by (cases fuel) auto
  have "fst (run_state (native_poll env (of_nat ?dl) (Suc n) False) (s\<lparr>nv_log := ?h\<rparr>)) \<noteq> None"
    by (rule poll_returns [OF tick lt]) (simp_all add: n)
  then show ?thesis
    unfolding native_enumerate_def n(1)
    by (auto simp: jiffies_now_def run_ask now simp del: native_poll.simps of_nat_add split: prod.splits)
qed

section \<open>A disk that is approved\<close>

definition lab_switch :: tb_switch where
  "lab_switch = \<lparr>sw_uid = 0x1234, sw_unplugged = False, sw_link_usb4 = True, sw_authorized = False, sw_pcie_up = True\<rparr>"

definition lab_native :: native_env where
  "lab_native = \<lparr>ne_uid = 0x1234, ne_board = lab_board, ne_ring_enable = 0x80000000, ne_ok = \<lambda>_. True, ne_int = \<lambda>_. 0,
     ne_read = \<lambda>h. (case h of N_read_caps # _ \<Rightarrow> 3 | _ \<Rightarrow> 0), ne_probe = \<lambda>_. Some 1, ne_switch = \<lambda>_. Some lab_switch,
     ne_now = \<lambda>h. of_nat (length (filter (\<lambda>e. e = N_msleep) h)), ne_cfg = \<lambda>_. (0, 0x1234, 0), ne_scans = \<lambda>_. [],
     ne_pcie = \<lambda>_. lab_env, ne_msecs = of_nat\<rparr>"

definition lab_ready :: native_state where
  "lab_ready = snd (run_state (x1_native_register_connect True True)
     (snd (run_state (x1_native_start lab_native True True 5) native_init)))"

lemma lab_ready_reach: "native_reach 0x1234 lab_ready"
proof -
  have "ne_uid lab_native = 0x1234" by (simp add: lab_native_def)
  then have "native_reach 0x1234 (snd (run_state (x1_native_start lab_native True True 5) native_init))"
    by (metis native_reach.intros native_step.start surj_pair snd_conv)
  then show ?thesis unfolding lab_ready_def by (metis native_reach.step native_step.register surj_pair snd_conv)
qed

text \<open>The controller of the bridge's theory, through its three calls.\<close>

abbreviation lab_io :: "bridge_call x1_pci0_io" where
  "lab_io \<equiv> bio (pe_bridge lab_env)"

definition lab_power :: "bridge_event list" where
  "lab_power = [PHost Icc_cfg, PHost Icc_mem, PHost (Clk_enable 7), PHost (Clk_enable 6), PHost (Clk_enable 5),
     PHost (Clk_enable 4), PHost (Clk_enable 3), PHost (Clk_enable 2), PHost (Clk_enable 1), PHost (Clk_enable 0),
     PHost Pm_resume]"

definition lab_mode :: "bridge_event list" where
  "lab_mode = snd (run_state (x1_pci0_mode lab_io) (PHost Ecam_create # PHost Alloc_bridge # lab_power))"

definition lab_identity :: "bridge_event list" where
  "lab_identity = snd (run_state (root_identity lab_io) lab_mode)"

definition lab_setup :: "bridge_event list" where
  "lab_setup = snd (run_state (x1_pci0_setup lab_io) lab_identity)"

definition lab_identity2 :: "bridge_event list" where
  "lab_identity2 = snd (run_state (root_identity lab_io) lab_setup)"

lemma lab_mode: "run_state (x1_pci0_mode lab_io) (PHost Ecam_create # PHost Alloc_bridge # lab_power) = (0, lab_mode)"
proof -
  have "fst (run_state (x1_pci0_mode lab_io) (PHost Ecam_create # PHost Alloc_bridge # lab_power)) = 0" by code_simp
  then show ?thesis unfolding lab_mode_def by (metis prod.collapse)
qed

lemma lab_identity: "run_state (root_identity lab_io) lab_mode = (Inr 0xff000001, lab_identity)"
proof -
  have "fst (run_state (root_identity lab_io) lab_mode) = Inr 0xff000001" by code_simp
  then show ?thesis unfolding lab_identity_def by (metis prod.collapse)
qed

lemma lab_setup: "run_state (x1_pci0_setup lab_io) lab_identity = (0, lab_setup)"
proof -
  have "fst (run_state (x1_pci0_setup lab_io) lab_identity) = 0" by code_simp
  then show ?thesis unfolding lab_setup_def by (metis prod.collapse)
qed

lemma lab_identity2: "run_state (root_identity lab_io) lab_setup = (Inr 0xff000001, lab_identity2)"
proof -
  have "fst (run_state (root_identity lab_io) lab_setup) = Inr 0xff000001" by code_simp
  then show ?thesis unfolding lab_identity2_def by (metis prod.collapse)
qed

definition lab_up :: x1_bridge where
  "lab_up = bridge_zero\<lparr>b_attempted := True, b_enabled := 8, b_powered := True, b_log := PHost Host_probe # lab_identity2,
     b_root_class := 0xff000001, b_root_validated := True, b_root_fixup_done := True, b_ready := True\<rparr>"

lemma lab_powered: "run_state (bridge_power (pe_bridge lab_env)) (bridge_zero\<lparr>b_attempted := True\<rparr>) =
    (0, bridge_zero\<lparr>b_attempted := True, b_enabled := 8, b_powered := True, b_log := lab_power\<rparr>)"
  by (simp add: bridge_power_def host_def on_io_def setb_def lab_env_def bridge_zero_def lab_power_def upt_rec)

lemma lab_d0: "run_state (bridge_d0 (pe_bridge lab_env)) bridge_zero = (0, lab_up)"
proof -
  have call: "bcall (pe_bridge lab_env) h c = 0" for h c by (simp add: lab_env_def)
  have found: "found (pe_bridge lab_env) (PHost Host_probe # h) = [lab_root]" for h by (simp add: lab_env_def)
  have "run_state (bridge_bring_up (pe_bridge lab_env))
      (bridge_zero\<lparr>b_attempted := True, b_enabled := 8, b_powered := True, b_log := lab_power\<rparr>) = (0, lab_up)"
    by (simp add: bridge_bring_up_def host_def on_io_def call x1_root_validate_def setb_def getb_def fixup_all_def
        lab_mode lab_identity lab_setup lab_identity2 found x1_root_fixup_class_def fixup_applies_def bridge_zero_def
        lab_root_def lab_up_def)
  then show ?thesis by (simp add: bridge_d0_def setb_def lab_powered)
qed

definition lab_started :: pcie_state where
  "lab_started = pcie_init\<lparr>registered := True, registration_router := True, registration_window := False, bridge_owner := Some lab_up\<rparr>"

lemma lab_start: "x1_pcie_start lab_env True pcie_init = (0, lab_started)"
proof -
  have "root_property lab_board p" for p by (simp add: lab_board_def)
  then show ?thesis
    using lab_allowed lab_d0
    by (simp add: x1_pcie_start_def x1_bridge_probe_def bridge_acquire_def x1_bridge_init_resources_def
        lab_env_def pcie_init_def first_error_def lab_started_def lab_up_def)
qed

definition lab_trained :: pcie_state where
  "lab_trained = snd (x1_pcie_train lab_env lab_started)"

lemma lab_train: "x1_pcie_train lab_env lab_started = (0, lab_trained)"
proof -
  have "fst (run_state (run_ok [x1_pci0_train lab_io, x1_pci0_windows lab_io]) (PHost Host_probe # lab_identity2)) = 0"
    by code_simp
  then obtain h where "run_state (run_ok [x1_pci0_train lab_io, x1_pci0_windows lab_io]) (PHost Host_probe # lab_identity2) = (0, h)"
    by (metis prod.collapse)
  then have "fst (x1_pcie_train lab_env lab_started) = 0"
    by (simp add: x1_pcie_train_def lab_started_def lab_up_def bridge_train_def on_io_def setb_def bridge_zero_def del: run_ok.simps)
  then show ?thesis unfolding lab_trained_def by (metis prod.collapse)
qed

lemma lab_scan: "fst (x1_pcie_scan lab_env lab_trained) = 0"
proof -
  from lab_train have t: "run_state (bridge_train (pe_bridge lab_env)) lab_up =
      (0, case bridge_owner lab_trained of Some b \<Rightarrow> b)" and o: "bridge_owner lab_trained \<noteq> None"
    by (auto simp: x1_pcie_train_def lab_started_def lab_trained_def lab_up_def bridge_zero_def split: prod.splits)
  from t o obtain h where "bridge_owner lab_trained = Some (lab_up\<lparr>b_train_attempted := True, b_log := h, b_trained := True\<rparr>)"
    by (auto elim!: train_cases)
  moreover have "found (pe_bridge lab_env) (PHost Rescan # h) = [lab_root, lab_nvme]" for h by (simp add: lab_env_def)
  ultimately show ?thesis
    by (simp add: x1_pcie_scan_def lab_up_def bridge_zero_def bridge_scan_def setb_def getb_def host_def on_io_def
        fixup_all_def x1_root_fixup_class_def fixup_applies_def lab_root_def lab_nvme_def find_endpoint_def Let_def
        split: prod.splits)
qed

lemma lab_ready: "native_owner lab_ready = Some (native_zero\<lparr>n_tb := Some 1, n_live := True, n_connect := True\<rparr>)"
    "nv_pcie lab_ready = pcie_init" "sleeps (nv_log lab_ready) = 0"
proof -
  have "root_property lab_board p" for p by (simp add: lab_board_def)
  then show "native_owner lab_ready = Some (native_zero\<lparr>n_tb := Some 1, n_live := True, n_connect := True\<rparr>)"
    "nv_pcie lab_ready = pcie_init" "sleeps (nv_log lab_ready) = 0"
    by (simp_all add: lab_ready_def x1_native_start_def x1_native_register_connect_def native_bring_up_def native_domain_def
        lab_native_def native_init_def native_zero_def run_simps owner_is_def)
qed

lemma lab_connects: "fst (run_state (x1_native_connect lab_native 1 0x2501 True) lab_ready) = Some 0"
proof -
  have e: "ne_pcie lab_native h = lab_env" "ne_ok lab_native h" "ne_int lab_native h = 0"
    "ne_switch lab_native h = Some lab_switch" "ne_scans lab_native h = []" "ne_uid lab_native = 0x1234" for h
    by (simp_all add: lab_native_def)
  have w: "x1_native_connect_word_allowed 0x2501 = 0" by (simp add: x1_native_connect_word_allowed_def)
  have sw: "switch_ret 0x1234 lab_switch = 0" by (simp add: switch_ret_def x1_native_uid_allowed_def lab_switch_def)
  have up: "x1_native_uid_allowed 0x1234 2 (sw_uid lab_switch) = 0"
    "\<not> sw_unplugged lab_switch" "sw_link_usb4 lab_switch" "\<not> sw_authorized lab_switch" "sw_pcie_up lab_switch"
    by (simp_all add: x1_native_uid_allowed_def lab_switch_def)
  show ?thesis
    by (simp add: x1_native_connect_def w run_simps lab_ready owner_is_def connect_ready_def native_zero_def valid_def e
        native_enumerate_def jiffies_now_def native_round_def native_deliver_def terminal_def scan_error_def sw
        x1_native_prepare_storage_def still_valid_def pcie_def lab_start native_tunnel_def up native_approve_def
        lab_train lab_scan split_beta)
qed

section \<open>Properties\<close>

text \<open>
  C4. In every state that any sequence of calls can reach, with any answers of the hardware, the
  connection manager and the bridge: what has been committed so far is an initial part, in order, of
  one attempt, that is one permitted connect command, the start of PCI0, the approval of the tunnel,
  its authorization, training and scan, each at most once; the only switch ever approved is the disk of
  the build's unique id, plugged in over USB4, not authorized before and with a PCIe upstream port, and
  the PCIe authorization is in force during that approval and never between calls; at most one rescan
  was made; and the bridge is in a state its own driver can reach.
\<close>

theorem native_single_attempt:
  assumes "native_reach lacie s"
  shows "(\<exists>word sw. suffix (marks s) (native_plan word sw) \<and> word \<in> {0x2501, 0x2701} \<and>
      (N_approve sw True \<in> set (nv_log s) \<longrightarrow> approved lacie sw)) \<and>
    rescans s \<le> 1 \<and> \<not> x1_native_pcie_authorizing (native_owner s) tb \<and> pcie_reach (nv_pcie s)"
proof -
  note inv = native_reach_inv [OF assms]
  have "\<not> x1_native_pcie_authorizing (native_owner s) tb"
    using inv by (auto simp: native_inv_def owner_is_def x1_native_pcie_authorizing_def split: option.splits)
  moreover have "x1_native_connect_word_allowed word = 0 \<Longrightarrow> word \<in> {0x2501, 0x2701}" for word
    by (auto simp: x1_native_connect_word_allowed_def split: if_splits)
  ultimately show ?thesis using inv unfolding native_inv_def by blast
qed

theorem native_single_attempt_witness:
  "native_reach 0x1234 lab_ready \<and> rescans lab_ready \<le> 1 \<and> pcie_reach (nv_pcie lab_ready)"
  using native_single_attempt [OF lab_ready_reach] lab_ready_reach by blast

text \<open>
  C5. A connect that succeeds has carried out the whole plan for the word it was given and for an approved
  disk, and it leaves the bridge exposed to the storage driver, which is allowed on exactly one device.
\<close>

theorem native_connect_exposes:
  assumes "native_reach (ne_uid env) s" and "run_state (x1_native_connect env fuel word v) s = (Some 0, s')"
  shows "\<exists>sw d. approved (ne_uid env) sw \<and> marks s' = native_plan word sw \<and> stage_of (nv_pcie s') = Exposed \<and>
    (\<forall>x. x1_native_nvme_allowed (bridge_owner (nv_pcie s')) x \<longleftrightarrow> x = d)"
proof -
  from connect_inv [OF native_reach_inv [OF assms(1)] assms(2)] obtain sw where
    sw: "approved (ne_uid env) sw" "under_way (native_plan word sw) 1 s'" "stage_of (nv_pcie s') = Exposed"
    unfolding arrived_def by blast
  from sw(3) obtain b where b: "bridge_owner (nv_pcie s') = Some b" "b_endpoint_validated b"
    by (auto simp: stage_of_def split: option.splits if_splits)
  from sw(2) have "pcie_inv (nv_pcie s')" by (intro reach_inv) (simp add: under_way_def)
  with b obtain d where "b_endpoint b = Some d" unfolding pcie_inv_def bridge_inv_def by auto
  with b have "\<forall>x. x1_native_nvme_allowed (bridge_owner (nv_pcie s')) x \<longleftrightarrow> x = d"
    by (auto simp: x1_native_nvme_allowed_def)
  with sw show ?thesis unfolding under_way_def by blast
qed

theorem native_connect_exposes_witness:
  "\<exists>s'. run_state (x1_native_connect lab_native 1 0x2501 True) lab_ready = (Some 0, s') \<and> stage_of (nv_pcie s') = Exposed"
proof -
  have uid: "native_reach (ne_uid lab_native) lab_ready" using lab_ready_reach by (simp add: lab_native_def)
  obtain s' where run: "run_state (x1_native_connect lab_native 1 0x2501 True) lab_ready = (Some 0, s')"
    using lab_connects by (metis prod.collapse)
  with native_connect_exposes [OF uid run] show ?thesis by blast
qed

text \<open>
  C6. The public snapshot fails closed.  With its empty disk identity no connect succeeds, whatever the
  hardware answers: the bridge is never started, trained or scanned and no tunnel is approved.  In the
  domain of the X1 test device the router guard refuses every router but the host itself; it does not
  concern any other domain, whose routers it lets pass without asking anything.
\<close>

theorem native_public_closed:
  assumes "ne_uid env = X1_NATIVE_LACIE_UID" and "run_state (x1_native_connect env fuel word v) s = (r, s')"
  shows "r \<noteq> Some 0 \<and> nv_pcie s' = nv_pcie s \<and>
    (\<exists>ds. nv_log s' = ds @ nv_log s \<and> list_all (\<lambda>e. \<not> storage e) ds) \<and>
    (x1_native_test tb \<and> route \<noteq> 0 \<longrightarrow> fst (run_state (x1_native_guard_router env tb route header) s) \<noteq> 0) \<and>
    (\<not> x1_native_test tb \<longrightarrow> run_state (x1_native_guard_router env tb route header) s = (0, s))"
proof -
  from assms(1) have uid: "ne_uid env = 0" by (simp add: X1_NATIVE_LACIE_UID_def)
  have "fst (run_state (x1_native_guard_router env tb route header) s) \<noteq> 0" if "x1_native_test tb" "route \<noteq> 0"
    using that uid by (simp add: x1_native_guard_router_def run_ask x1_native_uid_allowed_def Let_def split: prod.split)
  moreover have "run_state (x1_native_guard_router env tb route header) s = (0, s)" if "\<not> x1_native_test tb"
    using that by (simp add: x1_native_guard_router_def)
  ultimately show ?thesis using connect_closed [OF uid assms(2)] by (auto simp: apart_def)
qed

theorem native_public_closed_witness:
  "fst (run_state (x1_native_connect (lab_native\<lparr>ne_uid := 0\<rparr>) 1 0x2501 True) lab_ready) \<noteq> Some 0 \<and>
   fst (run_state (x1_native_guard_router (lab_native\<lparr>ne_uid := 0\<rparr>)
     (Some \<lparr>tb_id = 1, tb_nhi_dev = Some (Some (\<lambda>_. True))\<rparr>) 2 (Some (0x113b059f, 0x14120, 0, 0, 0))) lab_ready) \<noteq> 0"
proof -
  have uid: "ne_uid (lab_native\<lparr>ne_uid := 0\<rparr>) = X1_NATIVE_LACIE_UID" by (simp add: X1_NATIVE_LACIE_UID_def)
  obtain r s' where run: "run_state (x1_native_connect (lab_native\<lparr>ne_uid := 0\<rparr>) 1 0x2501 True) lab_ready = (r, s')"
    by (metis surj_pair)
  have "x1_native_test (Some \<lparr>tb_id = 1, tb_nhi_dev = Some (Some (\<lambda>_. True))\<rparr>)" by (simp add: x1_native_test_def)
  with native_public_closed [OF uid run] run show ?thesis by simp
qed

text \<open>
  C10. A connect always returns: with a tick counter that never goes back and that a sleep advances, the
  twenty seconds of the polling loop are a bound on its rounds, whatever else the hardware, the
  connection manager or the bridge do.
\<close>

theorem native_connect_returns:
  assumes "ticking (ne_now env) t (sleeps (nv_log s) + fuel)"
    and "unat (ne_msecs env 20000) < 2 ^ 62" and "unat (ne_msecs env 20000) < fuel"
  shows "\<exists>ret. fst (run_state (x1_native_connect env fuel word v) s) = Some ret"
proof -
  have "fst (run_state (native_enumerate env fuel) u) \<noteq> None" if "sleeps (nv_log u) = sleeps (nv_log s)" for u
    using assms that by (intro enumerate_returns) simp_all
  then have "fst (run_state (x1_native_connect env fuel word v) s) \<noteq> None"
    by (simp add: x1_native_connect_def Let_def run_simps valid_def)
  then show ?thesis by blast
qed

theorem native_connect_returns_witness:
  "\<exists>ret. fst (run_state (x1_native_connect (lab_native\<lparr>ne_switch := \<lambda>_. None\<rparr>) 20001 0x2501 True) lab_ready) = Some ret"
proof -
  let ?env = "lab_native\<lparr>ne_switch := \<lambda>_. None\<rparr>"
  have "ticking (ne_now ?env) sleeps (sleeps (nv_log lab_ready) + 20001)"
    unfolding lab_ready(3) by (simp add: ticking_def lab_native_def)
  moreover have "unat (ne_msecs ?env 20000) = 20000" by (simp add: lab_native_def unat_of_nat)
  ultimately show ?thesis by (intro native_connect_returns) simp_all
qed

end
