(* ===== verification/X1_Packets.thy ===== *)
theory X1_Packets
  imports X1_Prelude
begin

text \<open>
  The private Thunderbolt control packets of \<open>snapshot/kernel/drivers/thunderbolt/\<close>: the fixed
  router read of \<open>x1-diag-packet.h\<close>, hotplug events and their acknowledgement
  (\<open>x1-event-packet.h\<close>), the bounded reads of \<open>x1-link-packet.h\<close> and the white-listed writes of
  \<open>x1-enum-packet.h\<close>.

  The checksum \<open>crc32c(seed, data, len)\<close> is supplied by the kernel: it is the parameter \<open>crc\<close>
  of every definition, and no property needs anything of it but that it is a function.  A packet
  is read from a buffer \<open>wire\<close> of which \<open>sz\<close> bytes were received; reads behind the end of the
  buffer are \<^const>\<open>None\<close>, as are arrays of words that are shorter than what the code accesses.
\<close>

type_synonym crc32c = "u32 \<Rightarrow> u8 list \<Rightarrow> u32"

section \<open>Data\<close>

record x1_plug_event =
  ev_port :: u32
  ev_unplug :: bool

record x1_read_spec =
  rs_route :: u32
  rs_port :: u32
  rs_space :: u32
  rs_offset :: u32
  rs_words :: u32
  rs_seq :: u32

record x1_write_spec =
  ws_port :: u32
  ws_space :: u32
  ws_offset :: u32
  ws_words :: u32
  ws_seq :: u32
  ws_before :: "u32 list option"
  ws_after :: "u32 list option"
  ws_route :: u32

section \<open>The fixed router read (x1-diag-packet.h)\<close>

definition X1_READ_WORDS :: nat where "X1_READ_WORDS = 5"
definition X1_REPLY_BYTES :: nat where "X1_REPLY_BYTES = 16 + 4 * X1_READ_WORDS"

definition seal :: "crc32c \<Rightarrow> u8 list \<Rightarrow> nat \<Rightarrow> u32" where
  "seal crc wire n = NOT (crc (NOT 0) (take n wire))"

definition diag_address :: "u32 \<Rightarrow> u32" where
  "diag_address seq = push_bit 13 5 OR push_bit 25 2 OR push_bit 27 seq"

text \<open>Everything but the port field of an address.\<close>

definition no_port :: "u32 \<Rightarrow> u32" where
  "no_port addr = addr AND NOT (push_bit 19 0x3f)"

definition x1_packet_request :: "crc32c \<Rightarrow> u8 list \<Rightarrow> u32 \<Rightarrow> u8 list option" where
  "x1_packet_request crc wire seq = do {
     wire \<leftarrow> put_unaligned_be32 0 wire 0;
     wire \<leftarrow> put_unaligned_be32 0 wire 4;
     wire \<leftarrow> put_unaligned_be32 (diag_address seq) wire 8;
     put_unaligned_be32 (seal crc wire 12) wire 12
   }"

definition x1_packet_reply ::
    "crc32c \<Rightarrow> u8 list \<Rightarrow> nat \<Rightarrow> u32 \<Rightarrow> u32 \<Rightarrow> u32 \<Rightarrow> u32 list \<Rightarrow> (int \<times> u32 list) option" where
  "x1_packet_reply crc wire sz sof eof seq words =
     (if sz \<noteq> X1_REPLY_BYTES \<or> sof \<noteq> 0 \<or> eof \<noteq> 1 \<or> seq > 1 then Some (- EPROTO, words)
      else do {
        sum \<leftarrow> get_unaligned_be32 wire (sz - 4);
        if sum \<noteq> seal crc wire (sz - 4) then Some (- EBADMSG, words)
        else do {
          hi \<leftarrow> get_unaligned_be32 wire 0;
          lo \<leftarrow> get_unaligned_be32 wire 4;
          if hi \<noteq> 0x80000000 \<or> lo \<noteq> 0 then Some (- EPROTO, words)
          else do {
            addr \<leftarrow> get_unaligned_be32 wire 8;
            if no_port addr \<noteq> diag_address seq then Some (- EPROTO, words)
            else do {
              ws \<leftarrow> get_be32_words wire 12 X1_READ_WORDS;
              words' \<leftarrow> put_words words ws;
              Some (0, words')
            }
          }
        }
      })"

section \<open>Hotplug events (x1-event-packet.h)\<close>

definition X1_EVENT_LIMIT :: nat where "X1_EVENT_LIMIT = 16"

definition x1_event_decode ::
    "crc32c \<Rightarrow> u8 list option \<Rightarrow> nat \<Rightarrow> u32 \<Rightarrow> u32 \<Rightarrow> x1_plug_event option \<Rightarrow>
     (int \<times> x1_plug_event option) option" where
  "x1_event_decode crc buf sz sof eof event =
     (case (buf, event) of
        (Some wire, Some _) \<Rightarrow>
          if sz \<noteq> 16 \<or> sof \<noteq> 0 \<or> eof \<noteq> 5 then Some (- EPROTO, event)
          else do {
            sum \<leftarrow> get_unaligned_be32 wire 12;
            if sum \<noteq> seal crc wire 12 then Some (- EBADMSG, event)
            else do {
              hi \<leftarrow> get_unaligned_be32 wire 0;
              lo \<leftarrow> get_unaligned_be32 wire 4;
              if hi \<noteq> 0x80000000 \<or> lo \<noteq> 0 then Some (- EPROTO, event)
              else do {
                data \<leftarrow> get_unaligned_be32 wire 8;
                if data AND 0x7fffffc0 \<noteq> 0 \<or> (data AND 0x3f \<noteq> 2 \<and> data AND 0x3f \<noteq> 3)
                then Some (- EPROTO, event)
                else Some (0, Some \<lparr>ev_port = data AND 0x3f, ev_unplug = (data AND 0x80000000 \<noteq> 0)\<rparr>)
              }
            }
          }
      | _ \<Rightarrow> Some (- EINVAL, event))"

definition ack_word :: "x1_plug_event \<Rightarrow> u32" where
  "ack_word ev = (if ev_unplug ev then 0xc0000000 else 0x80000000) OR push_bit 8 (ev_port ev) OR 7"

definition x1_event_ack ::
    "crc32c \<Rightarrow> u8 list option \<Rightarrow> x1_plug_event option \<Rightarrow> (int \<times> u8 list option) option" where
  "x1_event_ack crc buf event =
     (case (buf, event) of
        (Some wire, Some ev) \<Rightarrow>
          if ev_port ev \<noteq> 2 \<and> ev_port ev \<noteq> 3 then Some (- EINVAL, buf)
          else do {
            wire \<leftarrow> put_unaligned_be32 0 wire 0;
            wire \<leftarrow> put_unaligned_be32 0 wire 4;
            wire \<leftarrow> put_unaligned_be32 (ack_word ev) wire 8;
            wire \<leftarrow> put_unaligned_be32 (seal crc wire 12) wire 12;
            Some (0, Some wire)
          }
      | _ \<Rightarrow> Some (- EINVAL, buf))"

section \<open>Bounded reads (x1-link-packet.h)\<close>

definition cfg_address :: "u32 \<Rightarrow> u32 \<Rightarrow> u32 \<Rightarrow> u32 \<Rightarrow> u32 \<Rightarrow> u32" where
  "cfg_address offset words port space seq =
     offset OR push_bit 13 words OR push_bit 19 port OR push_bit 25 space OR push_bit 27 seq"

definition read_spec_bad :: "x1_read_spec \<Rightarrow> bool" where
  "read_spec_bad s \<longleftrightarrow>
     (rs_route s \<noteq> 0 \<and> rs_route s \<noteq> 2) \<or> rs_port s > 7 \<or> rs_seq s > 3 \<or>
     rs_words s = 0 \<or> rs_words s > 8 \<or> rs_offset s > 255 \<or> rs_offset s + rs_words s > 256 \<or>
     (rs_space s \<noteq> 1 \<and> rs_space s \<noteq> 2) \<or>
     (rs_space s = 2 \<and> (rs_port s \<noteq> 0 \<or>
        \<not> ((rs_offset s = 0 \<and> rs_words s = 5) \<or>
           (rs_offset s = 5 \<and> rs_words s = 4) \<or>
           (rs_route s = 2 \<and> (rs_offset s = 5 \<or> rs_offset s = 6) \<and> rs_words s = 1) \<or>
           (rs_offset s \<ge> 9 \<and> rs_words s \<le> 2)))) \<or>
     (rs_space s = 1 \<and> (rs_port s = 0 \<or> (rs_route s \<noteq> 0 \<and> rs_port s > 5)))"

definition x1_read_address :: "x1_read_spec option \<Rightarrow> u32 option \<Rightarrow> int \<times> u32 option" where
  "x1_read_address spec address =
     (case (spec, address) of
        (Some s, Some _) \<Rightarrow>
          if read_spec_bad s then (- EINVAL, address)
          else (0, Some (cfg_address (rs_offset s) (rs_words s) (rs_port s) (rs_space s) (rs_seq s)))
      | _ \<Rightarrow> (- EINVAL, address))"

text \<open>
  \<open>u32 address;\<close> without an initial value: the functions use it only when
  \<^const>\<open>x1_read_address\<close> returned 0.
\<close>

definition x1_read_request ::
    "crc32c \<Rightarrow> u8 list option \<Rightarrow> x1_read_spec option \<Rightarrow> (int \<times> u8 list option) option" where
  "x1_read_request crc buf spec =
     (case x1_read_address spec (Some 0) of
        (ret, address) \<Rightarrow>
          if ret \<noteq> 0 then Some (ret, buf)
          else (case (buf, spec, address) of
             (Some wire, Some s, Some addr) \<Rightarrow> do {
               wire \<leftarrow> put_unaligned_be32 0 wire 0;
               wire \<leftarrow> put_unaligned_be32 (rs_route s) wire 4;
               wire \<leftarrow> put_unaligned_be32 addr wire 8;
               wire \<leftarrow> put_unaligned_be32 (seal crc wire 12) wire 12;
               Some (0, Some wire)
             }
           | _ \<Rightarrow> Some (- EINVAL, buf)))"

definition x1_read_reply ::
    "crc32c \<Rightarrow> u8 list option \<Rightarrow> nat \<Rightarrow> u32 \<Rightarrow> u32 \<Rightarrow> x1_read_spec option \<Rightarrow> u32 list option \<Rightarrow>
     (int \<times> u32 list option) option" where
  "x1_read_reply crc buf sz sof eof spec words =
     (case x1_read_address spec (Some 0) of
        (ret, address) \<Rightarrow>
          if ret \<noteq> 0 then Some (ret, words)
          else (case (buf, words, spec, address) of
             (Some wire, Some arr, Some s, Some addr) \<Rightarrow>
               if sz < 16 \<or> sz > 48 \<or> sof \<noteq> 0 \<or> sz mod 4 \<noteq> 0 then Some (- EPROTO, words)
               else do {
                 sum \<leftarrow> get_unaligned_be32 wire (sz - 4);
                 if sum \<noteq> seal crc wire (sz - 4) then Some (- EBADMSG, words)
                 else if eof = 3 then Some (if sz \<noteq> 16 then - EPROTO else - ENOLINK, words)
                 else do {
                   hi \<leftarrow> get_unaligned_be32 wire 0;
                   lo \<leftarrow> get_unaligned_be32 wire 4;
                   if eof \<noteq> 1 \<or> sz \<noteq> 16 + 4 * unat (rs_words s) \<or> hi \<noteq> 0x80000000 \<or> lo \<noteq> rs_route s
                   then Some (- EPROTO, words)
                   else do {
                     got \<leftarrow> get_unaligned_be32 wire 8;
                     if no_port got \<noteq> no_port addr then Some (- EPROTO, words)
                     else do {
                       ws \<leftarrow> get_be32_words wire 12 (unat (rs_words s));
                       arr \<leftarrow> put_words arr ws;
                       Some (0, Some arr)
                     }
                   }
                 }
               }
           | _ \<Rightarrow> Some (- EINVAL, words)))"

section \<open>White-listed writes (x1-enum-packet.h)\<close>

definition x1_root_plan :: "u32 list option \<Rightarrow> u32 list option \<Rightarrow> (int \<times> u32 list option) option" where
  "x1_root_plan header out =
     (case (header, out) of
        (Some hs, Some arr) \<Rightarrow>
          (case hs of
             h0 # h1 # h2 # h3 # h4 # _ \<Rightarrow>
               if h0 \<noteq> 0x093805c6 \<or> h1 \<noteq> 0x0101c11c \<or> h2 \<noteq> 0 \<or> h3 \<noteq> 0 \<or> h4 \<noteq> 0x2000000a
               then Some (- EPERM, out)
               else do {
                 arr \<leftarrow> put_words arr [h1, h2, h3 OR 0x80000000, (h4 AND 0xffff0000) OR 0x10ff];
                 Some (0, Some arr)
               }
           | _ \<Rightarrow> None)
      | _ \<Rightarrow> Some (- EPERM, out))"

definition x1_external_plan :: "u32 list option \<Rightarrow> u32 list option \<Rightarrow> (int \<times> u32 list option) option" where
  "x1_external_plan header out =
     (case (header, out) of
        (Some hs, Some arr) \<Rightarrow>
          (case hs of
             h0 # h1 # h2 # h3 # h4 # _ \<Rightarrow>
               if h0 \<noteq> 0x113b059f \<or> h1 \<noteq> 0x00014120 \<or> h2 \<noteq> 0 \<or> h3 \<noteq> 0 \<or> h4 \<noteq> 0x2000000a
               then Some (- EPERM, out)
               else do {
                 arr \<leftarrow> put_words arr [h1 OR push_bit 20 1, 2, 0x80000000, 0x200010ff];
                 Some (0, Some arr)
               }
           | _ \<Rightarrow> None)
      | _ \<Rightarrow> Some (- EPERM, out))"

definition x1_external_setup_plan :: "u32 \<Rightarrow> u32 option \<Rightarrow> int \<times> u32 option" where
  "x1_external_setup_plan before after =
     (if after = None \<or> before AND 0x8700000f \<noteq> 0 then (- EPERM, after)
      else (0, Some (before AND NOT 0x00800000)))"

text \<open>The contents checks of the four cases; an array has as many words as the write.\<close>

definition external_header_ok :: "u32 list \<Rightarrow> u32 list \<Rightarrow> bool option" where
  "external_header_ok before after =
     (case (before, after) of
        (b0 # b1 # b2 # b3 # _, a0 # a1 # a2 # a3 # _) \<Rightarrow>
          Some (b0 = 0x00014120 \<and> b1 = 0 \<and> b2 = 0 \<and> b3 = 0x2000000a \<and>
                a0 = 0x00114120 \<and> a1 = 2 \<and> a2 = 0x80000000 \<and> a3 = 0x200010ff)
      | _ \<Rightarrow> None)"

definition external_setup_ok :: "u32 list \<Rightarrow> u32 list \<Rightarrow> bool option" where
  "external_setup_ok before after =
     (case (before, after) of
        (b0 # _, a0 # _) \<Rightarrow>
          (case x1_external_setup_plan b0 (Some 0) of
             (ret, expected) \<Rightarrow> Some (ret = 0 \<and> Some a0 = expected))
      | _ \<Rightarrow> None)"

definition root_header_ok :: "u32 list \<Rightarrow> u32 list \<Rightarrow> bool option" where
  "root_header_ok before after =
     (case (before, after) of
        (b0 # b1 # b2 # b3 # _, a0 # a1 # a2 # a3 # _) \<Rightarrow>
          Some (b0 = 0x0101c11c \<and> b1 = 0 \<and> b2 = 0 \<and> b3 = 0x2000000a \<and>
                a0 = b0 \<and> a1 = 0 \<and> a2 = 0x80000000 \<and> a3 = 0x200010ff)
      | _ \<Rightarrow> None)"

definition unlock_ok :: "u32 list \<Rightarrow> u32 list \<Rightarrow> bool option" where
  "unlock_ok before after =
     (case (before, after) of
        (b0 # _, a0 # _) \<Rightarrow> Some (b0 AND 0x80000000 \<noteq> 0 \<and> a0 = b0 AND 0x7fffffff)
      | _ \<Rightarrow> None)"

definition write_contents_ok :: "x1_write_spec \<Rightarrow> u32 list \<Rightarrow> u32 list \<Rightarrow> bool option" where
  "write_contents_ok s before after =
     (if ws_route s = 2 then
        if ws_port s \<noteq> 0 \<or> ws_space s \<noteq> 2 then Some False
        else if ws_offset s = 1 \<and> ws_words s = 4 then external_header_ok before after
        else if ws_offset s = 5 \<and> ws_words s = 1 then external_setup_ok before after
        else Some False
      else if ws_route s \<noteq> 0 then Some False
      else if ws_port s = 0 \<and> ws_space s = 2 \<and> ws_offset s = 1 \<and> ws_words s = 4
      then root_header_ok before after
      else if ws_port s = 2 \<and> ws_space s = 1 \<and> ws_offset s = 4 \<and> ws_words s = 1
      then unlock_ok before after
      else Some False)"

definition x1_write_address ::
    "x1_write_spec option \<Rightarrow> u32 option \<Rightarrow> (int \<times> u32 option) option" where
  "x1_write_address spec address =
     (case (spec, address) of
        (Some s, Some _) \<Rightarrow>
          (case (ws_before s, ws_after s) of
             (Some before, Some after) \<Rightarrow>
               if ws_seq s > 3 then Some (- EINVAL, address)
               else do {
                 ok \<leftarrow> write_contents_ok s before after;
                 Some (if ok then (0, Some (cfg_address (ws_offset s) (ws_words s) (ws_port s)
                                        (ws_space s) (ws_seq s)))
                       else (- EPERM, address))
               }
           | _ \<Rightarrow> Some (- EINVAL, address))
      | _ \<Rightarrow> Some (- EINVAL, address))"

text \<open>The loop over \<open>after[i]\<close>.\<close>

fun put_be32_words :: "u32 list \<Rightarrow> nat \<Rightarrow> nat \<Rightarrow> u8 list \<Rightarrow> u8 list option" where
  "put_be32_words ws off 0 wire = Some wire"
| "put_be32_words [] off (Suc n) wire = None"
| "put_be32_words (w # ws) off (Suc n) wire = do {
     wire \<leftarrow> put_unaligned_be32 w wire off;
     put_be32_words ws (off + 4) n wire
   }"

definition x1_write_request ::
    "crc32c \<Rightarrow> u8 list option \<Rightarrow> x1_write_spec option \<Rightarrow> (int \<times> u8 list option) option" where
  "x1_write_request crc buf spec = do {
     (ret, address) \<leftarrow> x1_write_address spec (Some 0);
     if ret \<noteq> 0 then Some (ret, buf)
     else (case (buf, spec, address) of
        (Some wire, Some s, Some addr) \<Rightarrow> do {
          wire \<leftarrow> put_unaligned_be32 0 wire 0;
          wire \<leftarrow> put_unaligned_be32 (ws_route s) wire 4;
          wire \<leftarrow> put_unaligned_be32 addr wire 8;
          wire \<leftarrow> put_be32_words (case ws_after s of Some after \<Rightarrow> after | None \<Rightarrow> []) 12
                   (unat (ws_words s)) wire;
          let n = 12 + 4 * unat (ws_words s);
          wire \<leftarrow> put_unaligned_be32 (seal crc wire n) wire n;
          Some (0, Some wire)
        }
      | _ \<Rightarrow> Some (- EINVAL, buf))
   }"

definition x1_write_reply ::
    "crc32c \<Rightarrow> u8 list option \<Rightarrow> nat \<Rightarrow> u32 \<Rightarrow> u32 \<Rightarrow> x1_write_spec option \<Rightarrow> int option" where
  "x1_write_reply crc buf sz sof eof spec = do {
     (ret, address) \<leftarrow> x1_write_address spec (Some 0);
     if ret \<noteq> 0 then Some ret
     else (case (buf, spec, address) of
        (Some wire, Some s, Some addr) \<Rightarrow>
          if sz \<noteq> 16 \<or> sof \<noteq> 0 then Some (- EPROTO)
          else do {
            sum \<leftarrow> get_unaligned_be32 wire 12;
            if sum \<noteq> seal crc wire 12 then Some (- EBADMSG)
            else if eof = 3 then Some (- ENOLINK)
            else do {
              hi \<leftarrow> get_unaligned_be32 wire 0;
              lo \<leftarrow> get_unaligned_be32 wire 4;
              if eof \<noteq> 2 \<or> hi \<noteq> 0x80000000 \<or> lo \<noteq> ws_route s then Some (- EPROTO)
              else do {
                got \<leftarrow> get_unaligned_be32 wire 8;
                Some (if no_port got = no_port addr then 0 else - EPROTO)
              }
            }
          }
      | _ \<Rightarrow> Some (- EINVAL))
   }"

section \<open>Reference: sealed frames\<close>

text \<open>A frame is a list of big-endian words followed by the complement of its checksum.\<close>

definition words_wire :: "u32 list \<Rightarrow> u8 list" where
  "words_wire ws = concat (map be32_bytes ws)"

definition cfg_frame :: "crc32c \<Rightarrow> u32 list \<Rightarrow> u8 list" where
  "cfg_frame crc ws = words_wire ws @ be32_bytes (NOT (crc (NOT 0) (words_wire ws)))"

lemma length_words_wire [simp]: "length (words_wire ws) = 4 * length ws"
  by (induction ws) (simp_all add: words_wire_def)

lemma length_cfg_frame [simp]: "length (cfg_frame crc ws) = 4 * length ws + 4"
  by (simp add: cfg_frame_def)

lemma words_wire_append: "words_wire (vs @ ws) = words_wire vs @ words_wire ws"
  by (simp add: words_wire_def)

lemma words_wire_Cons: "words_wire (w # ws) = be32_bytes w @ words_wire ws"
  by (simp add: words_wire_def)

lemma get_words_wire: "get_be32_words (xs @ words_wire ws @ rest) (length xs) (length ws) = Some ws"
proof (induction ws arbitrary: xs)
  case (Cons w ws)
  from Cons [of "xs @ be32_bytes w"] show ?case
    by (simp add: words_wire_Cons byte_simps)
qed simp

lemma words_wire_surj: "length bs = 4 * n \<Longrightarrow> \<exists>ws. length ws = n \<and> bs = words_wire ws"
proof (induction n arbitrary: bs)
  case (Suc n)
  have "length (drop 4 bs) = 4 * n" using Suc.prems by simp
  from Suc.IH [OF this] obtain ws where ws: "length ws = n" "drop 4 bs = words_wire ws" by blast
  from Suc.prems obtain v where v: "get_unaligned_be32 bs 0 = Some v"
    using get_be32_Some [of 0 bs] by auto
  from get_be32_inverse [OF v] ws have "bs = words_wire (v # ws)"
    using append_take_drop_id [of 4 bs] by (simp add: words_wire_Cons)
  with ws show ?case by (intro exI [of _ "v # ws"]) simp
qed (simp add: words_wire_def)

lemma frame_word:
  assumes "i < length ws"
  shows "get_unaligned_be32 (cfg_frame crc ws @ rest) (4 * i) = Some (ws ! i)"
proof -
  from id_take_nth_drop [OF assms]
  have "words_wire ws = words_wire (take i ws) @ be32_bytes (ws ! i) @ words_wire (drop (Suc i) ws)"
    by (metis words_wire_append words_wire_Cons)
  with assms show ?thesis by (simp add: cfg_frame_def byte_simps)
qed

lemma frame_words:
  assumes "k + n \<le> length ws"
  shows "get_be32_words (cfg_frame crc ws @ rest) (4 * k) n = Some (take n (drop k ws))"
proof -
  have "words_wire ws = words_wire (take k ws) @ words_wire (take n (drop k ws)) @
      words_wire (drop (k + n) ws)"
    by (metis words_wire_append append_take_drop_id drop_cut)
  moreover have "length (take n (drop k ws)) = n" "length (words_wire (take k ws)) = 4 * k"
    using assms by simp_all
  ultimately show ?thesis
    using get_words_wire [of "words_wire (take k ws)" "take n (drop k ws)"]
    by (simp add: cfg_frame_def)
qed

lemma frame_sum:
  "get_unaligned_be32 (cfg_frame crc ws @ rest) (4 * length ws) =
     Some (seal crc (cfg_frame crc ws @ rest) (4 * length ws))"
  by (simp add: cfg_frame_def seal_def byte_simps)

text \<open>A checksum that fits makes the received bytes a frame, and nothing else does.\<close>

lemma sealed_frame:
  assumes "4 * n + 4 \<le> length wire"
    and "get_unaligned_be32 wire (4 * n) = Some (seal crc wire (4 * n))"
  obtains ws where "length ws = n" and "wire = cfg_frame crc ws @ drop (4 * n + 4) wire"
proof -
  obtain ws where ws: "length ws = n" "take (4 * n) wire = words_wire ws"
    using words_wire_surj [of "take (4 * n) wire" n] assms(1) by auto
  have "wire = take (4 * n) wire @ take 4 (drop (4 * n) wire) @ drop (4 * n + 4) wire"
    using drop_cut [of "4 * n" wire 4] append_take_drop_id [of "4 * n" wire] by simp
  also have "\<dots> = cfg_frame crc ws @ drop (4 * n + 4) wire"
    unfolding get_be32_inverse [OF assms(2)] seal_def ws(2) cfg_frame_def by simp
  finally show ?thesis using that ws(1) by blast
qed

lemma cfg_frame_inject: "cfg_frame crc vs = cfg_frame crc ws \<longleftrightarrow> vs = ws"
proof
  assume eq: "cfg_frame crc vs = cfg_frame crc ws"
  then have "length vs = length ws" using length_cfg_frame [of crc vs] by simp
  with eq frame_words [of 0 "length vs" vs crc "[]"] frame_words [of 0 "length ws" ws crc "[]"]
  show "vs = ws" by simp
qed simp

lemma frame_prefix:
  "take m wire = cfg_frame crc ws \<Longrightarrow> wire = cfg_frame crc ws @ drop m wire"
  by (metis append_take_drop_id)

section \<open>Replies\<close>

lemma read_address_ok:
  "\<not> read_spec_bad s \<Longrightarrow> x1_read_address (Some s) (Some a) =
     (0, Some (cfg_address (rs_offset s) (rs_words s) (rs_port s) (rs_space s) (rs_seq s)))"
  by (simp add: x1_read_address_def)

lemma read_spec_words: "\<not> read_spec_bad s \<Longrightarrow> 0 < unat (rs_words s) \<and> unat (rs_words s) \<le> 8"
  by (auto simp: read_spec_bad_def word_less_nat_alt not_less word_unat_eq_iff)

abbreviation read_addr :: "x1_read_spec \<Rightarrow> u32" where
  "read_addr s \<equiv> cfg_address (rs_offset s) (rs_words s) (rs_port s) (rs_space s) (rs_seq s)"

lemma frame_header:
  "get_unaligned_be32 (cfg_frame crc (a # b # c # ws) @ rest) 0 = Some a"
  "get_unaligned_be32 (cfg_frame crc (a # b # c # ws) @ rest) 4 = Some b"
  "get_unaligned_be32 (cfg_frame crc (a # b # c # ws) @ rest) 8 = Some c"
  using frame_word [of 0 "a # b # c # ws" crc rest] frame_word [of 1 "a # b # c # ws" crc rest]
    frame_word [of 2 "a # b # c # ws" crc rest] by simp_all

lemma frame_payload:
  "get_be32_words (cfg_frame crc (a # b # c # ws) @ rest) 12 (length ws) = Some ws"
  using frame_words [of 3 "length ws" "a # b # c # ws" crc rest] by simp

lemma sealed_reply:
  assumes "12 + 4 * n + 4 \<le> length wire"
    and "get_unaligned_be32 wire (12 + 4 * n) = Some (seal crc wire (12 + 4 * n))"
  obtains a b c ws rest where "length ws = n" and "wire = cfg_frame crc (a # b # c # ws) @ rest"
proof -
  from assms obtain vs where vs: "length vs = 3 + n" "wire = cfg_frame crc vs @ drop (16 + 4 * n) wire"
    by (auto intro: sealed_frame [of "3 + n" wire crc])
  from vs(1) obtain a b c ws where "vs = a # b # c # ws" "length ws = n"
    by (auto simp: numeral_eq_Suc length_Suc_conv)
  with vs that show ?thesis by blast
qed

lemma frame_reply_sum:
  "get_unaligned_be32 (cfg_frame crc (a # b # c # ws) @ rest) (12 + 4 * length ws) =
     Some (seal crc (cfg_frame crc (a # b # c # ws) @ rest) (12 + 4 * length ws))"
  using frame_sum [of crc "a # b # c # ws" rest] by simp

lemmas frame_reads = frame_header frame_payload frame_reply_sum

text \<open>What the reply parser does with a sealed frame of any length.\<close>

lemma read_reply_framed:
  assumes "\<not> read_spec_bad s"
  shows "x1_read_reply crc (Some (cfg_frame crc (a # b # c # ws) @ rest)) (16 + 4 * length ws) sof eof
      (Some s) (Some arr) =
    (if 8 < length ws \<or> sof \<noteq> 0 then Some (- EPROTO, Some arr)
     else if eof = 3 then Some (if ws \<noteq> [] then - EPROTO else - ENOLINK, Some arr)
     else if eof \<noteq> 1 \<or> length ws \<noteq> unat (rs_words s) \<or> a \<noteq> 0x80000000 \<or> b \<noteq> rs_route s \<or>
       no_port c \<noteq> no_port (read_addr s) then Some (- EPROTO, Some arr)
     else if length ws \<le> length arr then Some (0, Some (ws @ drop (length ws) arr)) else None)"
proof -
  have "(16 + 4 * length ws) mod 4 = 0" by presburger
  moreover have "48 < 16 + 4 * length ws \<longleftrightarrow> 8 < length ws" by linarith
  moreover have "16 + 4 * length ws - 4 = 12 + 4 * length ws" by simp
  moreover have "16 + 4 * length ws \<noteq> 16 + 4 * unat (rs_words s) \<longleftrightarrow> length ws \<noteq> unat (rs_words s)" by simp
  moreover have "length ws = unat (rs_words s) \<Longrightarrow>
      get_be32_words (cfg_frame crc (a # b # c # ws) @ rest) 12 (unat (rs_words s)) = Some ws" for a b
    by (metis frame_payload)
  ultimately show ?thesis
    using assms by (simp add: x1_read_reply_def read_address_ok frame_header frame_reply_sum put_words_def)
qed

lemma read_reply_unsealed:
  assumes "\<not> read_spec_bad s" and "16 \<le> sz" "sz \<le> 48" "sof = 0" "sz mod 4 = 0" "sz \<le> length wire"
    and "get_unaligned_be32 wire (sz - 4) \<noteq> Some (seal crc wire (sz - 4))"
  shows "x1_read_reply crc (Some wire) sz sof eof (Some s) (Some arr) = Some (- EBADMSG, Some arr)"
  using assms get_be32_Some [of "sz - 4" wire]
  by (auto simp: x1_read_reply_def read_address_ok)

lemma read_reply_size:
  assumes "\<not> read_spec_bad s" and "\<not> (16 \<le> sz \<and> sz \<le> 48 \<and> sof = 0 \<and> sz mod 4 = 0)"
  shows "x1_read_reply crc (Some wire) sz sof eof (Some s) (Some arr) = Some (- EPROTO, Some arr)"
  using assms by (auto simp: x1_read_reply_def read_address_ok)

lemma reply_cases:
  fixes crc :: crc32c
  assumes "sz \<le> length wire"
  obtains (bad_size) "\<not> (16 \<le> sz \<and> sz \<le> 48 \<and> sof = 0 \<and> sz mod 4 = 0)"
  | (unsealed) "16 \<le> sz" "sz \<le> 48" "sof = (0 :: u32)" "sz mod 4 = 0"
      "get_unaligned_be32 wire (sz - 4) \<noteq> Some (seal crc wire (sz - 4))"
  | (framed) a b c ws rest where "sz = 16 + 4 * length ws" "wire = cfg_frame crc (a # b # c # ws) @ rest"
proof -
  consider "\<not> (16 \<le> sz \<and> sz \<le> 48 \<and> sof = 0 \<and> sz mod 4 = 0)"
    | "16 \<le> sz" "sz \<le> 48" "sof = 0" "sz mod 4 = 0"
      "get_unaligned_be32 wire (sz - 4) \<noteq> Some (seal crc wire (sz - 4))"
    | "16 \<le> sz" "sz mod 4 = 0" "get_unaligned_be32 wire (sz - 4) = Some (seal crc wire (sz - 4))"
    by metis
  then show thesis
  proof cases
    case 3
    define n where "n = (sz - 16) div 4"
    with 3 have sz: "sz = 16 + 4 * n" by presburger
    with 3 have "get_unaligned_be32 wire (12 + 4 * n) = Some (seal crc wire (12 + 4 * n))" by simp
    with assms sz obtain a b c ws rest where "length ws = n" "wire = cfg_frame crc (a # b # c # ws) @ rest"
      by (auto intro: sealed_reply [of n wire crc])
    with framed sz show thesis by blast
  qed (blast intro: bad_size unsealed)+
qed

section \<open>Address words\<close>

definition addr_fits :: "u32 \<Rightarrow> u32 \<Rightarrow> u32 \<Rightarrow> u32 \<Rightarrow> u32 \<Rightarrow> bool" where
  "addr_fits offset words port space seq \<longleftrightarrow>
     unat offset < 2 ^ 13 \<and> unat words < 2 ^ 6 \<and> unat port < 2 ^ 6 \<and> unat space < 2 ^ 2 \<and> unat seq < 2 ^ 5"

lemma cfg_address_fields:
  assumes "addr_fits offset words port space seq"
  shows "take_bit 13 (cfg_address offset words port space seq) = offset"
    "take_bit 6 (drop_bit 13 (cfg_address offset words port space seq)) = words"
    "take_bit 6 (drop_bit 19 (cfg_address offset words port space seq)) = port"
    "take_bit 2 (drop_bit 25 (cfg_address offset words port space seq)) = space"
    "drop_bit 27 (cfg_address offset words port space seq) = seq"
proof -
  have o: "bit offset n \<Longrightarrow> n < 13" and w: "bit words n \<Longrightarrow> n < 6" and p: "bit port n \<Longrightarrow> n < 6"
    and sp: "bit space n \<Longrightarrow> n < 2" and sq: "bit seq n \<Longrightarrow> n < 5" for n
    using assms bit_unat_le unfolding addr_fits_def by blast+
  have far: "bit offset (m + n) \<Longrightarrow> m < 13" "bit words (m + n) \<Longrightarrow> m < 6" "bit port (m + n) \<Longrightarrow> m < 6"
    "bit space (m + n) \<Longrightarrow> m < 2" "bit seq (m + n) \<Longrightarrow> m < 5" for m n
    using o w p sp sq by (meson add_lessD1)+
  show "take_bit 13 (cfg_address offset words port space seq) = offset"
    by (rule bit_word_eqI) (auto simp: cfg_address_def bit_simps dest: o)
  show "take_bit 6 (drop_bit 13 (cfg_address offset words port space seq)) = words"
    by (rule bit_word_eqI) (auto simp: cfg_address_def bit_simps dest: o w far)
  show "take_bit 6 (drop_bit 19 (cfg_address offset words port space seq)) = port"
    by (rule bit_word_eqI) (auto simp: cfg_address_def bit_simps dest: o w p far)
  show "take_bit 2 (drop_bit 25 (cfg_address offset words port space seq)) = space"
    by (rule bit_word_eqI) (auto simp: cfg_address_def bit_simps dest: o w p sp far)
  show "drop_bit 27 (cfg_address offset words port space seq) = seq"
    by (rule bit_word_eqI) (auto simp: cfg_address_def bit_simps dest: o w p sp sq far)
qed

lemma no_port_fields:
  "take_bit 13 (no_port a) = take_bit 13 a" "take_bit 6 (drop_bit 13 (no_port a)) = take_bit 6 (drop_bit 13 a)"
  "take_bit 2 (drop_bit 25 (no_port a)) = take_bit 2 (drop_bit 25 a)" "drop_bit 27 (no_port a) = drop_bit 27 a"
proof -
  have m: "(0x3f :: u32) = mask 6" by (simp add: mask_eq_exp_minus_1)
  show "take_bit 13 (no_port a) = take_bit 13 a"
    "take_bit 6 (drop_bit 13 (no_port a)) = take_bit 6 (drop_bit 13 a)"
    "take_bit 2 (drop_bit 25 (no_port a)) = take_bit 2 (drop_bit 25 a)" "drop_bit 27 (no_port a) = drop_bit 27 a"
    unfolding no_port_def m by (rule bit_word_eqI; auto simp: bit_simps dest: bit_imp_le_length)+
qed

text \<open>Without the port field an address still fixes everything else.\<close>

lemma no_port_inject:
  assumes "no_port (cfg_address o1 w1 p1 s1 q1) = no_port (cfg_address o2 w2 p2 s2 q2)"
    and "addr_fits o1 w1 p1 s1 q1" "addr_fits o2 w2 p2 s2 q2"
  shows "o1 = o2 \<and> w1 = w2 \<and> s1 = s2 \<and> q1 = q2"
  using assms by (metis cfg_address_fields no_port_fields)

lemma read_spec_fits:
  "\<not> read_spec_bad s \<Longrightarrow> addr_fits (rs_offset s) (rs_words s) (rs_port s) (rs_space s) (rs_seq s)"
  by (auto simp: read_spec_bad_def addr_fits_def word_less_nat_alt not_less)

section \<open>Requests\<close>

lemma words_wire3: "words_wire [a, b, c] = be32_bytes a @ be32_bytes b @ be32_bytes c"
  by (simp add: words_wire_def)

lemma put_three:
  assumes "12 \<le> length wire"
  shows "do { wire \<leftarrow> put_unaligned_be32 a wire 0; wire \<leftarrow> put_unaligned_be32 b wire 4;
              wire \<leftarrow> put_unaligned_be32 c wire 8; k wire } = k (words_wire [a, b, c] @ drop 12 wire)"
proof -
  have "put_bytes wire 0 (be32_bytes a) = Some (be32_bytes a @ drop 4 wire)"
    using put_bytes_append [of 0 "[]" "be32_bytes a" wire] assms by simp
  moreover have "put_bytes (be32_bytes a @ drop 4 wire) 4 (be32_bytes b) =
      Some ((be32_bytes a @ be32_bytes b) @ drop 8 wire)"
    using assms by (subst put_bytes_append) auto
  moreover have "put_bytes ((be32_bytes a @ be32_bytes b) @ drop 8 wire) 8 (be32_bytes c) =
      Some (words_wire [a, b, c] @ drop 12 wire)"
    using assms by (subst put_bytes_append) (auto simp: words_wire3)
  ultimately show ?thesis by (simp add: put_unaligned_be32_def del: append_assoc)
qed

lemma put_seal:
  assumes "4 * length ws + 4 \<le> length (words_wire ws @ rest)" and "n = 4 * length ws"
  shows "put_unaligned_be32 (seal crc (words_wire ws @ rest) n) (words_wire ws @ rest) n =
    Some (cfg_frame crc ws @ drop 4 rest)"
  using assms by (simp add: put_unaligned_be32_def put_bytes_append seal_def cfg_frame_def)

lemma put_be32_words_append:
  assumes "n \<le> length ws" and "4 * n \<le> length rest"
  shows "put_be32_words ws (length xs) n (xs @ rest) = Some (xs @ words_wire (take n ws) @ drop (4 * n) rest)"
  using assms
proof (induction n arbitrary: ws xs rest)
  case (Suc n)
  then obtain w vs where ws: "ws = w # vs" by (cases ws) auto
  have "put_unaligned_be32 w (xs @ rest) (length xs) = Some ((xs @ be32_bytes w) @ drop 4 rest)"
    using Suc.prems by (simp add: put_unaligned_be32_def put_bytes_append)
  with Suc.IH [of vs "drop 4 rest" "xs @ be32_bytes w"] Suc.prems ws show ?case
    by (simp add: words_wire_Cons add.commute)
qed (simp add: words_wire_def)

lemma packet_request_frame:
  assumes "16 \<le> length wire"
  shows "x1_packet_request crc wire seq = Some (cfg_frame crc [0, 0, diag_address seq] @ drop 16 wire)"
  unfolding x1_packet_request_def using assms by (subst put_three) (simp_all add: put_seal)

lemma event_ack_frame:
  assumes "16 \<le> length wire" and "ev_port ev = 2 \<or> ev_port ev = 3"
  shows "x1_event_ack crc (Some wire) (Some ev) =
    Some (0, Some (cfg_frame crc [0, 0, ack_word ev] @ drop 16 wire))"
proof -
  have "\<not> (ev_port ev \<noteq> 2 \<and> ev_port ev \<noteq> 3)" using assms(2) by blast
  then show ?thesis
    unfolding x1_event_ack_def using assms(1)
    by (simp only: option.case prod.case if_False, subst put_three) (simp_all add: put_seal)
qed

lemma read_request_frame:
  assumes "16 \<le> length wire" and "\<not> read_spec_bad s"
  shows "x1_read_request crc (Some wire) (Some s) =
    Some (0, Some (cfg_frame crc [0, rs_route s, read_addr s] @ drop 16 wire))"
  unfolding x1_read_request_def read_address_ok [OF assms(2)] using assms(1)
  by (simp only: option.case prod.case if_False simp_thms, subst put_three) (simp_all add: put_seal)

section \<open>Events and writes\<close>

definition event_word :: "x1_plug_event \<Rightarrow> u32" where
  "event_word ev = ev_port ev OR (if ev_unplug ev then 0x80000000 else 0)"

lemma and_bit31: "d AND 0x80000000 = (if bit d 31 then 0x80000000 else 0)" for d :: u32
  using and_push_bit_1 [of d 31] by simp

lemma event_data_word:
  fixes d :: u32
  assumes "ev_port ev = 2 \<or> ev_port ev = 3"
  shows "(d AND 0x7fffffc0 = 0 \<and> d AND 0x3f = ev_port ev \<and> (d AND 0x80000000 \<noteq> 0) = ev_unplug ev) \<longleftrightarrow>
    d = event_word ev"
proof
  assume *: "d AND 0x7fffffc0 = 0 \<and> d AND 0x3f = ev_port ev \<and> (d AND 0x80000000 \<noteq> 0) = ev_unplug ev"
  have all: "(0x7fffffc0 OR 0x3f OR 0x80000000 :: u32) = NOT 0" by simp
  have "d = d AND (0x7fffffc0 OR 0x3f OR 0x80000000)" unfolding all by simp
  also have "\<dots> = (d AND 0x7fffffc0) OR (d AND 0x3f) OR (d AND 0x80000000)"
    by (simp only: bit.conj_disj_distrib or.assoc)
  finally show "d = event_word ev"
    using * and_bit31 [of d] by (auto simp: event_word_def split: if_splits)
next
  assume "d = event_word ev"
  with assms show "d AND 0x7fffffc0 = 0 \<and> d AND 0x3f = ev_port ev \<and> (d AND 0x80000000 \<noteq> 0) = ev_unplug ev"
    by (auto simp: event_word_def)
qed

lemma sealed16:
  assumes "16 \<le> length wire" and "get_unaligned_be32 wire 12 = Some (seal crc wire 12)"
  obtains a b c where "wire = cfg_frame crc [a, b, c] @ drop 16 wire"
proof -
  have "get_unaligned_be32 wire (4 * 3) = Some (seal crc wire (4 * 3))" using assms(2) by simp
  moreover have "4 * 3 + 4 \<le> length wire" using assms(1) by simp
  ultimately obtain ws where "length ws = 3" "wire = cfg_frame crc ws @ drop 16 wire"
    using sealed_frame [of 3 wire crc thesis] by auto
  with that show ?thesis by (auto simp: numeral_eq_Suc length_Suc_conv)
qed

lemma frame16_sum:
  "get_unaligned_be32 (cfg_frame crc [a, b, c] @ rest) 12 = Some (seal crc (cfg_frame crc [a, b, c] @ rest) 12)"
  using frame_reply_sum [of crc a b c "[]" rest] by simp

lemma event_decode_framed:
  "x1_event_decode crc (Some (cfg_frame crc [a, b, c] @ rest)) 16 0 5 (Some z) =
     Some (if a \<noteq> 0x80000000 \<or> b \<noteq> 0 \<or> c AND 0x7fffffc0 \<noteq> 0 \<or> (c AND 0x3f \<noteq> 2 \<and> c AND 0x3f \<noteq> 3)
           then (- EPROTO, Some z)
           else (0, Some \<lparr>ev_port = c AND 0x3f, ev_unplug = (c AND 0x80000000 \<noteq> 0)\<rparr>))"
  by (simp add: x1_event_decode_def frame_header frame16_sum)

lemma event_decode_sealed:
  assumes "x1_event_decode crc (Some wire) sz sof eof (Some z) = Some (0, Some ev)" and "sz \<le> length wire"
  obtains a b c where "sz = 16" "sof = 0" "eof = 5" "wire = cfg_frame crc [a, b, c] @ drop 16 wire"
proof -
  from assms(1) have "sz = 16" "sof = 0" "eof = 5" "get_unaligned_be32 wire 12 = Some (seal crc wire 12)"
    by (auto simp: x1_event_decode_def bind_eq_Some_conv split: if_splits)
  with assms(2) that show ?thesis by (metis sealed16)
qed

lemma event_decode_total:
  assumes "16 \<le> length wire"
  shows "\<exists>ret z'. x1_event_decode crc (Some wire) sz sof eof (Some z) = Some (ret, Some z') \<and>
     (ret = 0 \<or> ((ret = - EPROTO \<or> ret = - EBADMSG) \<and> z' = z))"
  using assms by (auto simp: x1_event_decode_def get_unaligned_be32_def)

lemma event_decode_iff:
  assumes "sz \<le> length wire" and "16 \<le> length wire"
  shows "x1_event_decode crc (Some wire) sz sof eof (Some z) = Some (0, Some ev) \<longleftrightarrow>
    sz = 16 \<and> sof = 0 \<and> eof = 5 \<and> (ev_port ev = 2 \<or> ev_port ev = 3) \<and>
    take 16 wire = cfg_frame crc [0x80000000, 0, event_word ev]" (is "?L \<longleftrightarrow> ?R")
proof
  assume L: ?L
  from L assms(1) obtain a b c where f: "sz = 16" "sof = 0" "eof = 5"
    and w: "wire = cfg_frame crc [a, b, c] @ drop 16 wire" by (rule event_decode_sealed)
  define rest where "rest = drop 16 wire"
  from w have w': "wire = cfg_frame crc [a, b, c] @ rest" by (simp add: rest_def)
  from L have "a = 0x80000000 \<and> b = 0 \<and> (ev_port ev = 2 \<or> ev_port ev = 3) \<and>
      c AND 0x7fffffc0 = 0 \<and> c AND 0x3f = ev_port ev \<and> (c AND 0x80000000 \<noteq> 0) = ev_unplug ev"
    unfolding f w' event_decode_framed by (auto split: if_splits)
  with event_data_word [of ev c] f show ?R
    unfolding w' by simp
next
  assume R: ?R
  then have w: "wire = cfg_frame crc [0x80000000, 0, event_word ev] @ drop 16 wire"
    using frame_prefix by blast
  define rest where "rest = drop 16 wire"
  from w have w': "wire = cfg_frame crc [0x80000000, 0, event_word ev] @ rest" by (simp add: rest_def)
  from R event_data_word [of ev "event_word ev"] show ?L
    unfolding w' by (auto simp: event_decode_framed)
qed

text \<open>
  The four writes there are, over the plans: the two header writes replace words 1 to 4 of a
  router header by what the root or the external plan computes from it, the setup write applies
  the setup plan to word 5, the unlock write clears bit 31 of word 4 of root port 2.
\<close>

definition permitted_write :: "x1_write_spec \<Rightarrow> u32 list \<Rightarrow> u32 list \<Rightarrow> bool" where
  "permitted_write s before after \<longleftrightarrow>
     (ws_route s = 0 \<and> ws_port s = 0 \<and> ws_space s = 2 \<and> ws_offset s = 1 \<and> ws_words s = 4 \<and>
        x1_root_plan (Some (0x093805c6 # before)) (Some [0, 0, 0, 0]) = Some (0, Some (take 4 after))) \<or>
     (ws_route s = 2 \<and> ws_port s = 0 \<and> ws_space s = 2 \<and> ws_offset s = 1 \<and> ws_words s = 4 \<and>
        x1_external_plan (Some (0x113b059f # before)) (Some [0, 0, 0, 0]) = Some (0, Some (take 4 after))) \<or>
     (ws_route s = 2 \<and> ws_port s = 0 \<and> ws_space s = 2 \<and> ws_offset s = 5 \<and> ws_words s = 1 \<and>
        x1_external_setup_plan (before ! 0) (Some 0) = (0, Some (after ! 0))) \<or>
     (ws_route s = 0 \<and> ws_port s = 2 \<and> ws_space s = 1 \<and> ws_offset s = 4 \<and> ws_words s = 1 \<and>
        bit (before ! 0) 31 \<and> after ! 0 = before ! 0 AND 0x7fffffff)"

lemma length_4E:
  assumes "4 \<le> length xs"
  obtains a b c d ys where "xs = a # b # c # d # ys"
proof -
  obtain a b c d where "take 4 xs = [a, b, c, d]"
    using assms by (auto simp: numeral_eq_Suc length_Suc_conv Suc_le_length_iff)
  with that show ?thesis by (metis append_take_drop_id append_Cons append_Nil)
qed

lemma header_write_ok:
  assumes "4 \<le> length before" and "4 \<le> length after"
  shows "root_header_ok before after =
      Some (x1_root_plan (Some (0x093805c6 # before)) (Some [0, 0, 0, 0]) = Some (0, Some (take 4 after)))"
    and "external_header_ok before after =
      Some (x1_external_plan (Some (0x113b059f # before)) (Some [0, 0, 0, 0]) = Some (0, Some (take 4 after)))"
proof -
  from assms obtain b0 b1 b2 b3 bs a0 a1 a2 a3 as where
    l: "before = b0 # b1 # b2 # b3 # bs" "after = a0 # a1 # a2 # a3 # as" by (metis length_4E)
  show "root_header_ok before after =
      Some (x1_root_plan (Some (0x093805c6 # before)) (Some [0, 0, 0, 0]) = Some (0, Some (take 4 after)))"
    by (auto simp: l root_header_ok_def x1_root_plan_def put_words_def)
  show "external_header_ok before after =
      Some (x1_external_plan (Some (0x113b059f # before)) (Some [0, 0, 0, 0]) = Some (0, Some (take 4 after)))"
    by (auto simp: l external_header_ok_def x1_external_plan_def put_words_def)
qed

lemma single_write_ok:
  assumes "1 \<le> length before" and "1 \<le> length after"
  shows "external_setup_ok before after =
      Some (x1_external_setup_plan (before ! 0) (Some 0) = (0, Some (after ! 0)))"
    and "unlock_ok before after = Some (bit (before ! 0) 31 \<and> after ! 0 = before ! 0 AND 0x7fffffff)"
  using assms and_bit31 [of "before ! 0"]
  by (cases before; cases after;
      force simp: external_setup_ok_def unlock_ok_def x1_external_setup_plan_def)+

lemma write_contents_permitted:
  assumes "unat (ws_words s) \<le> length before" and "unat (ws_words s) \<le> length after"
  shows "write_contents_ok s before after = Some (permitted_write s before after)"
  using assms header_write_ok [of before after] single_write_ok [of before after]
  by (auto simp: write_contents_ok_def permitted_write_def)

abbreviation write_addr :: "x1_write_spec \<Rightarrow> u32" where
  "write_addr s \<equiv> cfg_address (ws_offset s) (ws_words s) (ws_port s) (ws_space s) (ws_seq s)"

lemma write_address_eq:
  assumes "ws_before s = Some before" and "ws_after s = Some after"
    and "unat (ws_words s) \<le> length before" and "unat (ws_words s) \<le> length after"
  shows "x1_write_address (Some s) (Some x) =
    Some (if ws_seq s > 3 then (- EINVAL, Some x)
          else if permitted_write s before after then (0, Some (write_addr s)) else (- EPERM, Some x))"
  using assms by (simp add: x1_write_address_def write_contents_permitted)

lemma permitted_words:
  "permitted_write s before after \<Longrightarrow> unat (ws_words s) = 4 \<or> unat (ws_words s) = 1"
  by (auto simp: permitted_write_def)

lemma write_request_frame:
  assumes arr: "ws_before s = Some before" "ws_after s = Some after"
    "unat (ws_words s) \<le> length before" "unat (ws_words s) \<le> length after"
    and ok: "ws_seq s \<le> 3" "permitted_write s before after" and len: "32 \<le> length wire"
  shows "x1_write_request crc (Some wire) (Some s) =
    Some (0, Some (cfg_frame crc (0 # ws_route s # write_addr s # take (unat (ws_words s)) after) @
                   drop (16 + 4 * unat (ws_words s)) wire))"
proof -
  define n where "n = unat (ws_words s)"
  define h where "h = words_wire [0, ws_route s, write_addr s]"
  have n4: "n \<le> 4" "n \<le> length after" using permitted_words [OF ok(2)] arr(4) by (auto simp: n_def)
  have hw: "h @ words_wire (take n after) = words_wire (0 # ws_route s # write_addr s # take n after)"
    by (simp add: h_def words_wire_def)
  have put: "put_be32_words after 12 n (h @ drop 12 wire) =
      Some (words_wire (0 # ws_route s # write_addr s # take n after) @ drop (4 * n + 12) wire)"
    using put_be32_words_append [of n after "drop 12 wire" h] n4 len
    by (simp add: h_def hw [symmetric])
  have seal: "put_unaligned_be32 (seal crc (words_wire ws @ drop (4 * n + 12) wire) (12 + 4 * n))
      (words_wire ws @ drop (4 * n + 12) wire) (12 + 4 * n) = Some (cfg_frame crc ws @ drop (16 + 4 * n) wire)"
    if "ws = 0 # ws_route s # write_addr s # take n after" for ws
    using n4 len that by (subst put_seal) (auto simp: add.commute)
  have "x1_write_request crc (Some wire) (Some s) = (do {
      wire \<leftarrow> put_be32_words after 12 n (h @ drop 12 wire);
      wire \<leftarrow> put_unaligned_be32 (seal crc wire (12 + 4 * n)) wire (12 + 4 * n);
      Some (0, Some wire) })"
    unfolding x1_write_request_def write_address_eq [OF arr] h_def n_def using ok len
    by (simp add: put_three arr(2) Let_def not_less [symmetric] del: put_be32_words.simps)
  then show ?thesis unfolding put by (simp add: seal n_def [symmetric])
qed

section \<open>Properties\<close>

interpretation event_wire: wire_format
  "\<lambda>ev. cfg_frame crc [0x80000000, 0, event_word ev]"
  "\<lambda>wire. x1_event_decode crc (Some wire) 16 0 5 (Some z)" Some
  "\<lambda>ev. ev_port ev = 2 \<or> ev_port ev = 3" for crc z
  by unfold_locales (simp add: event_decode_iff)

interpretation read_wire: wire_format
  "\<lambda>(got, ws). cfg_frame crc (0x80000000 # rs_route s # got # ws)"
  "\<lambda>wire. x1_read_reply crc (Some wire) (length wire) 0 1 (Some s) (Some (replicate 8 0))"
  "\<lambda>(got, ws). Some (ws @ replicate (8 - length ws) 0)"
  "\<lambda>(got, ws). \<not> read_spec_bad s \<and> length ws = unat (rs_words s) \<and> no_port got = no_port (read_addr s)"
  for crc s
proof unfold_locales
  fix a :: "u32 \<times> u32 list"
  obtain got ws where a: "a = (got, ws)" by (cases a)
  assume "case a of (got, ws) \<Rightarrow>
    \<not> read_spec_bad s \<and> length ws = unat (rs_words s) \<and> no_port got = no_port (read_addr s)"
  then show "x1_read_reply crc (Some (case a of (got, ws) \<Rightarrow> cfg_frame crc (0x80000000 # rs_route s # got # ws)))
      (length (case a of (got, ws) \<Rightarrow> cfg_frame crc (0x80000000 # rs_route s # got # ws))) 0 1 (Some s)
      (Some (replicate 8 0)) = Some (0, case a of (got, ws) \<Rightarrow> Some (ws @ replicate (8 - length ws) 0))"
    using read_reply_framed [of s crc "0x80000000" "rs_route s" got ws "[]" 0 1 "replicate 8 0"]
      read_spec_words [of s] by (simp add: a)
qed

text \<open>The error for a reply that is not accepted.\<close>

definition reply_error :: "crc32c \<Rightarrow> u8 list \<Rightarrow> nat \<Rightarrow> u32 \<Rightarrow> u32 \<Rightarrow> int \<Rightarrow> bool" where
  "reply_error crc wire sz sof eof ret \<longleftrightarrow>
     ret = (if \<not> (16 \<le> sz \<and> sz \<le> 48 \<and> sof = 0 \<and> sz mod 4 = 0) then - EPROTO
       else if \<nexists>ws. take sz wire = cfg_frame crc ws then - EBADMSG
       else if eof = 3 \<and> sz = 16 then - ENOLINK else - EPROTO)"

text \<open>
  C22. A reply to a bounded read is accepted exactly when it is a sealed frame of the requested
  length with the response route of the request, start-of-frame 0, end-of-frame 1 and the
  request's address in everything but the port field; the words delivered are then the payload.
  Nothing else is accepted, no read leaves the received bytes, and on every error the caller's
  words are unchanged.  The error is \<open>-EPROTO\<close> for a bad size or start of frame; otherwise \<open>-EBADMSG\<close> for a
  packet that is not sealed, \<open>-ENOLINK\<close> for a sealed 16-byte packet of type 3, and \<open>-EPROTO\<close> for every
  other sealed packet.
\<close>

theorem read_reply_exact:
  assumes "\<not> read_spec_bad s" and "sz \<le> length wire" and "8 \<le> length arr"
  shows "(x1_read_reply crc (Some wire) sz sof eof (Some s) (Some arr) = Some (0, Some arr') \<longleftrightarrow>
      sof = 0 \<and> eof = 1 \<and>
      (\<exists>got ws. length ws = unat (rs_words s) \<and> no_port got = no_port (read_addr s) \<and>
         take sz wire = cfg_frame crc (0x80000000 # rs_route s # got # ws) \<and>
         arr' = ws @ drop (length ws) arr)) \<and>
    (\<exists>ret arr'. x1_read_reply crc (Some wire) sz sof eof (Some s) (Some arr) = Some (ret, Some arr') \<and>
       (ret = 0 \<or> (reply_error crc wire sz sof eof ret \<and> arr' = arr)))"
proof -
  have frame_size: "take sz wire = cfg_frame crc ws \<Longrightarrow> sz = 4 * length ws + 4" for ws
    by (metis assms(2) length_cfg_frame length_take min.absorb2)
  from assms(2) show ?thesis
  proof (cases rule: reply_cases [where sof = sof and crc = crc])
    case bad_size
    with assms(1) read_spec_words [OF assms(1)] show ?thesis
      by (auto simp: read_reply_size reply_error_def dest: frame_size)
  next
    case unsealed
    have no: "take sz wire \<noteq> cfg_frame crc ws" for ws
    proof
      assume t: "take sz wire = cfg_frame crc ws"
      define rest where "rest = drop sz wire"
      from frame_prefix [OF t] have "wire = cfg_frame crc ws @ rest" by (simp add: rest_def)
      with frame_sum [of crc ws rest] frame_size [OF t] unsealed(5) show False by simp
    qed
    from read_reply_unsealed [OF assms(1) unsealed(1-4) assms(2) unsealed(5)] no unsealed(1-4) show ?thesis
      by (auto simp: reply_error_def)
  next
    case (framed a b c ws rest)
    then have t: "take sz wire = cfg_frame crc (a # b # c # ws)" by simp
    have size: "sz mod 4 = 0" "16 \<le> sz" "sz \<le> 48 \<longleftrightarrow> length ws \<le> 8" "sz = 16 \<longleftrightarrow> ws = []"
      unfolding framed(1) by (presburger, simp_all)
    have e: "reply_error crc wire sz sof eof ret \<longleftrightarrow> ret = (if 8 < length ws \<or> sof \<noteq> 0 then - EPROTO
        else if eof = 3 \<and> ws = [] then - ENOLINK else - EPROTO)" for ret
      unfolding reply_error_def t cfg_frame_inject using size by auto
    show ?thesis
      unfolding e t cfg_frame_inject unfolding framed read_reply_framed [OF assms(1)]
      using assms(3) read_spec_words [OF assms(1)] by auto
  qed
qed

definition router_read :: x1_read_spec where
  "router_read = \<lparr>rs_route = 0, rs_port = 0, rs_space = 2, rs_offset = 0, rs_words = 5, rs_seq = 1\<rparr>"

theorem read_reply_exact_witness:
  "\<not> read_spec_bad router_read \<and>
   x1_read_reply (\<lambda>_ _. 7) (Some (cfg_frame (\<lambda>_ _. 7) [0x80000000, 0, read_addr router_read, 1, 2, 3, 4, 5]))
     36 0 1 (Some router_read) (Some [0, 0, 0, 0, 0, 0, 0, 0]) = Some (0, Some [1, 2, 3, 4, 5, 0, 0, 0])"
proof -
  let ?w = "cfg_frame (\<lambda>_ _. 7) [0x80000000, 0, read_addr router_read, 1, 2, 3, 4, 5]"
  have good: "\<not> read_spec_bad router_read" by (simp add: router_read_def read_spec_bad_def)
  have "\<exists>got ws. length ws = unat (rs_words router_read) \<and> no_port got = no_port (read_addr router_read) \<and>
      take 36 ?w = cfg_frame (\<lambda>_ _. 7) (0x80000000 # rs_route router_read # got # ws) \<and>
      [1, 2, 3, 4, 5, 0, 0, 0] = ws @ drop (length ws) [0, 0, 0, 0, 0, 0, 0, 0]"
    by (intro exI [of _ "read_addr router_read"] exI [of _ "[1, 2, 3, 4, 5]"])
      (simp add: router_read_def)
  with good read_reply_exact [OF good, of 36 ?w "[0, 0, 0, 0, 0, 0, 0, 0]" "\<lambda>_ _. 7" 0 1 "[1, 2, 3, 4, 5, 0, 0, 0]"]
  show ?thesis by simp
qed

text \<open>
  C31. Hotplug events: the decoder accepts exactly the sealed 16-byte packets of an event at root
  port 2 or 3 and returns that event, and an accepted event can always be acknowledged: the
  acknowledgement is the sealed frame for route 0 with the event's port and plug direction, it
  differs for different events, and it touches only the first 16 bytes of the buffer.
\<close>

theorem event_exact_and_acked:
  assumes "16 \<le> length wire" and "sz \<le> length wire" and "16 \<le> length buf"
  shows "(x1_event_decode crc (Some wire) sz sof eof (Some z) = Some (0, Some ev) \<longleftrightarrow>
      sz = 16 \<and> sof = 0 \<and> eof = 5 \<and> (ev_port ev = 2 \<or> ev_port ev = 3) \<and>
      take 16 wire = cfg_frame crc [0x80000000, 0, event_word ev]) \<and>
    (case x1_event_decode crc (Some wire) sz sof eof (Some z) of
       Some (ret, Some e) \<Rightarrow>
         if ret = 0 then x1_event_ack crc (Some buf) (Some e) =
             Some (0, Some (cfg_frame crc [0, 0, ack_word e] @ drop 16 buf)) \<and>
           (\<forall>e'. (ev_port e' = 2 \<or> ev_port e' = 3) \<and> ack_word e' = ack_word e \<longrightarrow> e' = e)
         else (ret = - EPROTO \<or> ret = - EBADMSG) \<and> e = z
     | _ \<Rightarrow> False)"
proof -
  have inj: "ev1 = ev2" if "ev_port ev1 = 2 \<or> ev_port ev1 = 3" "ev_port ev2 = 2 \<or> ev_port ev2 = 3"
    "ack_word ev1 = ack_word ev2" for ev1 ev2
    using that by (auto simp: ack_word_def intro!: x1_plug_event.equality split: if_splits)
  obtain ret z' where d: "x1_event_decode crc (Some wire) sz sof eof (Some z) = Some (ret, Some z')"
    "ret = 0 \<or> ((ret = - EPROTO \<or> ret = - EBADMSG) \<and> z' = z)"
    using event_decode_total [OF assms(1)] by blast
  show ?thesis
  proof (intro conjI)
    show "x1_event_decode crc (Some wire) sz sof eof (Some z) = Some (0, Some ev) \<longleftrightarrow>
      sz = 16 \<and> sof = 0 \<and> eof = 5 \<and> (ev_port ev = 2 \<or> ev_port ev = 3) \<and>
      take 16 wire = cfg_frame crc [0x80000000, 0, event_word ev]"
      using assms by (intro event_decode_iff)
  next
    show "case x1_event_decode crc (Some wire) sz sof eof (Some z) of
       Some (ret, Some e) \<Rightarrow>
         if ret = 0 then x1_event_ack crc (Some buf) (Some e) =
             Some (0, Some (cfg_frame crc [0, 0, ack_word e] @ drop 16 buf)) \<and>
           (\<forall>e'. (ev_port e' = 2 \<or> ev_port e' = 3) \<and> ack_word e' = ack_word e \<longrightarrow> e' = e)
         else (ret = - EPROTO \<or> ret = - EBADMSG) \<and> e = z
     | _ \<Rightarrow> False"
    proof (cases "ret = 0")
      case True
      with d(1) event_decode_iff [OF assms(2,1)] have p: "ev_port z' = 2 \<or> ev_port z' = 3" by blast
      with True d(1) event_ack_frame [OF assms(3) p] inj [OF _ p] show ?thesis by auto
    next
      case False
      with d show ?thesis by auto
    qed
  qed
qed

theorem event_exact_and_acked_witness:
  "x1_event_decode (\<lambda>_ _. 7) (Some (cfg_frame (\<lambda>_ _. 7) [0x80000000, 0, 0x80000002])) 16 0 5
     (Some \<lparr>ev_port = 0, ev_unplug = False\<rparr>) = Some (0, Some \<lparr>ev_port = 2, ev_unplug = True\<rparr>) \<and>
   x1_event_ack (\<lambda>_ _. 7) (Some (replicate 16 0)) (Some \<lparr>ev_port = 2, ev_unplug = True\<rparr>) =
     Some (0, Some (cfg_frame (\<lambda>_ _. 7) [0, 0, 0xc0000207]))"
proof -
  let ?w = "cfg_frame (\<lambda>_ _. 7) [0x80000000, 0, 0x80000002]"
  note E = event_exact_and_acked [of ?w 16 "replicate 16 0" "\<lambda>_ _. 7" 0 5
      "\<lparr>ev_port = 0, ev_unplug = False\<rparr>" "\<lparr>ev_port = 2, ev_unplug = True\<rparr>"]
  have "x1_event_decode (\<lambda>_ _. 7) (Some ?w) 16 0 5 (Some \<lparr>ev_port = 0, ev_unplug = False\<rparr>) =
      Some (0, Some \<lparr>ev_port = 2, ev_unplug = True\<rparr>)"
    using E by (simp add: event_word_def)
  with E show ?thesis by (simp add: ack_word_def)
qed

text \<open>
  C21. The write white list.  A write request is built exactly for the four permitted writes: the
  root header and the external router's header as their plans compute them, the external setup
  word as its plan computes it, and the unlock of root port 2.  The request is the sealed frame of
  route, address and the new words; a refused write leaves the buffer unchanged, with \<open>-EINVAL\<close> for
  the sequence number and \<open>-EPERM\<close> otherwise.
\<close>

theorem write_whitelist:
  assumes "ws_before s = Some before" and "ws_after s = Some after"
    and "unat (ws_words s) \<le> length before" and "unat (ws_words s) \<le> length after"
    and "32 \<le> length wire"
  shows "x1_write_request crc (Some wire) (Some s) = Some
    (if ws_seq s > 3 then (- EINVAL, Some wire)
     else if permitted_write s before after
     then (0, Some (cfg_frame crc (0 # ws_route s # write_addr s # take (unat (ws_words s)) after) @
                    drop (16 + 4 * unat (ws_words s)) wire))
     else (- EPERM, Some wire))"
proof (cases "ws_seq s \<le> 3 \<and> permitted_write s before after")
  case True
  with write_request_frame [OF assms(1-4) _ _ assms(5)] show ?thesis by (simp add: not_less [symmetric])
next
  case False
  then show ?thesis
    by (auto simp: x1_write_request_def write_address_eq [OF assms(1-4)])
qed

definition unlock_write :: x1_write_spec where
  "unlock_write = \<lparr>ws_port = 2, ws_space = 1, ws_offset = 4, ws_words = 1, ws_seq = 1,
     ws_before = Some [0x80000005], ws_after = Some [5], ws_route = 0\<rparr>"

theorem write_whitelist_witness:
  "permitted_write unlock_write [0x80000005] [5] \<and>
   x1_write_request (\<lambda>_ _. 0) (Some (replicate 32 0)) (Some unlock_write) =
     Some (0, Some (cfg_frame (\<lambda>_ _. 0) [0, 0, write_addr unlock_write, 5] @ replicate 12 0))"
proof -
  have "permitted_write unlock_write [0x80000005] [5]"
    by (simp add: permitted_write_def unlock_write_def)
  with write_whitelist [of unlock_write "[0x80000005]" "[5]" "replicate 32 0" "\<lambda>_ _. 0"]
  show ?thesis by (simp add: unlock_write_def)
qed

text \<open>
  A read request carries its specification: the request that \<open>x1_read_request\<close> builds is the
  sealed frame of route and address, the five fields of the address read back, and a reply that
  matches its address outside the port field cannot belong to a request with another offset, word
  count, space or sequence number.
\<close>

lemma read_request_identifies:
  assumes "\<not> read_spec_bad s" and "\<not> read_spec_bad s'" and "16 \<le> length wire"
  shows "x1_read_request crc (Some wire) (Some s) =
      Some (0, Some (cfg_frame crc [0, rs_route s, read_addr s] @ drop 16 wire)) \<and>
    take_bit 13 (read_addr s) = rs_offset s \<and> take_bit 6 (drop_bit 13 (read_addr s)) = rs_words s \<and>
    take_bit 6 (drop_bit 19 (read_addr s)) = rs_port s \<and>
    take_bit 2 (drop_bit 25 (read_addr s)) = rs_space s \<and> drop_bit 27 (read_addr s) = rs_seq s \<and>
    (no_port (read_addr s) = no_port (read_addr s') \<longrightarrow>
       rs_offset s = rs_offset s' \<and> rs_words s = rs_words s' \<and> rs_space s = rs_space s' \<and>
       rs_seq s = rs_seq s')"
  using read_request_frame [OF assms(3,1)] cfg_address_fields [OF read_spec_fits [OF assms(1)]]
    no_port_inject [OF _ read_spec_fits [OF assms(1)] read_spec_fits [OF assms(2)]]
  by blast

end
