(* ===== verification/X1_Topology.thy ===== *)
theory X1_Topology
  imports X1_Packets
begin

text \<open>
  The read-only inventory of a router's adapters and capabilities
  (\<open>snapshot/kernel/drivers/thunderbolt/x1-topology.h\<close>).

  The callbacks \<open>read\<close> and \<open>report\<close> belong to the caller.  A report is an event of the log; a
  read is an event whose answer, the return value and the words it leaves in the buffer, is a
  function \<open>ans\<close> of the whole log with it, so the properties hold for every router.  The event also has
  the room, in words, of the array the read fills.
\<close>

section \<open>State\<close>

datatype topo_event =
    Topo_read x1_read_spec nat
  | Topo_report string u32 u32 u32 "u32 list"

record x1_topology =
  t_reads :: u32
  t_adapters :: u32
  t_caps :: u32
  t_lanes :: u32
  t_pcie_up :: u32
  t_pcie_down :: u32
  t_skipped :: u32
  t_log :: "topo_event list"

type_synonym topo_answer = "topo_event list \<Rightarrow> int \<times> (nat \<Rightarrow> u32)"

definition X1_TOPO_READ_LIMIT :: u32 where "X1_TOPO_READ_LIMIT = 128"
definition X1_TOPO_CAP_LIMIT :: nat where "X1_TOPO_CAP_LIMIT = 16"

section \<open>The code\<close>

text \<open>The result of a read is the return value and the buffer, which is only used after success.\<close>

definition x1_topo_read ::
    "topo_answer \<Rightarrow> u32 \<Rightarrow> u32 \<Rightarrow> u32 \<Rightarrow> u32 \<Rightarrow> u32 \<Rightarrow> nat \<Rightarrow> (x1_topology, int \<times> (nat \<Rightarrow> u32)) state" where
  "x1_topo_read ans route port space offset words room =
     (let spec = \<lparr>rs_route = route, rs_port = port, rs_space = space, rs_offset = offset,
                  rs_words = words, rs_seq = 0\<rparr>;
          ret = fst (x1_read_address (Some spec) (Some 0)) in
      if ret \<noteq> 0 then State_Monad.return (ret, \<lambda>_. 0)
      else State (\<lambda>t.
        if t_reads t \<ge> X1_TOPO_READ_LIMIT then ((- ENOSPC, \<lambda>_. 0), t)
        else (ans (Topo_read spec room # t_log t), t\<lparr>t_reads := t_reads t + 1, t_log := Topo_read spec room # t_log t\<rparr>)))"

definition topo_report :: "string \<Rightarrow> u32 \<Rightarrow> u32 \<Rightarrow> u32 \<Rightarrow> u32 list \<Rightarrow> (x1_topology, unit) state" where
  "topo_report tag route port offset words =
     State (\<lambda>t. ((), t\<lparr>t_log := Topo_report tag route port offset words # t_log t\<rparr>))"

definition topo_update :: "(x1_topology \<Rightarrow> x1_topology) \<Rightarrow> (x1_topology, unit) state" where
  "topo_update f = State (\<lambda>t. ((), f t))"

text \<open>A protocol or lane capability of a port whose type has control status words.\<close>

definition has_cs1 :: "u32 \<Rightarrow> u32 \<Rightarrow> u32 \<Rightarrow> bool" where
  "has_cs1 port cap_id type \<longleftrightarrow>
     port \<noteq> 0 \<and> ((cap_id = 1 \<and> type = 1) \<or>
       (cap_id = 4 \<and> (type = 0x100101 \<or> type = 0x100102 \<or> type = 0x200101 \<or> type = 0x200102)))"

text \<open>The loop: \<open>n\<close> iterations are left, \<open>seen\<close> holds the offsets marked so far.\<close>

fun topo_caps_loop ::
    "topo_answer \<Rightarrow> u32 \<Rightarrow> u32 \<Rightarrow> u32 \<Rightarrow> nat \<Rightarrow> u32 list \<Rightarrow> u32 \<Rightarrow> (x1_topology, int) state" where
  "topo_caps_loop ans route port type 0 seen cap =
     State_Monad.return (if cap \<noteq> 0 then - ELOOP else 0)"
| "topo_caps_loop ans route port type (Suc n) seen cap =
     (if cap = 0 then State_Monad.return 0
      else if cap > 254 then do {
        topo_update (\<lambda>t. t\<lparr>t_skipped := t_skipped t + 1\<rparr>);
        topo_report ''CAP_OUTSIDE_WINDOW'' route port cap [cap];
        State_Monad.return 0
      }
      else if cap < (if port \<noteq> 0 then 8 else 9) \<or> cap \<in> set seen then State_Monad.return (- EPROTO)
      else do {
        let words = (if port \<noteq> 0 then 1 else 2 :: u32);
        (ret, data) \<leftarrow> x1_topo_read ans route port (if port \<noteq> 0 then 1 else 2) cap words 2;
        if ret \<noteq> 0 then State_Monad.return ret
        else do {
          let cap_id = drop_bit 8 (data 0) AND 0xff;
          let nxt = (if port = 0 \<and> cap_id = 5 \<and> drop_bit 24 (data 0) = 0 then data 1 AND 0xffff
                      else data 0 AND 0xff);
          if port = 0 \<and> cap_id \<noteq> 3 \<and> cap_id \<noteq> 5 then do {
            topo_report ''UNKNOWN_ROUTER_CAP'' route port cap (map data [0..<unat words]);
            topo_update (\<lambda>t. t\<lparr>t_skipped := t_skipped t + 1\<rparr>);
            State_Monad.return 0
          }
          else do {
            topo_update (\<lambda>t. t\<lparr>t_caps := t_caps t + 1\<rparr>);
            topo_report ''CAP'' route port cap (map data [0..<unat words]);
            if has_cs1 port cap_id type then do {
              (ret, more) \<leftarrow> x1_topo_read ans route port 1 (cap + 1) 1 1;
              if ret \<noteq> 0 then State_Monad.return ret
              else do {
                topo_report (if cap_id = 1 then ''PHY'' else ''PROTOCOL'') route port cap [data 0, more 0];
                topo_update (\<lambda>t. if cap_id = 1 then t\<lparr>t_lanes := t_lanes t + 1\<rparr> else t);
                topo_caps_loop ans route port type n (cap # seen) nxt
              }
            }
            else topo_caps_loop ans route port type n (cap # seen) nxt
          }
        }
      })"

definition x1_topo_caps ::
    "topo_answer \<Rightarrow> u32 \<Rightarrow> u32 \<Rightarrow> u32 \<Rightarrow> u32 \<Rightarrow> (x1_topology, int) state" where
  "x1_topo_caps ans route port cap type =
     topo_caps_loop ans route port type X1_TOPO_CAP_LIMIT [] cap"

text \<open>
  The first loop over the ports: the adapter headers.  The result carries \<open>(type, cap_head)\<close> of
  the ports read.
\<close>

fun topo_adapters ::
    "topo_answer \<Rightarrow> u32 \<Rightarrow> u32 list \<Rightarrow> (x1_topology, int \<times> (u32 \<times> u32 \<times> u32) list) state" where
  "topo_adapters ans route [] = State_Monad.return (0, [])"
| "topo_adapters ans route (port # ports) = do {
     (ret, data) \<leftarrow> x1_topo_read ans route port 1 0 8 8;
     if ret \<noteq> 0 then State_Monad.return (ret, [])
     else do {
       topo_update (\<lambda>t. t\<lparr>t_adapters := t_adapters t + 1\<rparr>);
       topo_report ''ADAPTER'' route port 0 (map data [0..<8]);
       let type = data 2 AND 0xffffff;
       topo_update (\<lambda>t. if type = 0x100102 \<and> route \<noteq> 0 then t\<lparr>t_pcie_up := t_pcie_up t + 1\<rparr> else t);
       topo_update (\<lambda>t. if type = 0x100101 \<and> route = 0 then t\<lparr>t_pcie_down := t_pcie_down t + 1\<rparr> else t);
       (ret, rest) \<leftarrow> topo_adapters ans route ports;
       State_Monad.return (ret, (port, type, data 1 AND 0xff) # rest)
     }
   }"

definition topo_port_caps ::
    "topo_answer \<Rightarrow> u32 \<Rightarrow> u32 \<times> u32 \<times> u32 \<Rightarrow> (x1_topology, int) state" where
  "topo_port_caps ans route = (\<lambda>(port, type, cap_head).
     if (route = 0 \<and> port = 1) \<or> type = 0 then State_Monad.return 0
     else x1_topo_caps ans route port cap_head type)"

definition topo_header_ok :: "u32 \<Rightarrow> u32 list \<Rightarrow> bool" where
  "topo_header_ok route h \<longleftrightarrow>
     (if route = 0 then take 5 h = [0x093805c6, 0x0101c11c, 0, 0x80000000, 0x200010ff]
      else if route = 2 then take 5 h = [0x113b059f, 0x00114120, 2, 0x80000000, 0x200010ff]
      else False)"

definition topo_ports :: "u32 \<Rightarrow> u32 list" where
  "topo_ports route = (if route \<noteq> 0 then [1, 2, 3, 4, 5] else [1, 2, 3, 4, 5, 6, 7])"

text \<open>The header is a non-null array of five words, the structure and its callbacks are non-null.\<close>

definition x1_topology_router :: "topo_answer \<Rightarrow> u32 \<Rightarrow> u32 list \<Rightarrow> (x1_topology, int) state" where
  "x1_topology_router ans route header =
     (if \<not> topo_header_ok route header then State_Monad.return (- EPERM)
      else do {
        (ret, ports) \<leftarrow> topo_adapters ans route (topo_ports route);
        if ret \<noteq> 0 then State_Monad.return ret
        else do {
          ret \<leftarrow> run_ok (map (topo_port_caps ans route) ports);
          if ret \<noteq> 0 then State_Monad.return ret
          else do {
            (ret, data) \<leftarrow> x1_topo_read ans route 0 2 5 4 8;
            if ret \<noteq> 0 then State_Monad.return ret
            else do {
              topo_report ''ROUTER'' route 0 5 (map data [0..<4]);
              x1_topo_caps ans route 0 (header ! 1 AND 0xff) 0
            }
          }
        }
      })"

section \<open>What an inventory may do\<close>

definition is_topo_read :: "topo_event \<Rightarrow> bool" where
  "is_topo_read e \<longleftrightarrow> (case e of Topo_read s room \<Rightarrow> True | _ \<Rightarrow> False)"

definition topo_event_ok :: "topo_event \<Rightarrow> bool" where
  "topo_event_ok e \<longleftrightarrow> (case e of
     Topo_read s room \<Rightarrow> \<not> read_spec_bad s \<and> rs_seq s = 0 \<and> unat (rs_words s) \<le> room | _ \<Rightarrow> True)"

definition topo_ext :: "x1_topology \<Rightarrow> x1_topology \<Rightarrow> bool" where
  "topo_ext t t' \<longleftrightarrow> (\<exists>ds. t_log t' = ds @ t_log t \<and> list_all topo_event_ok ds \<and>
     unat (t_reads t') = unat (t_reads t) + length (filter is_topo_read ds) \<and>
     unat (t_reads t') \<le> max (unat (t_reads t)) 128)"

lemma topo_read_good:
  assumes "\<not> read_spec_bad \<lparr>rs_route = route, rs_port = port, rs_space = space, rs_offset = offset,
    rs_words = words, rs_seq = 0\<rparr>"
  shows "run_state (x1_topo_read ans route port space offset words room) t =
    (if t_reads t \<ge> 128 then ((- ENOSPC, \<lambda>_. 0), t)
     else (ans (Topo_read \<lparr>rs_route = route, rs_port = port, rs_space = space, rs_offset = offset, rs_words = words,
         rs_seq = 0\<rparr> room # t_log t),
       t\<lparr>t_reads := t_reads t + 1, t_log := Topo_read \<lparr>rs_route = route, rs_port = port, rs_space = space,
         rs_offset = offset, rs_words = words, rs_seq = 0\<rparr> room # t_log t\<rparr>))"
  using assms by (simp add: x1_topo_read_def Let_def read_address_ok X1_TOPO_READ_LIMIT_def)

lemma topo_read_bad:
  assumes "read_spec_bad \<lparr>rs_route = route, rs_port = port, rs_space = space, rs_offset = offset,
    rs_words = words, rs_seq = 0\<rparr>"
  shows "run_state (x1_topo_read ans route port space offset words room) t = ((- EINVAL, \<lambda>_. 0), t)"
  using assms by (simp add: x1_topo_read_def Let_def x1_read_address_def)

lemma unat_below_128: "t < 128 \<Longrightarrow> unat (t + 1) = Suc (unat t)" for t :: u32
  by (simp add: word_less_nat_alt unat_word_ariths)

interpretation topo_budget: budget
  "\<lambda>(route, port, space, offset, words, room) t. snd (run_state (x1_topo_read ans route port space offset words room) t)"
  "\<lambda>t. unat (t_reads t)" 128 for ans
proof unfold_locales
  fix i :: "u32 \<times> u32 \<times> u32 \<times> u32 \<times> u32 \<times> nat" and t :: x1_topology
  obtain route port space offset words room where i: "i = (route, port, space, offset, words, room)"
    by (cases i)
  let ?spec = "\<lparr>rs_route = route, rs_port = port, rs_space = space, rs_offset = offset,
    rs_words = words, rs_seq = 0\<rparr>"
  show "unat (t_reads ((case i of (route, port, space, offset, words, room) \<Rightarrow>
      \<lambda>t. snd (run_state (x1_topo_read ans route port space offset words room) t)) t)) \<le> Suc (unat (t_reads t))"
    by (cases "read_spec_bad ?spec") (simp_all add: i topo_read_bad topo_read_good unat_below_128 not_le)
  show "128 \<le> unat (t_reads t) \<Longrightarrow> unat (t_reads ((case i of (route, port, space, offset, words, room) \<Rightarrow>
      \<lambda>t. snd (run_state (x1_topo_read ans route port space offset words room) t)) t)) \<le> unat (t_reads t)"
    by (cases "read_spec_bad ?spec")
      (simp_all add: i topo_read_bad topo_read_good word_le_nat_alt)
qed

interpretation topo: history_order topo_ext
proof unfold_locales
  fix s t u
  show "topo_ext s s" by (simp add: topo_ext_def)
  assume "topo_ext s t" "topo_ext t u"
  then obtain ds es where "t_log t = ds @ t_log s" "t_log u = es @ t_log t"
    "list_all topo_event_ok ds" "list_all topo_event_ok es"
    "unat (t_reads t) = unat (t_reads s) + length (filter is_topo_read ds)"
    "unat (t_reads u) = unat (t_reads t) + length (filter is_topo_read es)"
    "unat (t_reads t) \<le> max (unat (t_reads s)) 128" "unat (t_reads u) \<le> max (unat (t_reads t)) 128"
    unfolding topo_ext_def by blast
  then show "topo_ext s u" unfolding topo_ext_def
    by (intro exI [of _ "es @ ds"]) auto
qed

lemma keeps_topo_read: "unat words \<le> room \<Longrightarrow> keeps topo_ext (x1_topo_read ans route port space offset words room)"
  unfolding keeps_def
proof
  fix t
  assume room: "unat words \<le> room"
  let ?spec = "\<lparr>rs_route = route, rs_port = port, rs_space = space, rs_offset = offset,
    rs_words = words, rs_seq = 0\<rparr>"
  show "topo_ext t (snd (run_state (x1_topo_read ans route port space offset words room) t))"
  proof (cases "read_spec_bad ?spec \<or> t_reads t \<ge> 128")
    case True
    then show ?thesis by (cases "read_spec_bad ?spec") (auto simp: topo_read_bad topo_read_good topo.refl)
  next
    case False
    moreover from this have "unat (t_reads t) \<le> 127" by (simp add: word_le_nat_alt not_le)
    ultimately show ?thesis using room
      by (auto simp: topo_read_good topo_ext_def topo_event_ok_def is_topo_read_def unat_below_128 not_le
          intro!: exI [of _ "[Topo_read ?spec room]"])
  qed
qed

lemma keeps_topo_report: "keeps topo_ext (topo_report tag route port offset words)"
  unfolding keeps_def topo_report_def topo_ext_def
  by (auto simp: topo_event_ok_def is_topo_read_def
      intro!: exI [of _ "[Topo_report tag route port offset words]"])

lemma keeps_topo_update:
  assumes "\<And>t. t_reads (f t) = t_reads t" and "\<And>t. t_log (f t) = t_log t"
  shows "keeps topo_ext (topo_update f)"
  using assms by (simp add: keeps_def topo_update_def topo_ext_def)

lemmas topo_keeps = topo.keeps_rules keeps_topo_read keeps_topo_report keeps_topo_update

lemma keeps_caps_loop: "keeps topo_ext (topo_caps_loop ans route port type n seen cap)"
proof (induction n arbitrary: seen cap)
  case (Suc n)
  show ?case
    unfolding topo_caps_loop.simps Let_def by (intro topo_keeps Suc.IH) auto
qed (simp add: topo.keeps_return)

lemma keeps_adapters: "keeps topo_ext (topo_adapters ans route ports)"
  by (induction ports) (auto simp: Let_def intro!: topo_keeps)

lemma keeps_router: "keeps topo_ext (x1_topology_router ans route header)"
  unfolding x1_topology_router_def x1_topo_caps_def topo_port_caps_def
  by (auto intro!: topo_keeps topo.keeps_run_ok keeps_caps_loop keeps_adapters)

section \<open>Every request is well formed\<close>

definition topo_site :: "u32 \<Rightarrow> u32 \<Rightarrow> bool" where
  "topo_site route port \<longleftrightarrow> (route = 0 \<and> port \<le> 7) \<or> (route = 2 \<and> port \<le> 5)"

lemma topo_site_port: "topo_site route port \<Longrightarrow> (route = 0 \<or> route = 2) \<and> port \<le> 7 \<and> (route \<noteq> 0 \<longrightarrow> port \<le> 5)"
  by (auto simp: topo_site_def word_le_nat_alt)

lemma caps_spec_good:
  assumes "topo_site route port" and "\<not> 254 < cap" and "\<not> cap < (if port \<noteq> 0 then 8 else 9)"
  shows "\<not> read_spec_bad \<lparr>rs_route = route, rs_port = port, rs_space = (if port \<noteq> 0 then 1 else 2),
      rs_offset = cap, rs_words = (if port \<noteq> 0 then 1 else 2), rs_seq = 0\<rparr>"
    and "port \<noteq> 0 \<Longrightarrow> \<not> read_spec_bad \<lparr>rs_route = route, rs_port = port, rs_space = 1,
      rs_offset = cap + 1, rs_words = 1, rs_seq = 0\<rparr>"
proof -
  have c: "unat cap \<le> 254" "port = 0 \<Longrightarrow> 9 \<le> unat cap"
    using assms(2,3) by (auto simp: word_less_nat_alt not_less)
  note p = topo_site_port [OF assms(1)]
  show "\<not> read_spec_bad \<lparr>rs_route = route, rs_port = port, rs_space = (if port \<noteq> 0 then 1 else 2),
      rs_offset = cap, rs_words = (if port \<noteq> 0 then 1 else 2), rs_seq = 0\<rparr>"
    using c p by (auto simp: read_spec_bad_def word_less_nat_alt word_le_nat_alt not_le unat_word_ariths)
  show "port \<noteq> 0 \<Longrightarrow> \<not> read_spec_bad \<lparr>rs_route = route, rs_port = port, rs_space = 1,
      rs_offset = cap + 1, rs_words = 1, rs_seq = 0\<rparr>"
    using c p by (auto simp: read_spec_bad_def word_less_nat_alt word_le_nat_alt not_le unat_word_ariths)
qed

lemma rets_topo_read:
  assumes "\<And>h. fst (ans h) \<noteq> - EINVAL"
    and "\<not> read_spec_bad \<lparr>rs_route = route, rs_port = port, rs_space = space, rs_offset = offset,
      rs_words = words, rs_seq = 0\<rparr>"
  shows "rets (\<lambda>(ret, data). ret \<noteq> - EINVAL) (x1_topo_read ans route port space offset words room)"
  using assms(1) by (simp add: rets_def topo_read_good [OF assms(2)] split_beta)

lemma rets_skip: "rets Q k \<Longrightarrow> rets Q (topo_report tag r p off ws \<bind> (\<lambda>_. k))"
  "rets Q k \<Longrightarrow> rets Q (topo_update f \<bind> (\<lambda>_. k))"
  by (simp_all add: rets_def topo_report_def topo_update_def)

lemma rets_topo_bind:
  assumes "\<And>h. fst (ans h) \<noteq> - EINVAL"
    and "\<not> read_spec_bad \<lparr>rs_route = route, rs_port = port, rs_space = space, rs_offset = offset,
      rs_words = words, rs_seq = 0\<rparr>"
    and "\<And>ret data. ret \<noteq> - EINVAL \<Longrightarrow> rets Q (k ret data)"
  shows "rets Q (x1_topo_read ans route port space offset words room \<bind> (\<lambda>(ret, data). k ret data))"
  by (rule rets_bind [OF rets_topo_read [OF assms(1,2)]]) (auto intro: assms(3))

lemma rets_if: "(b \<Longrightarrow> rets Q m) \<Longrightarrow> (\<not> b \<Longrightarrow> rets Q n) \<Longrightarrow> rets Q (if b then m else n)"
  by simp

lemma rets_caps_loop:
  assumes ans: "\<And>h. fst (ans h) \<noteq> - EINVAL" and site: "topo_site route port"
  shows "rets (\<lambda>ret. ret \<noteq> - EINVAL) (topo_caps_loop ans route port type n seen cap)"
proof (induction n arbitrary: seen cap)
  case (Suc n)
  have cs1: "has_cs1 port cap_id type \<Longrightarrow> port \<noteq> 0" for cap_id by (simp add: has_cs1_def)
  show ?case
    unfolding topo_caps_loop.simps Let_def
    by (intro rets_if rets_skip rets_topo_bind [OF ans] Suc.IH)
      (use caps_spec_good [OF site] cs1 in \<open>simp_all\<close>)
qed simp

lemma rets_adapters:
  assumes ans: "\<And>h. fst (ans h) \<noteq> - EINVAL" and sites: "\<forall>p \<in> set ports. topo_site route p \<and> p \<noteq> 0"
  shows "rets (\<lambda>(ret, ps). ret \<noteq> - EINVAL \<and> (\<forall>(p, x) \<in> set ps. topo_site route p))
    (topo_adapters ans route ports)"
  using sites
proof (induction ports)
  case (Cons port ports)
  then have site: "topo_site route port" "port \<noteq> 0" and IH:
    "rets (\<lambda>(ret, ps). ret \<noteq> - EINVAL \<and> (\<forall>(p, x) \<in> set ps. topo_site route p)) (topo_adapters ans route ports)"
    by simp_all
  from site topo_site_port [OF site(1)]
  have "\<not> read_spec_bad \<lparr>rs_route = route, rs_port = port, rs_space = 1, rs_offset = 0, rs_words = 8, rs_seq = 0\<rparr>"
    by (auto simp: read_spec_bad_def word_less_nat_alt word_le_nat_alt)
  then show ?case
    unfolding topo_adapters.simps Let_def
    by (intro rets_topo_bind [OF ans] rets_if rets_skip rets_bind [OF IH]) (use site in auto)
qed simp

lemma topo_ports_site: "topo_header_ok route h \<Longrightarrow> p \<in> set (topo_ports route) \<Longrightarrow> topo_site route p \<and> p \<noteq> 0"
  by (auto simp: topo_header_ok_def topo_ports_def topo_site_def split: if_splits)

lemma rets_run_ok: "(\<And>m. m \<in> set ms \<Longrightarrow> rets Q m) \<Longrightarrow> Q 0 \<Longrightarrow> rets Q (run_ok ms)"
  by (induction ms) (auto intro!: rets_bind [where P = Q])

lemma rets_router:
  assumes ans: "\<And>h. fst (ans h) \<noteq> - EINVAL"
  shows "rets (\<lambda>ret. ret \<noteq> - EINVAL) (x1_topology_router ans route header)"
proof (cases "topo_header_ok route header")
  case True
  then have r: "route = 0 \<or> route = 2" by (auto simp: topo_header_ok_def split: if_splits)
  then have cs: "\<not> read_spec_bad \<lparr>rs_route = route, rs_port = 0, rs_space = 2, rs_offset = 5,
      rs_words = 4, rs_seq = 0\<rparr>" and s0: "topo_site route 0"
    by (auto simp: read_spec_bad_def topo_site_def)
  have ports: "rets (\<lambda>ret. ret \<noteq> - EINVAL) (run_ok (map (topo_port_caps ans route) ps))"
    if "\<forall>(p, x) \<in> set ps. topo_site route p" for ps
    using that
    by (intro rets_run_ok) (auto simp: topo_port_caps_def x1_topo_caps_def intro!: rets_caps_loop ans)
  have adapters: "rets (\<lambda>(ret, ps). ret \<noteq> - EINVAL \<and> (\<forall>(p, x) \<in> set ps. topo_site route p))
      (topo_adapters ans route (topo_ports route))"
    by (intro rets_adapters ans) (use topo_ports_site [OF True] in blast)
  have tail: "rets (\<lambda>ret. ret \<noteq> - EINVAL) (do {
      (ret, data) \<leftarrow> x1_topo_read ans route 0 2 5 4 8;
      if ret \<noteq> 0 then State_Monad.return ret
      else do {
        topo_report ''ROUTER'' route 0 5 (map data [0..<4]);
        topo_caps_loop ans route 0 0 X1_TOPO_CAP_LIMIT [] (header ! 1 AND 0xff)
      }})"
    by (intro rets_topo_bind [OF ans cs] rets_if rets_skip rets_caps_loop ans s0) simp_all
  show ?thesis
    unfolding x1_topology_router_def x1_topo_caps_def using True
    by (auto intro!: rets_bind [OF adapters] rets_if rets_bind [OF ports] tail)
qed (simp add: x1_topology_router_def)

section \<open>Walks are bounded\<close>

text \<open>
  \<open>topo_count P\<close> counts the events of the kind \<open>P\<close>.  The reads that visit a capability fill the walk's array of two words; a control status word goes behind the first of them.
\<close>

definition is_cap_read :: "topo_event \<Rightarrow> bool" where
  "is_cap_read e \<longleftrightarrow> (case e of Topo_read s room \<Rightarrow> room = 2 | _ \<Rightarrow> False)"

definition topo_count :: "(topo_event \<Rightarrow> bool) \<Rightarrow> x1_topology \<Rightarrow> nat" where
  "topo_count P t = length (filter P (t_log t))"

lemma adds_read:
  "adds (topo_count P) (Suc 0) (x1_topo_read ans route port space offset words room)"
  "(\<And>s. \<not> P (Topo_read s room)) \<Longrightarrow> adds (topo_count P) 0 (x1_topo_read ans route port space offset words room)"
  by (auto simp: adds_def topo_count_def x1_topo_read_def Let_def)

lemma adds_skip:
  "\<not> P (Topo_report tag r p off ws) \<Longrightarrow> adds (topo_count P) 0 (topo_report tag r p off ws)"
  "(\<And>t. t_log (f t) = t_log t) \<Longrightarrow> adds (topo_count P) 0 (topo_update f)"
  by (auto simp: adds_def topo_count_def topo_report_def topo_update_def)

lemma adds_caps_loop:
  "adds (topo_count is_topo_read) (2 * n) (topo_caps_loop ans route port type n seen cap)"
  "adds (topo_count is_cap_read) n (topo_caps_loop ans route port type n seen cap)"
proof (induction n arbitrary: seen cap)
  case (Suc n)
  {
    case 1
    have e: "2 * Suc n = Suc (Suc (2 * n))" by simp
    have m: "adds (topo_count is_topo_read) (Suc (2 * n)) (topo_caps_loop ans route port type n seen cap)" for seen cap
      by (rule adds_mono [OF Suc.IH(1)]) simp
    show ?case
      unfolding topo_caps_loop.simps Let_def e
      by (intro adds_if adds_return adds_quiet [OF adds_skip(1)] adds_quiet [OF adds_skip(2)] adds_one [OF adds_read(1)]
          adds_case_prod Suc.IH(1) m) (simp_all add: is_topo_read_def)
  next
    case 2
    show ?case
      unfolding topo_caps_loop.simps Let_def
      by (intro adds_if adds_return adds_quiet [OF adds_skip(1)] adds_quiet [OF adds_skip(2)] adds_quiet [OF adds_read(2)]
          adds_one [OF adds_read(1)] adds_case_prod Suc.IH(2)) (simp_all add: is_cap_read_def)
  }
qed (simp_all add: adds_return)

section \<open>Properties\<close>

definition topo_init :: x1_topology where
  "topo_init = \<lparr>t_reads = 0, t_adapters = 0, t_caps = 0, t_lanes = 0, t_pcie_up = 0, t_pcie_down = 0,
     t_skipped = 0, t_log = []\<rparr>"

text \<open>
  C32. Whatever the routers answer, any sequence of inventories of one owner issues at most 128 reads
  in all, and every one of them is a request the packet layer accepts and fits the array it is read into.
\<close>

theorem topology_reads_bounded:
  "let t = fold (\<lambda>(route, header) t. snd (run_state (x1_topology_router ans route header) t)) jobs topo_init
   in length (filter is_topo_read (t_log t)) \<le> 128 \<and>
      (\<forall>s room. Topo_read s room \<in> set (t_log t) \<longrightarrow> \<not> read_spec_bad s \<and> unat (rs_words s) \<le> room)"
proof -
  let ?t = "fold (\<lambda>job t. snd (run_state (case job of (route, header) \<Rightarrow>
    x1_topology_router ans route header) t)) jobs topo_init"
  have "topo_ext topo_init ?t"
    by (rule topo.fold_keeps) (auto intro: keeps_router split: prod.splits)
  then have *: "length (filter is_topo_read (t_log ?t)) \<le> 128" "list_all topo_event_ok (t_log ?t)"
    by (auto simp: topo_ext_def topo_init_def)
  have "(\<lambda>(route, header) t. snd (run_state (x1_topology_router ans route header) t)) =
    (\<lambda>job t. snd (run_state (case job of (route, header) \<Rightarrow> x1_topology_router ans route header) t))"
    by (auto simp: fun_eq_iff)
  with * show ?thesis by (auto simp: Let_def list_all_iff topo_event_ok_def)
qed

theorem topology_reads_bounded_witness:
  "let t = fold (\<lambda>(route, header) t. snd (run_state (x1_topology_router (\<lambda>_. (- EIO, \<lambda>_. 0)) route header) t))
       [(0, [0x093805c6, 0x0101c11c, 0, 0x80000000, 0x200010ff])] topo_init
   in t_log t = [Topo_read \<lparr>rs_route = 0, rs_port = 1, rs_space = 1, rs_offset = 0, rs_words = 8, rs_seq = 0\<rparr> 8] \<and>
      \<not> read_spec_bad \<lparr>rs_route = 0, rs_port = 1, rs_space = 1, rs_offset = 0, rs_words = 8, rs_seq = 0\<rparr>"
  using topology_reads_bounded [of "\<lambda>_. (- EIO, \<lambda>_. 0)"
      "[(0, [0x093805c6, 0x0101c11c, 0, 0x80000000, 0x200010ff])]"]
  by (simp add: x1_topology_router_def topo_header_ok_def topo_ports_def topo_init_def topo_read_good
      read_spec_bad_def)

text \<open>
  C33. An inventory never turns into a malformed request: as long as the read callback does not report
  \<open>-EINVAL\<close> itself, neither does the inventory of either router, for any chain of capabilities the
  device presents; a chain of any shape, cyclic ones included, ends after at most 16 reads of a
  capability and 32 reads in all; and a router with another header is refused with \<open>-EPERM\<close> before the
  first read.
\<close>

theorem topology_walk_safe:
  assumes "\<forall>h. fst (ans h) \<noteq> - EINVAL"
  shows "fst (run_state (x1_topology_router ans route header) t) \<noteq> - EINVAL \<and>
    length (filter is_topo_read (t_log (snd (run_state (x1_topo_caps ans route port cap type) t)))) \<le>
      length (filter is_topo_read (t_log t)) + 32 \<and>
    length (filter is_cap_read (t_log (snd (run_state (x1_topo_caps ans route port cap type) t)))) \<le>
      length (filter is_cap_read (t_log t)) + 16 \<and>
    (\<not> topo_header_ok route header \<longrightarrow> run_state (x1_topology_router ans route header) t = (- EPERM, t))"
  using assms rets_router [of ans route header] adds_caps_loop [of 16 ans route port type "[]" cap]
  by (auto simp: rets_def adds_def topo_count_def x1_topo_caps_def X1_TOPO_CAP_LIMIT_def x1_topology_router_def)

theorem topology_walk_safe_witness:
  "fst (run_state (x1_topology_router (\<lambda>_. (0, \<lambda>_. 0x0810)) 2
      [0x113b059f, 0x00114120, 2, 0x80000000, 0x200010ff]) topo_init) \<noteq> - EINVAL"
  using topology_walk_safe [of "\<lambda>_. (0, \<lambda>_. 0x0810)"] by simp

end
