(* ===== verification/X1_Link.thy ===== *)
theory X1_Link
  imports X1_Topology X1_Board X1_Time
begin

unbundle bit_operations_syntax

text \<open>
  The one manual enumeration over the control rings
  (\<open>snapshot/kernel/drivers/thunderbolt/qcom-x1-nhi-diag.c\<close>, from \<open>link_stop_locked\<close> to the end): the
  transport of configuration requests with its hotplug events, the root configuration, the discovery
  of the lanes, the connect command, the unlock of the primary port, and the inventory of the topology.

  The rings, the clock, the caller's \<open>valid\<close> callback and the MCU are events of one history; their
  answers are functions of it.  A buffer of the send array is all zero when it is first used, and an
  index outside an array or a packet function that leaves its buffer sets \<open>l_fault\<close>, so the absence of
  undefined behaviour is the property that it stays unset.  Log messages are left out.
\<close>

section \<open>State\<close>

definition X1_RX_COUNT :: nat where "X1_RX_COUNT = 384"
definition X1_TX_COUNT :: nat where "X1_TX_COUNT = 256"

text \<open>The size of a frame buffer (\<open>include/linux/thunderbolt.h\<close>).\<close>

definition TB_FRAME_SIZE :: nat where "TB_FRAME_SIZE = 256"

text \<open>A received packet: the ring's descriptor fields, and the bytes of its buffer.\<close>

record rx_packet =
  rx_canceled :: bool
  rx_flags :: u32
  rx_size :: u32
  rx_sof :: u32
  rx_eof :: u32
  rx_byte :: "nat \<Rightarrow> u8"

definition rx_data :: "rx_packet \<Rightarrow> u8 list" where
  "rx_data p = map (rx_byte p) [0..<TB_FRAME_SIZE]"

text \<open>
  A transmission carries the index of its buffer, the frame size and type, and the bytes; a wait the
  index of the buffer waited for.
\<close>

datatype link_act =
    L_valid | L_jiffies | L_tx nat nat u32 "u8 list" | L_tx_done nat | L_rx nat
  | L_connect u32 | L_msleep nat | L_disable_interrupts | L_sync_irq | L_stop_rx | L_stop_tx

record link_state =
  l_next_tx :: nat
  l_next_rx :: nat
  l_rings_started :: bool
  l_stopped :: bool
  l_link_attempted :: bool
  l_connect :: bool
  l_events :: nat
  l_deadline :: u64
  l_topo :: x1_topology
  l_fault :: bool
  l_log :: "link_act list"

text \<open>
  \<open>le_rx\<close> is \<^const>\<open>None\<close> and \<open>le_tx_done\<close> is \<^const>\<open>None\<close> when the wait times out; \<open>le_tx_done\<close> otherwise
  says whether the frame was canceled.  \<open>le_bad_flags\<close> are the descriptor flags of a checksum error and of
  an overrun.
\<close>

record link_env =
  le_crc :: crc32c
  le_valid :: "link_act list \<Rightarrow> bool"
  le_now :: "link_act list \<Rightarrow> u64"
  le_tx :: "link_act list \<Rightarrow> int"
  le_tx_done :: "link_act list \<Rightarrow> bool option"
  le_rx :: "link_act list \<Rightarrow> rx_packet option"
  le_connect :: "link_act list \<Rightarrow> int"
  le_bad_flags :: u32
  le_msecs :: "nat \<Rightarrow> u64"
  le_irq_requested :: bool
  le_board :: board

definition lask :: "(link_act list \<Rightarrow> 'a) \<Rightarrow> link_act \<Rightarrow> (link_state, 'a) state" where
  "lask f e = State (\<lambda>l. (f (e # l_log l), l\<lparr>l_log := e # l_log l\<rparr>))"

definition lget :: "(link_state \<Rightarrow> 'a) \<Rightarrow> (link_state, 'a) state" where
  "lget f = State (\<lambda>l. (f l, l))"

definition lset :: "(link_state \<Rightarrow> link_state) \<Rightarrow> (link_state, unit) state" where
  "lset f = State (\<lambda>l. ((), f l))"

text \<open>A packet function that left its buffer.\<close>

definition checked :: "'a \<Rightarrow> 'a option \<Rightarrow> (link_state, 'a) state" where
  "checked dflt v = (case v of
     Some a \<Rightarrow> State_Monad.return a
   | None \<Rightarrow> do { lset (\<lambda>l. l\<lparr>l_fault := True\<rparr>); State_Monad.return dflt })"

definition in_bounds :: "bool \<Rightarrow> (link_state, unit) state" where
  "in_bounds ok = (if ok then State_Monad.return () else lset (\<lambda>l. l\<lparr>l_fault := True\<rparr>))"

abbreviation lvalid :: "link_env \<Rightarrow> (link_state, bool) state" where
  "lvalid env \<equiv> lask (le_valid env) L_valid"

abbreviation lnow :: "link_env \<Rightarrow> (link_state, u64) state" where
  "lnow env \<equiv> lask (le_now env) L_jiffies"

section \<open>Stopping\<close>

definition link_stop_locked :: "link_env \<Rightarrow> (link_state, unit) state" where
  "link_stop_locked env = do {
     stopped \<leftarrow> lget l_stopped;
     if stopped then State_Monad.return ()
     else do {
       lset (\<lambda>l. l\<lparr>l_stopped := True\<rparr>);
       lask (\<lambda>_. ()) L_disable_interrupts;
       (if le_irq_requested env then lask (\<lambda>_. ()) L_sync_irq else State_Monad.return ());
       started \<leftarrow> lget l_rings_started;
       if started then do { lask (\<lambda>_. ()) L_stop_rx; lask (\<lambda>_. ()) L_stop_tx } else State_Monad.return ()
     }
   }"

section \<open>Transport\<close>

definition fresh_buffer :: "u8 list" where
  "fresh_buffer = replicate TB_FRAME_SIZE 0"

text \<open>The next buffer of the send array; \<open>tb_ring_tx\<close> on it; the wait for its completion.\<close>

definition take_tx :: "(link_state, nat) state" where
  "take_tx = do {
     i \<leftarrow> lget l_next_tx;
     in_bounds (i < X1_TX_COUNT);
     lset (\<lambda>l. l\<lparr>l_next_tx := i + 1\<rparr>);
     State_Monad.return i
   }"

text \<open>\<open>now = jiffies; if (time_after_eq(now, deadline) || !wait\<dots>)\<close>: \<^const>\<open>None\<close> when too late or timed out.\<close>

definition wait_tx :: "link_env \<Rightarrow> nat \<Rightarrow> u64 \<Rightarrow> (link_state, bool option) state" where
  "wait_tx env i deadline = do {
     now \<leftarrow> lnow env;
     if time_after_eq now deadline then State_Monad.return None
     else lask (le_tx_done env) (L_tx_done i)
   }"

definition wait_rx :: "link_env \<Rightarrow> nat \<Rightarrow> u64 \<Rightarrow> (link_state, rx_packet option) state" where
  "wait_rx env i deadline = do {
     now \<leftarrow> lnow env;
     if time_after_eq now deadline then State_Monad.return None
     else lask (le_rx env) (L_rx i)
   }"

text \<open>The acknowledgement of a decoded event.\<close>

definition link_ack :: "link_env \<Rightarrow> x1_plug_event \<Rightarrow> u64 \<Rightarrow> (link_state, int) state" where
  "link_ack env ev deadline = do {
     lset (\<lambda>l. l\<lparr>l_events := l_events l + 1\<rparr>);
     i \<leftarrow> take_tx;
     (ret, wire) \<leftarrow> checked (- EINVAL, None) (x1_event_ack (le_crc env) (Some fresh_buffer) (Some ev));
     if ret \<noteq> 0 then State_Monad.return ret
     else do {
       ret \<leftarrow> lask (le_tx env) (L_tx i 16 3 (case wire of Some w \<Rightarrow> w | None \<Rightarrow> []));
       if ret \<noteq> 0 then State_Monad.return ret
       else do {
         fin \<leftarrow> wait_tx env i deadline;
         case fin of
           None \<Rightarrow> State_Monad.return (- ETIMEDOUT)
         | Some canceled \<Rightarrow>
             if canceled then State_Monad.return (- ESHUTDOWN)
             else if ev_unplug ev then State_Monad.return (- ENOTCONN)
             else do { ok \<leftarrow> lvalid env; State_Monad.return (if ok then 0 else - ENOTCONN) }
       }
     }
   }"

definition link_event :: "link_env \<Rightarrow> rx_packet \<Rightarrow> u64 \<Rightarrow> (link_state, int) state" where
  "link_event env rx deadline = do {
     (ret, ev) \<leftarrow> checked (- EINVAL, None) (x1_event_decode (le_crc env) (Some (rx_data rx)) (unat (rx_size rx))
       (rx_sof rx) (rx_eof rx) (Some \<lparr>ev_port = 0, ev_unplug = False\<rparr>));
     if ret \<noteq> 0 then State_Monad.return ret
     else do {
       full \<leftarrow> lget (\<lambda>l. l_events l \<ge> X1_EVENT_LIMIT \<or> l_next_tx l \<ge> X1_TX_COUNT);
       if full then State_Monad.return (- ENOSPC)
       else do {
         ok \<leftarrow> lvalid env;
         if \<not> ok then State_Monad.return (- ENOTCONN)
         else do {
           now \<leftarrow> lnow env;
           if time_after_eq now deadline then State_Monad.return (- ETIMEDOUT)
           else (case ev of None \<Rightarrow> State_Monad.return (- EINVAL) | Some ev \<Rightarrow> link_ack env ev deadline)
         }
       }
     }
   }"

text \<open>A request is a read with the length of the caller's array, or a write.\<close>

datatype link_request = Read x1_read_spec nat | Write x1_write_spec

text \<open>The request with its sequence number, and the frame for it: status, size, type and bytes.\<close>

fun with_seq :: "link_request \<Rightarrow> u32 \<Rightarrow> link_request" where
  "with_seq (Read s n) seq = Read (s\<lparr>rs_seq := seq\<rparr>) n"
| "with_seq (Write s) seq = Write (s\<lparr>ws_seq := seq\<rparr>)"

fun request_frame :: "crc32c \<Rightarrow> link_request \<Rightarrow> (int \<times> u8 list option) option" where
  "request_frame crc (Read s n) = x1_read_request crc (Some fresh_buffer) (Some s)"
| "request_frame crc (Write s) = x1_write_request crc (Some fresh_buffer) (Some s)"

fun request_size :: "link_request \<Rightarrow> nat" where
  "request_size (Read s n) = 16"
| "request_size (Write s) = 16 + 4 * unat (ws_words s)"

fun request_type :: "link_request \<Rightarrow> u32" where
  "request_type (Read s n) = 1"
| "request_type (Write s) = 2"

text \<open>The reply to it: status, and the caller's array afterwards.\<close>

fun request_reply :: "crc32c \<Rightarrow> link_request \<Rightarrow> rx_packet \<Rightarrow> (int \<times> u32 list) option" where
  "request_reply crc (Read s n) rx =
     (case x1_read_reply crc (Some (rx_data rx)) (unat (rx_size rx)) (rx_sof rx) (rx_eof rx) (Some s)
         (Some (replicate n 0)) of
        Some (ret, Some ws) \<Rightarrow> Some (ret, ws)
      | _ \<Rightarrow> None)"
| "request_reply crc (Write s) rx =
     map_option (\<lambda>ret. (ret, []))
       (x1_write_reply crc (Some (rx_data rx)) (unat (rx_size rx)) (rx_sof rx) (rx_eof rx) (Some s))"

text \<open>The loop over the receive buffers, of which \<open>n\<close> are left.\<close>

fun link_replies :: "link_env \<Rightarrow> link_request \<Rightarrow> u64 \<Rightarrow> nat \<Rightarrow> (link_state, int \<times> u32 list) state" where
  "link_replies env req deadline 0 = State_Monad.return (- ETIMEDOUT, [])"
| "link_replies env req deadline (Suc n) = do {
     i \<leftarrow> lget l_next_rx;
     rx \<leftarrow> wait_rx env i deadline;
     case rx of
       None \<Rightarrow> State_Monad.return (- ETIMEDOUT, [])
     | Some rx \<Rightarrow> do {
         lset (\<lambda>l. l\<lparr>l_next_rx := l_next_rx l + 1\<rparr>);
         if rx_canceled rx then State_Monad.return (- ESHUTDOWN, [])
         else if rx_flags rx AND le_bad_flags env \<noteq> 0 then State_Monad.return (- EBADMSG, [])
         else if rx_eof rx = 5 then do {
           ret \<leftarrow> link_event env rx deadline;
           if ret \<noteq> 0 then State_Monad.return (ret, []) else link_replies env req deadline n
         }
         else checked (- EINVAL, []) (request_reply (le_crc env) req rx)
       }
   }"

text \<open>After the transmission of buffer \<open>i\<close>; the transmission itself; the whole transfer.\<close>

definition link_await :: "link_env \<Rightarrow> link_request \<Rightarrow> nat \<Rightarrow> u64 \<Rightarrow> (link_state, int \<times> u32 list) state" where
  "link_await env req i session = do {
     now \<leftarrow> lnow env;
     let deadline = min session (now + le_msecs env 1000);
     left \<leftarrow> lget (\<lambda>l. X1_RX_COUNT - l_next_rx l);
     (ret, out) \<leftarrow> link_replies env req deadline left;
     if ret \<noteq> 0 then State_Monad.return (ret, [])
     else do {
       fin \<leftarrow> wait_tx env i deadline;
       if fin \<noteq> Some False then State_Monad.return (- ETIMEDOUT, [])
       else do { ok \<leftarrow> lvalid env; State_Monad.return (if ok then 0 else - ENOTCONN, out) }
     }
   }"

definition link_send :: "link_env \<Rightarrow> link_request \<Rightarrow> nat \<Rightarrow> u64 \<Rightarrow> (link_state, int \<times> u32 list) state" where
  "link_send env req i session = do {
     (ret, wire) \<leftarrow> checked (- EINVAL, None) (request_frame (le_crc env) req);
     if ret \<noteq> 0 then State_Monad.return (ret, [])
     else do {
       ret \<leftarrow> lask (le_tx env) (L_tx i (request_size req) (request_type req) (case wire of Some w \<Rightarrow> w | None \<Rightarrow> []));
       if ret \<noteq> 0 then State_Monad.return (ret, []) else link_await env req i session
     }
   }"

definition link_transfer :: "link_env \<Rightarrow> link_request \<Rightarrow> (link_state, int \<times> u32 list) state" where
  "link_transfer env req = do {
     full \<leftarrow> lget (\<lambda>l. l_next_tx l = X1_TX_COUNT);
     if full then State_Monad.return (- ENOSPC, [])
     else do {
       ok \<leftarrow> lvalid env;
       if \<not> ok then State_Monad.return (- ENOTCONN, [])
       else do {
         now \<leftarrow> lnow env;
         session \<leftarrow> lget l_deadline;
         if time_after_eq now session then State_Monad.return (- ETIME, [])
         else do {
           i \<leftarrow> take_tx;
           link_send env (with_seq req (of_nat i AND 3)) i session
         }
       }
     }
   }"

definition link_read ::
    "link_env \<Rightarrow> u32 \<Rightarrow> u32 \<Rightarrow> u32 \<Rightarrow> u32 \<Rightarrow> u32 \<Rightarrow> nat \<Rightarrow> (link_state, int \<times> u32 list) state" where
  "link_read env route port space offset words len =
     link_transfer env (Read \<lparr>rs_route = route, rs_port = port, rs_space = space, rs_offset = offset, rs_words = words,
       rs_seq = 0\<rparr> len)"

definition link_write :: "link_env \<Rightarrow> u32 \<Rightarrow> u32 \<Rightarrow> u32 \<Rightarrow> u32 \<Rightarrow> u32 list \<Rightarrow> u32 list \<Rightarrow> (link_state, int) state" where
  "link_write env port space offset words before after = do {
     (ret, _) \<leftarrow> link_transfer env (Write \<lparr>ws_port = port, ws_space = space, ws_offset = offset, ws_words = words,
       ws_seq = 0, ws_before = Some before, ws_after = Some after, ws_route = 0\<rparr>);
     State_Monad.return ret
   }"
section \<open>The root router\<close>

text \<open>A word of the caller's array.\<close>

definition word :: "u32 list \<Rightarrow> nat \<Rightarrow> u32" where
  "word ws i = (if i < length ws then ws ! i else 0)"

text \<open>
  Read, plan, write and verify the root header; the result has the header read and the four words
  planned.  The first part is the write with its verification.
\<close>

definition link_configure :: "link_env \<Rightarrow> u32 list \<Rightarrow> u32 list \<Rightarrow> (link_state, int \<times> u32 list \<times> u32 list) state" where
  "link_configure env host root_config = do {
     ret \<leftarrow> link_write env 0 2 1 4 (drop 1 host) root_config;
     if ret \<noteq> 0 then State_Monad.return (ret, [], [])
     else do {
       (ret, data) \<leftarrow> link_read env 0 0 2 0 5 8;
       if ret \<noteq> 0 then State_Monad.return (ret, [], [])
       else if word data 0 \<noteq> word host 0 \<or> take 4 (drop 1 data) \<noteq> root_config then State_Monad.return (- EIO, [], [])
       else State_Monad.return (0, host, root_config)
     }
   }"

definition link_plan :: "link_env \<Rightarrow> u32 list \<Rightarrow> (link_state, int \<times> u32 list \<times> u32 list) state" where
  "link_plan env host = do {
     (ret, plan) \<leftarrow> checked (- EINVAL, None) (x1_root_plan (Some host) (Some (replicate 4 0)));
     if ret \<noteq> 0 then State_Monad.return (ret, [], [])
     else link_configure env host (case plan of Some p \<Rightarrow> p | None \<Rightarrow> [])
   }"

definition link_root :: "link_env \<Rightarrow> (link_state, int \<times> u32 list \<times> u32 list) state" where
  "link_root env = do {
     (ret, host) \<leftarrow> link_read env 0 0 2 0 5 5;
     if ret \<noteq> 0 then State_Monad.return (ret, [], []) else link_plan env host
   }"

section \<open>The lanes\<close>

text \<open>The walk of one port's capabilities, \<open>n\<close> rounds left; 0 for the offset when no lane capability was found.\<close>

fun link_caps :: "link_env \<Rightarrow> u32 \<Rightarrow> nat \<Rightarrow> u32 list \<Rightarrow> u32 \<Rightarrow> (link_state, int \<times> u32) state" where
  "link_caps env port 0 seen cap = State_Monad.return (0, 0)"
| "link_caps env port (Suc n) seen cap =
     (if cap = 0 then State_Monad.return (0, 0)
      else if cap < 8 \<or> cap > 254 \<or> cap \<in> set seen then State_Monad.return (- EPROTO, 0)
      else do {
        (ret, data) \<leftarrow> link_read env 0 port 1 cap 2 8;
        if ret \<noteq> 0 then State_Monad.return (ret, 0)
        else if drop_bit 8 (word data 0) AND 0xff = 1 then State_Monad.return (0, cap)
        else link_caps env port n (cap # seen) (word data 0 AND 0xff)
      })"

text \<open>The eight capability offsets by port, 0 where there is none; the loop over the ports.\<close>

fun link_lanes :: "link_env \<Rightarrow> nat list \<Rightarrow> u32 list \<Rightarrow> (link_state, int \<times> u32 list) state" where
  "link_lanes env [] caps = State_Monad.return (0, caps)"
| "link_lanes env (port # ports) caps = do {
     (ret, data) \<leftarrow> link_read env 0 (of_nat port) 1 0 8 8;
     if ret \<noteq> 0 then State_Monad.return (ret, caps)
     else if word data 2 AND 0xffffff \<noteq> 1 then link_lanes env ports caps
     else do {
       (ret, cap) \<leftarrow> link_caps env (of_nat port) 16 [] (word data 1 AND 0xff);
       if ret \<noteq> 0 then State_Monad.return (ret, caps)
       else do {
         in_bounds (port < length caps);
         if cap = 0 then State_Monad.return (- EOPNOTSUPP, caps)
         else link_lanes env ports (caps[port := cap])
       }
     }
   }"

definition lane_count :: "u32 list \<Rightarrow> nat" where
  "lane_count caps = length (filter (\<lambda>c. c \<noteq> 0) caps)"

text \<open>One pass over the lanes: which of them are up.\<close>

fun lanes_up :: "link_env \<Rightarrow> u32 list \<Rightarrow> nat list \<Rightarrow> nat list \<Rightarrow> (link_state, int \<times> nat list) state" where
  "lanes_up env caps [] up = State_Monad.return (0, up)"
| "lanes_up env caps (port # ports) up = do {
     in_bounds (port < length caps);
     if word caps port = 0 then lanes_up env caps ports up
     else do {
       (ret, data) \<leftarrow> link_read env 0 (of_nat port) 1 (word caps port) 2 8;
       if ret \<noteq> 0 then State_Monad.return (ret, up)
       else let state = drop_bit 26 (word data 1) AND 0xf in
         lanes_up env caps ports
           (if 2 \<le> state \<and> state \<le> 6 \<and> \<not> bit (word data 1) 14 then port # up else up)
     }
   }"

fun lane_poll :: "link_env \<Rightarrow> u32 list \<Rightarrow> nat list \<Rightarrow> nat \<Rightarrow> nat list \<Rightarrow> (link_state, int \<times> nat list) state" where
  "lane_poll env caps ports 0 up = State_Monad.return (0, up)"
| "lane_poll env caps ports (Suc n) _ = do {
     (ret, up) \<leftarrow> lanes_up env caps ports [];
     if ret \<noteq> 0 then State_Monad.return (ret, up)
     else if 2 \<in> set up then State_Monad.return (0, up)
     else do {
       lask (\<lambda>_. ()) (L_msleep 100);
       lane_poll env caps ports n up
     }
   }"

section \<open>The primary port and the external router\<close>

definition link_unlock :: "link_env \<Rightarrow> (link_state, int) state" where
  "link_unlock env = do {
     (ret, data) \<leftarrow> link_read env 0 2 1 4 1 1;
     if ret \<noteq> 0 then State_Monad.return ret
     else let before = word data 0; after = before AND NOT (push_bit 31 1) in
       if before = after then State_Monad.return 0
       else do {
         ret \<leftarrow> link_write env 2 1 4 1 [before] [after];
         if ret \<noteq> 0 then State_Monad.return ret
         else do {
           (ret, data) \<leftarrow> link_read env 0 2 1 4 1 8;
           State_Monad.return (if ret \<noteq> 0 then ret else if word data 0 \<noteq> after then - EIO else 0)
         }
       }
   }"

text \<open>
  The snapshot refuses every external router after the read of its baseline; what follows in the
  source cannot be reached.  The second component is the configured header.
\<close>

definition link_external_init :: "link_env \<Rightarrow> u32 list \<Rightarrow> (link_state, int \<times> u32 list) state" where
  "link_external_init env header = do {
     (ret, plan) \<leftarrow> checked (- EINVAL, None) (x1_external_plan (Some header) (Some (replicate 4 0)));
     if ret \<noteq> 0 then State_Monad.return (ret, [])
     else do {
       (ret, state) \<leftarrow> link_read env 2 0 2 5 4 4;
       if ret \<noteq> 0 then State_Monad.return (ret, []) else State_Monad.return (- EPERM, [])
     }
   }"

text \<open>
  The inventory with \<open>topology_read\<close> as its read callback; the array it reads into has the room that the
  inventory's own variable has.  The callback's answer to the newest read of
  a log is the result of that transfer after the transfers for the reads before it.
\<close>

fun topology_read :: "link_env \<Rightarrow> topo_event list \<Rightarrow> link_state \<Rightarrow> (int \<times> u32 list) \<times> link_state" where
  "topology_read env [] l = ((0, []), l)"
| "topology_read env (Topo_read s room # es) l =
     run_state (link_read env (rs_route s) (rs_port s) (rs_space s) (rs_offset s) (rs_words s) room)
       (snd (topology_read env es l))"
| "topology_read env (Topo_report k r p off ws # es) l = topology_read env es l"

definition new_events :: "x1_topology \<Rightarrow> topo_event list \<Rightarrow> topo_event list" where
  "new_events t log = take (length log - length (t_log t)) log"

definition topology_answer :: "link_env \<Rightarrow> link_state \<Rightarrow> topo_answer" where
  "topology_answer env l = (\<lambda>log. case topology_read env (new_events (l_topo l) log) l of
     ((ret, out), _) \<Rightarrow> (ret, word out))"

definition link_topology :: "link_env \<Rightarrow> u32 \<Rightarrow> u32 list \<Rightarrow> (link_state, int) state" where
  "link_topology env route header = State (\<lambda>l.
     case run_state (x1_topology_router (topology_answer env l) route header) (l_topo l) of
       (ret, t) \<Rightarrow> (ret, (snd (topology_read env (new_events (l_topo l) (t_log t)) l))\<lparr>l_topo := t\<rparr>))"

section \<open>The enumeration\<close>

text \<open>From the connect command to the end, with the lanes known.\<close>

definition link_outside :: "link_env \<Rightarrow> u32 list \<Rightarrow> u32 list \<Rightarrow> (link_state, int) state" where
  "link_outside env host root_config = do {
     (ret, external) \<leftarrow> link_read env 2 0 2 0 5 8;
     if ret \<noteq> 0 then State_Monad.return ret
     else do {
       ret \<leftarrow> link_topology env 0 [word host 0, word host 1, word host 2, word root_config 2, word root_config 3];
       if ret \<noteq> 0 then State_Monad.return ret
       else do {
         (ret, configured) \<leftarrow> link_external_init env (take 5 external);
         if ret \<noteq> 0 then State_Monad.return ret else link_topology env 2 configured
       }
     }
   }"

definition link_raise :: "link_env \<Rightarrow> u32 \<Rightarrow> u32 list \<Rightarrow> nat list \<Rightarrow> (link_state, int) state" where
  "link_raise env wd caps ports = do {
     ok \<leftarrow> lvalid env;
     if \<not> ok then State_Monad.return (- ENOTCONN)
     else do {
       ret \<leftarrow> lask (le_connect env) (L_connect wd);
       if ret \<noteq> 0 then State_Monad.return ret
       else do {
         (ret, up) \<leftarrow> lane_poll env caps ports 20 [];
         if ret \<noteq> 0 then State_Monad.return ret
         else if up = [] \<or> 2 \<notin> set up then State_Monad.return (- ENOLINK)
         else link_unlock env
       }
     }
   }"

definition max_port :: "u32 list \<Rightarrow> nat" where
  "max_port host = unat (drop_bit 14 (word host 1) AND 0x3f)"

definition link_enumerate :: "link_env \<Rightarrow> u32 \<Rightarrow> (link_state, int) state" where
  "link_enumerate env wd = do {
     (ret, host, root_config) \<leftarrow> link_root env;
     if ret \<noteq> 0 then State_Monad.return ret
     else do {
       let ports = [1..<max_port host + 1];
       (ret, caps) \<leftarrow> link_lanes env ports (replicate 8 0);
       if ret \<noteq> 0 then State_Monad.return ret
       else if lane_count caps \<noteq> 2 \<or> word caps 2 = 0 \<or> word caps 3 = 0 then State_Monad.return (- ENODEV)
       else run_ok [link_raise env wd caps ports, link_outside env host root_config]
     }
   }"

definition link_admitted :: "link_env \<Rightarrow> bool \<Rightarrow> link_state \<Rightarrow> bool" where
  "link_admitted env has_valid l \<longleftrightarrow> \<not> l_stopped l \<and> \<not> l_link_attempted l \<and> l_connect l \<and> has_valid \<and>
     x1_diag_board_allowed (le_board env) \<and> root_property (le_board env) ''birk,usb4-link-test'' \<and>
     root_property (le_board env) ''birk,usb4-enumeration-test'' \<and>
     root_property (le_board env) ''birk,usb4-external-enumeration-test''"

definition fresh_topology :: x1_topology where
  "fresh_topology = \<lparr>t_reads = 0, t_adapters = 0, t_caps = 0, t_lanes = 0, t_pcie_up = 0, t_pcie_down = 0,
     t_skipped = 0, t_log = []\<rparr>"

text \<open>
  The control owner as the baseline test hands it over: two send buffers and \<open>n\<close> receive buffers are used,
  both rings run.
\<close>

definition handover :: "nat \<Rightarrow> link_state" where
  "handover n = \<lparr>l_next_tx = 2, l_next_rx = n, l_rings_started = True, l_stopped = False, l_link_attempted = False,
     l_connect = False, l_events = 0, l_deadline = 0, l_topo = fresh_topology, l_fault = False, l_log = []\<rparr>"

text \<open>
  The callback of the provider is registered once, on a session that is not stopped; \<open>given\<close> says that
  both arguments are present.  The expiry of the session's timer and the provider's stop are the same call.
\<close>

definition link_register :: "bool \<Rightarrow> (link_state, int) state" where
  "link_register given = do {
     refused \<leftarrow> lget (\<lambda>l. \<not> given \<or> l_stopped l \<or> l_connect l);
     if refused then State_Monad.return (- EPERM)
     else do { lset (\<lambda>l. l\<lparr>l_connect := True\<rparr>); State_Monad.return 0 }
   }"

definition link_stop :: "link_env \<Rightarrow> (link_state, unit) state" where
  "link_stop env = link_stop_locked env"

text \<open>
  \<open>x1_diag_link_run\<close> with a control owner, in a build without the native connection manager; the first part
  is what runs between the mark of the attempt and the stop.
\<close>

definition link_session :: "link_env \<Rightarrow> u32 \<Rightarrow> (link_state, int) state" where
  "link_session env wd =
     (if wd \<noteq> 0x2501 \<and> wd \<noteq> 0x2701 then State_Monad.return (- EPERM)
      else do {
        ok \<leftarrow> lvalid env;
        if \<not> ok then State_Monad.return (- EPERM)
        else do {
          now \<leftarrow> lnow env;
          lset (\<lambda>l. l\<lparr>l_deadline := now + le_msecs env 20000, l_events := 0, l_topo := fresh_topology\<rparr>);
          link_enumerate env wd
        }
      })"

definition link_run :: "link_env \<Rightarrow> u32 \<Rightarrow> bool \<Rightarrow> (link_state, int) state" where
  "link_run env wd has_valid = do {
     ok \<leftarrow> lget (link_admitted env has_valid);
     if \<not> ok then State_Monad.return (- EPERM)
     else do {
       lset (\<lambda>l. l\<lparr>l_link_attempted := True\<rparr>);
       ret \<leftarrow> link_session env wd;
       link_stop_locked env;
       State_Monad.return ret
     }
   }"

section \<open>What may go out\<close>

definition txs :: "link_act list \<Rightarrow> nat list" where
  "txs h = concat (map (\<lambda>e. case e of L_tx i _ _ _ \<Rightarrow> [i] | _ \<Rightarrow> []) h)"

text \<open>The acknowledgements of events that were sent, and the events that use a buffer.\<close>

definition is_ack :: "link_act \<Rightarrow> bool" where
  "is_ack e = (case e of L_tx _ _ ty _ \<Rightarrow> ty = 3 | _ \<Rightarrow> False)"

definition acked :: "link_act list \<Rightarrow> nat" where
  "acked h = length (filter is_ack h)"

definition is_io :: "link_act \<Rightarrow> bool" where
  "is_io e = (case e of L_tx _ _ _ _ \<Rightarrow> True | L_rx _ \<Rightarrow> True | _ \<Rightarrow> False)"

text \<open>
  A frame that may be sent: the acknowledgement of an event at port 2 or 3, a read the packet layer
  accepts, or a permitted write to the root router; a wait is for a buffer of the receive array.
\<close>

definition ack_frame :: "crc32c \<Rightarrow> nat \<Rightarrow> u32 \<Rightarrow> u8 list \<Rightarrow> bool" where
  "ack_frame crc n ty w \<longleftrightarrow> n = 16 \<and> ty = 3 \<and>
     (\<exists>ev. (ev_port ev = 2 \<or> ev_port ev = 3) \<and> take n w = cfg_frame crc [0, 0, ack_word ev])"

definition read_frame :: "crc32c \<Rightarrow> nat \<Rightarrow> u32 \<Rightarrow> u8 list \<Rightarrow> bool" where
  "read_frame crc n ty w \<longleftrightarrow> n = 16 \<and> ty = 1 \<and>
     (\<exists>s. \<not> read_spec_bad s \<and> take n w = cfg_frame crc [0, rs_route s, read_addr s])"

definition write_frame :: "crc32c \<Rightarrow> nat \<Rightarrow> u32 \<Rightarrow> u8 list \<Rightarrow> bool" where
  "write_frame crc n ty w \<longleftrightarrow> ty = 2 \<and>
     (\<exists>s before after. ws_route s = 0 \<and> permitted_write s before after \<and> n = 16 + 4 * unat (ws_words s) \<and>
        take n w = cfg_frame crc (0 # 0 # write_addr s # take (unat (ws_words s)) after))"

definition frame_ok :: "crc32c \<Rightarrow> link_act \<Rightarrow> bool" where
  "frame_ok crc e = (case e of
     L_tx i n ty w \<Rightarrow> ack_frame crc n ty w \<or> read_frame crc n ty w \<or> write_frame crc n ty w
   | L_rx i \<Rightarrow> i < X1_RX_COUNT
   | _ \<Rightarrow> True)"

text \<open>The invariant of a session, and what it is between the choice of a buffer and its transmission.\<close>

definition link_ok :: "link_env \<Rightarrow> link_state \<Rightarrow> bool" where
  "link_ok env l \<longleftrightarrow> \<not> l_fault l \<and> 2 \<le> l_next_tx l \<and> l_next_tx l \<le> X1_TX_COUNT \<and> l_next_rx l \<le> X1_RX_COUNT \<and>
     acked (l_log l) \<le> l_events l \<and> l_events l \<le> X1_EVENT_LIMIT \<and> sorted_wrt (>) (txs (l_log l)) \<and> (\<forall>j \<in> set (txs (l_log l)). 2 \<le> j \<and> j < l_next_tx l) \<and> list_all (frame_ok (le_crc env)) (l_log l)"

definition slot :: "link_env \<Rightarrow> nat \<Rightarrow> link_state \<Rightarrow> bool" where
  "slot env i l \<longleftrightarrow> link_ok env l \<and> 2 \<le> i \<and> i < l_next_tx l \<and> (\<forall>j \<in> set (txs (l_log l)). j < i)"

section \<open>Steps that only ask\<close>

definition still :: "link_state \<Rightarrow> link_state \<Rightarrow> bool" where
  "still l l' \<longleftrightarrow> (\<exists>ds. l' = l\<lparr>l_log := ds @ l_log l\<rparr> \<and> list_all (\<lambda>e. \<not> is_io e) ds)"

interpretation still: history_order still
proof unfold_locales
  fix s t u
  show "still s s" by (auto simp: still_def intro!: exI [of _ "[]"])
  assume "still s t" "still t u"
  then obtain ds es where "t = s\<lparr>l_log := ds @ l_log s\<rparr>" "u = t\<lparr>l_log := es @ l_log t\<rparr>"
    "list_all (\<lambda>e. \<not> is_io e) ds" "list_all (\<lambda>e. \<not> is_io e) es"
    unfolding still_def by blast
  then show "still s u" unfolding still_def by (intro exI [of _ "es @ ds"]) simp
qed

lemma run_lask [run_simps]: "run_state (lask f e) l = (f (e # l_log l), l\<lparr>l_log := e # l_log l\<rparr>)"
  by (simp add: lask_def)

lemma run_lget [run_simps]: "run_state (lget f) l = (f l, l)"
  by (simp add: lget_def)

lemma run_lset [run_simps]: "run_state (lset f) l = ((), f l)"
  by (simp add: lset_def)

lemma still_ask: "\<not> is_io e \<Longrightarrow> keeps still (lask f e)"
  unfolding keeps_def run_lask still_def by (auto intro!: exI [of _ "[e]"])

lemma still_get: "keeps still (lget f)"
  by (simp add: keeps_def run_lget still.refl)

lemma still_in_bounds: "ok \<Longrightarrow> keeps still (in_bounds ok)"
  by (simp add: in_bounds_def still.keeps_return)

lemma still_wait: "keeps still (wait_tx env i d)"
  unfolding wait_tx_def by (intro still.keeps_rules still_ask; simp add: is_io_def)+

lemmas still_steps = still.keeps_rules still_ask still_get still_wait

text \<open>What such steps preserve.\<close>

definition stable :: "(link_state \<Rightarrow> bool) \<Rightarrow> bool" where
  "stable P \<longleftrightarrow> (\<forall>l l'. still l l' \<longrightarrow> P l \<longrightarrow> P l')"

lemma stable_triple: "keeps still m \<Longrightarrow> stable P \<Longrightarrow> triple P m (\<lambda>_. P)"
  by (rule tripleI) (metis keepsD stable_def)

lemma txs_append: "txs (ds @ h) = txs ds @ txs h"
  by (simp add: txs_def)

lemma no_frames: "list_all (\<lambda>e. \<not> is_io e) ds \<Longrightarrow> list_all (frame_ok crc) ds \<and> txs ds = [] \<and> acked ds = 0"
  by (induction ds) (auto simp: frame_ok_def is_io_def txs_def is_ack_def acked_def split: link_act.splits)

lemma acked_append: "acked (ds @ h) = acked ds + acked h"
  by (simp add: acked_def)

lemma stable_ok: "stable (link_ok env)"
  unfolding stable_def still_def link_ok_def by (auto simp: txs_append acked_append no_frames)

lemma stable_acked: "stable (\<lambda>l. Q (acked (l_log l)) (l_events l))"
  unfolding stable_def still_def by (auto simp: acked_append no_frames)

lemma stable_slot: "stable (slot env i)"
  unfolding stable_def
proof (intro allI impI)
  fix l l'
  assume s: "still l l'" and sl: "slot env i l"
  then have "link_ok env l'" using stable_ok by (auto simp: slot_def stable_def)
  with s sl show "slot env i l'" unfolding slot_def still_def by (auto simp: txs_append no_frames)
qed

lemma stable_conj: "stable P \<Longrightarrow> stable Q \<Longrightarrow> stable (\<lambda>l. P l \<and> Q l)"
  unfolding stable_def by blast

lemma stable_field:
  "stable (\<lambda>l. Q (l_next_tx l))" "stable (\<lambda>l. Q (l_next_rx l))" "stable (\<lambda>l. Q (l_events l))" "stable (\<lambda>l. A)"
  unfolding stable_def still_def by auto

lemmas stable_rules = stable_conj stable_ok stable_slot stable_acked stable_field

section \<open>Requests and replies stay in their buffers\<close>

text \<open>A request whose arrays are large enough, with writes to the root only.\<close>

fun fits :: "link_request \<Rightarrow> bool" where
  "fits (Read s n) \<longleftrightarrow> unat (rs_words s) \<le> n \<or> 8 \<le> n"
| "fits (Write s) \<longleftrightarrow> ws_route s = 0 \<and> (\<exists>before after. ws_before s = Some before \<and> ws_after s = Some after \<and>
     unat (ws_words s) \<le> length before \<and> unat (ws_words s) \<le> length after)"

fun out_length :: "link_request \<Rightarrow> nat" where
  "out_length (Read s n) = n"
| "out_length (Write s) = 0"

lemma with_seq_fits [simp]: "fits (with_seq req seq) = fits req" "out_length (with_seq req seq) = out_length req"
  by (cases req; simp)+

lemma length_buffers [simp]: "length fresh_buffer = 256" "length (rx_data rx) = 256"
  by (simp_all add: fresh_buffer_def rx_data_def TB_FRAME_SIZE_def)

lemma request_frame_cases:
  assumes "fits req"
  obtains (refused) ret w where "request_frame crc req = Some (ret, w)" "ret \<noteq> 0"
  | (sent) w where "request_frame crc req = Some (0, Some w)"
      "\<And>i. frame_ok crc (L_tx i (request_size req) (request_type req) w)"
proof (cases req)
  case (Read s n)
  show thesis
  proof (cases "read_spec_bad s")
    case True
    with Read show thesis by (intro refused [of "- EINVAL" "Some fresh_buffer"])
      (simp_all add: x1_read_request_def x1_read_address_def)
  next
    case False
    with Read show thesis
      by (intro sent [of "cfg_frame crc [0, rs_route s, read_addr s] @ drop 16 fresh_buffer"])
        (auto simp: read_request_frame frame_ok_def read_frame_def)
  qed
next
  case (Write s)
  with assms obtain before after where arr: "ws_before s = Some before" "ws_after s = Some after"
    "unat (ws_words s) \<le> length before" "unat (ws_words s) \<le> length after" and route: "ws_route s = 0" by auto
  show thesis
  proof (cases "ws_seq s \<le> 3 \<and> permitted_write s before after")
    case True
    then have n: "unat (ws_words s) \<le> 4" using permitted_words [of s before after] by auto
    let ?w = "cfg_frame crc (0 # ws_route s # write_addr s # take (unat (ws_words s)) after) @
      drop (16 + 4 * unat (ws_words s)) fresh_buffer"
    have "request_frame crc req = Some (0, Some ?w)"
      using True write_request_frame [OF arr, of fresh_buffer crc] Write by simp
    moreover have "frame_ok crc (L_tx i (request_size req) (request_type req) ?w)" for i
      unfolding frame_ok_def link_act.case write_frame_def using True Write route arr(4)
      by (intro disjI2 conjI exI [of _ s] exI [of _ before] exI [of _ after]) (simp_all add: min_absorb1)
    ultimately show thesis by (rule sent)
  next
    case False
    then have "x1_write_request crc (Some fresh_buffer) (Some s) =
        Some (if ws_seq s > 3 then - EINVAL else - EPERM, Some fresh_buffer)"
      by (auto simp: x1_write_request_def write_address_eq [OF arr])
    with Write show thesis by (intro refused) (auto split: if_splits)
  qed
qed

lemma read_reply_total:
  assumes "fits (Read s n)"
  shows "\<exists>ret ws. request_reply crc (Read s n) rx = Some (ret, ws) \<and> length ws = n"
proof (cases "read_spec_bad s")
  case True
  then show ?thesis by (simp add: x1_read_reply_def x1_read_address_def)
next
  case False
  let ?sz = "unat (rx_size rx)"
  let ?w = "rx_data rx"
  from False assms read_spec_words [of s] have n: "unat (rs_words s) \<le> n" by auto
  show ?thesis
  proof (cases "16 \<le> ?sz \<and> ?sz \<le> 48 \<and> rx_sof rx = 0 \<and> ?sz mod 4 = 0")
    case bad: False
    from read_reply_size [OF False bad] show ?thesis by simp
  next
    case sz: True
    show ?thesis
    proof (cases "get_unaligned_be32 ?w (?sz - 4) = Some (seal (crc) ?w (?sz - 4))")
      case unsealed: False
      from sz have "?sz \<le> length ?w" by simp
      from read_reply_unsealed [OF False _ _ _ _ this unsealed] sz show ?thesis by simp
    next
      case sealed: True
      define k where "k = (?sz - 16) div 4"
      have mod4: "x mod 4 = 0 \<Longrightarrow> 16 \<le> x \<Longrightarrow> x = 16 + 4 * ((x - 16) div 4)" for x :: nat by presburger
      have k: "?sz = 16 + 4 * k" unfolding k_def by (rule mod4) (use sz in simp_all)
      have "12 + 4 * k + 4 \<le> length ?w" "get_unaligned_be32 ?w (12 + 4 * k) = Some (seal crc ?w (12 + 4 * k))"
        using sz sealed by (simp_all add: k)
      then obtain a b c ws rest where "length ws = k" "?w = cfg_frame crc (a # b # c # ws) @ rest"
        by (rule sealed_reply)
      with n show ?thesis using read_reply_framed [OF False, of crc a b c ws rest "rx_sof rx" "rx_eof rx" "replicate n 0"]
        by (auto simp: k)
    qed
  qed
qed

lemma reply_total:
  assumes "fits req"
  shows "\<exists>ret ws. request_reply crc req rx = Some (ret, ws) \<and> length ws = out_length req"
proof (cases req)
  case (Read s n)
  with assms read_reply_total [of s n] show ?thesis by simp
next
  case (Write s)
  with assms obtain before after where arr: "ws_before s = Some before" "ws_after s = Some after"
    "unat (ws_words s) \<le> length before" "unat (ws_words s) \<le> length after" by auto
  from Write show ?thesis by (auto simp: x1_write_reply_def write_address_eq [OF arr] get_unaligned_be32_def)
qed

section \<open>The transport keeps the session sane\<close>

lemma get_triple: "triple P (lget f) (\<lambda>a l. P l \<and> a = f l)"
  by (rule tripleI) (simp add: run_lget)

lemma take_triple: "triple (\<lambda>l. link_ok env l \<and> l_next_tx l < X1_TX_COUNT) take_tx (\<lambda>i. slot env i)"
proof (rule tripleI)
  fix l i l'
  assume l: "link_ok env l \<and> l_next_tx l < X1_TX_COUNT" and run: "run_state take_tx l = (i, l')"
  from run l have "i = l_next_tx l" "l' = l\<lparr>l_next_tx := l_next_tx l + 1\<rparr>"
    by (auto simp: take_tx_def run_lget run_lset in_bounds_def)
  with l show "slot env i l'" unfolding slot_def link_ok_def by (simp add: less_Suc_eq)
qed

lemma send_triple:
  assumes "frame_ok (le_crc env) (L_tx i n ty w)"
  shows "triple (\<lambda>l. slot env i l \<and> (ty = 3 \<longrightarrow> acked (l_log l) < l_events l)) (lask f (L_tx i n ty w)) (\<lambda>_. link_ok env)"
proof (rule tripleI)
  fix l a l'
  assume "slot env i l \<and> (ty = 3 \<longrightarrow> acked (l_log l) < l_events l)" and "run_state (lask f (L_tx i n ty w)) l = (a, l')"
  with assms show "link_ok env l'" unfolding slot_def link_ok_def
    by (auto simp: run_lask txs_def acked_def is_ack_def)
qed

lemma slot_ok: "slot env i l \<Longrightarrow> link_ok env l"
  by (simp add: slot_def)

lemma ask_triple: "stable P \<Longrightarrow> \<not> is_io e \<Longrightarrow> triple P (lask f e) (\<lambda>_. P)"
  by (intro stable_triple still_ask)

lemma valid_triple: "stable P \<Longrightarrow> triple P (lvalid env) (\<lambda>_. P)" "stable P \<Longrightarrow> triple P (lnow env) (\<lambda>_. P)"
  by (intro ask_triple; simp add: is_io_def)+

lemma checked_Some [simp]: "checked dflt (Some a) = State_Monad.return a"
  by (simp add: checked_def)

lemma triple_same:
  assumes "triple P m Q" and "keeps (\<lambda>l l'. f l' = f l) m"
  shows "triple (\<lambda>l. P l \<and> R (f l)) m (\<lambda>a l. Q a l \<and> R (f l))"
proof (rule tripleI)
  fix l a l'
  assume l: "P l \<and> R (f l)" and run: "run_state m l = (a, l')"
  with tripleD [OF assms(1) _ run] keepsD [OF assms(2) run] show "Q a l' \<and> R (f l')" by simp
qed

lemma ack_triple:
  "triple (\<lambda>l. link_ok env l \<and> l_events l < X1_EVENT_LIMIT \<and> l_next_tx l < X1_TX_COUNT) (link_ack env ev d) (\<lambda>_. link_ok env)"
proof -
  let ?due = "\<lambda>l. acked (l_log l) < l_events l"
  have count: "triple (\<lambda>l. link_ok env l \<and> l_events l < X1_EVENT_LIMIT \<and> l_next_tx l < X1_TX_COUNT)
      (lset (\<lambda>l. l\<lparr>l_events := l_events l + 1\<rparr>)) (\<lambda>_ l. (link_ok env l \<and> l_next_tx l < X1_TX_COUNT) \<and> ?due l)"
    by (rule tripleI) (auto simp: run_lset link_ok_def)
  have "keeps (\<lambda>l l'. (l_log l', l_events l') = (l_log l, l_events l)) take_tx"
    by (simp add: keeps_def take_tx_def run_simps in_bounds_def)
  from triple_same [OF take_triple this, where R = "\<lambda>p. acked (fst p) < snd p"]
  have taken: "triple (\<lambda>l. (link_ok env l \<and> l_next_tx l < X1_TX_COUNT) \<and> ?due l) take_tx (\<lambda>i l. slot env i l \<and> ?due l)"
    by simp
  have fail: "triple (\<lambda>l. slot env i l \<and> ?due l) (State_Monad.return r) (\<lambda>_. link_ok env)" for i and r :: int
    by (intro triple_return) (auto dest: slot_ok)
  have ok: "triple (link_ok env) (State_Monad.return r) (\<lambda>_. link_ok env)" for r :: int
    by (intro triple_return)
  show ?thesis
  proof (cases "ev_port ev = 2 \<or> ev_port ev = 3")
    case True
    let ?w = "cfg_frame (le_crc env) [0, 0, ack_word ev] @ drop 16 fresh_buffer"
    have f: "frame_ok (le_crc env) (L_tx i 16 3 ?w)" for i
      using True by (auto simp: frame_ok_def ack_frame_def)
    have send: "triple (\<lambda>l. slot env i l \<and> ?due l) (lask (le_tx env) (L_tx i 16 3 ?w)) (\<lambda>_. link_ok env)" for i
      by (rule triple_weaken [OF send_triple [OF f]]) simp_all
    from event_ack_frame [of fresh_buffer ev "le_crc env"] True
    have a: "x1_event_ack (le_crc env) (Some fresh_buffer) (Some ev) = Some (0, Some ?w)" by simp
    show ?thesis
      unfolding link_ack_def a checked_Some
      by (rule triple_bind [OF count], rule triple_bind [OF taken])
        (simp split del: if_split, intro triple_bind [OF send] triple_if ok triple_case_option
          triple_bind [OF stable_triple [OF still_wait stable_ok]] triple_bind [OF valid_triple(1) [OF stable_ok]])
  next
    case False
    then have a: "x1_event_ack (le_crc env) (Some fresh_buffer) (Some ev) = Some (- EINVAL, Some fresh_buffer)"
      by (simp add: x1_event_ack_def)
    show ?thesis
      unfolding link_ack_def a checked_Some
      by (rule triple_bind [OF count], rule triple_bind [OF taken]) (simp add: fail)
  qed
qed

lemma event_triple: "triple (link_ok env) (link_event env rx d) (\<lambda>_. link_ok env)"
proof -
  obtain ret ev where a: "x1_event_decode (le_crc env) (Some (rx_data rx)) (unat (rx_size rx)) (rx_sof rx) (rx_eof rx)
      (Some \<lparr>ev_port = 0, ev_unplug = False\<rparr>) = Some (ret, Some ev)"
    using event_decode_total [of "rx_data rx"] by (metis length_buffers(2) numeral_le_iff semiring_norm(71,72,68))
  let ?room = "\<lambda>l. link_ok env l \<and> l_events l < X1_EVENT_LIMIT \<and> l_next_tx l < X1_TX_COUNT"
  have st: "stable ?room" by (intro stable_rules)
  have drop_room: "triple ?room (State_Monad.return r) (\<lambda>_. link_ok env)" for r :: int
    by (intro triple_return) simp
  have rest: "triple ?room (lvalid env \<bind> (\<lambda>ok. if \<not> ok then State_Monad.return (- ENOTCONN)
      else lnow env \<bind> (\<lambda>now. if time_after_eq now d then State_Monad.return (- ETIMEDOUT) else link_ack env ev d)))
      (\<lambda>_. link_ok env)"
    by (intro triple_bind [OF valid_triple(1) [OF st]] triple_bind [OF valid_triple(2) [OF st]] triple_if drop_room ack_triple)
  have eq: "link_event env rx d = (if ret \<noteq> 0 then State_Monad.return ret
      else lget (\<lambda>l. l_events l \<ge> X1_EVENT_LIMIT \<or> l_next_tx l \<ge> X1_TX_COUNT) \<bind>
        (\<lambda>full. if full then State_Monad.return (- ENOSPC) else lvalid env \<bind> (\<lambda>ok.
          if \<not> ok then State_Monad.return (- ENOTCONN) else lnow env \<bind> (\<lambda>now.
            if time_after_eq now d then State_Monad.return (- ETIMEDOUT) else link_ack env ev d))))"
    unfolding link_event_def a checked_Some bind_left_identity prod.case option.case by (rule refl)
  show ?thesis
    unfolding eq
    by (intro triple_if triple_bind [OF get_triple] triple_return triple_weaken [OF rest]) auto
qed

text \<open>An event takes no receive buffer of its own.\<close>

interpretation same_rx: history_order "\<lambda>l l'. l_next_rx l' = l_next_rx l"
  by unfold_locales simp_all

lemma same_rx_steps:
  "keeps (\<lambda>l l'. l_next_rx l' = l_next_rx l) (lask f e)" "keeps (\<lambda>l l'. l_next_rx l' = l_next_rx l) (lget g)"
  "(\<And>l. l_next_rx (u l) = l_next_rx l) \<Longrightarrow> keeps (\<lambda>l l'. l_next_rx l' = l_next_rx l) (lset u)"
  by (simp_all add: keeps_def run_lask run_lget run_lset)

lemma same_rx_event: "keeps (\<lambda>l l'. l_next_rx l' = l_next_rx l) (link_event env rx d)"
  unfolding link_event_def link_ack_def checked_def take_tx_def in_bounds_def wait_tx_def
  by (intro same_rx.keeps_rules same_rx_steps same_rx.keeps_case_option) simp_all

abbreviation reply_post :: "link_env \<Rightarrow> link_request \<Rightarrow> int \<times> u32 list \<Rightarrow> link_state \<Rightarrow> bool" where
  "reply_post env req r l \<equiv> link_ok env l \<and> (fst r = 0 \<longrightarrow> length (snd r) = out_length req)"

lemma replies_triple:
  assumes "fits req"
  shows "triple (\<lambda>l. link_ok env l \<and> l_next_rx l + n \<le> X1_RX_COUNT) (link_replies env req d n) (reply_post env req)"
proof (induction n)
  case 0
  show ?case unfolding link_replies.simps by (rule triple_return) simp
next
  case (Suc n)
  let ?P = "\<lambda>l. link_ok env l \<and> l_next_rx l + Suc n \<le> X1_RX_COUNT"
  let ?Q = "\<lambda>l. link_ok env l \<and> l_next_rx l + n \<le> X1_RX_COUNT"
  have fail: "triple ?P (State_Monad.return (r, [])) (reply_post env req)"
    "triple ?Q (State_Monad.return (r, [])) (reply_post env req)" if "r \<noteq> 0" for r :: int
    using that by (intro triple_return; simp)+
  have wait: "triple (\<lambda>l. ?P l \<and> i = l_next_rx l) (wait_rx env i d) (\<lambda>_. ?P)" for i
    unfolding wait_rx_def
    by (rule tripleI) (auto simp: run_simps link_ok_def frame_ok_def txs_def acked_def is_ack_def split: if_splits)
  have next_rx: "triple ?P (lset (\<lambda>l. l\<lparr>l_next_rx := l_next_rx l + 1\<rparr>)) (\<lambda>_. ?Q)"
    by (rule tripleI) (auto simp: run_lset link_ok_def)
  have reply: "triple ?Q (checked (- EINVAL, []) (request_reply (le_crc env) req rx)) (reply_post env req)" for rx
  proof -
    from reply_total [OF assms, of "le_crc env" rx] obtain ret ws where
      "request_reply (le_crc env) req rx = Some (ret, ws)" "length ws = out_length req" by blast
    then show ?thesis by (auto intro!: triple_return)
  qed
  have ev: "triple ?Q (link_event env rx d) (\<lambda>_. ?Q)" for rx
    by (rule triple_same [OF event_triple same_rx_event])
  have again: "triple ?Q (link_event env rx d \<bind> (\<lambda>ret.
      if ret \<noteq> 0 then State_Monad.return (ret, []) else link_replies env req d n)) (reply_post env req)" for rx
    by (intro triple_bind [OF ev] triple_if fail(2) Suc) 
  show ?case
    unfolding link_replies.simps
    by (rule triple_bind [OF get_triple], rule triple_bind [OF wait],
        intro triple_case_option fail(1) triple_bind [OF next_rx] triple_if fail(2) again reply) simp_all
qed

lemma reply_fail: "r \<noteq> 0 \<Longrightarrow> (\<And>l. P l \<Longrightarrow> link_ok env l) \<Longrightarrow> triple P (State_Monad.return (r, [])) (reply_post env req)"
  by (intro triple_return) simp

lemma await_triple:
  assumes "fits req"
  shows "triple (link_ok env) (link_await env req i session) (reply_post env req)"
proof -
  have left: "triple (link_ok env) (lget (\<lambda>l. X1_RX_COUNT - l_next_rx l)) (\<lambda>n l. link_ok env l \<and> l_next_rx l + n \<le> X1_RX_COUNT)"
    by (rule tripleI) (auto simp: run_lget link_ok_def)
  have st: "stable (reply_post env req r)" for r by (intro stable_rules)
  show ?thesis
    unfolding link_await_def Let_def split_beta
    by (intro triple_bind [OF valid_triple(2) [OF stable_ok]] triple_bind [OF left] triple_bind [OF replies_triple [OF assms]]
        triple_if reply_fail triple_bind [OF stable_triple [OF still_wait st]] triple_bind [OF valid_triple(1) [OF st]])
      (auto intro!: triple_return)
qed

lemma send_request_triple:
  assumes "fits req"
  shows "triple (slot env i) (link_send env req i session) (reply_post env req)"
  using assms
proof (cases rule: request_frame_cases [where crc = "le_crc env"])
  case (refused ret w)
  then show ?thesis by (simp add: link_send_def reply_fail slot_ok)
next
  case (sent w)
  have send: "triple (slot env i) (lask (le_tx env) (L_tx i (request_size req) (request_type req) w)) (\<lambda>_. link_ok env)"
    by (rule triple_weaken [OF send_triple [OF sent(2)]]) (cases req; simp)+
  show ?thesis
    unfolding link_send_def sent(1) checked_Some bind_left_identity prod.case option.case simp_thms if_False
    by (intro triple_bind [OF send] triple_if reply_fail await_triple assms) simp_all
qed

lemma transfer_triple:
  assumes "fits req"
  shows "triple (link_ok env) (link_transfer env req) (reply_post env req)"
proof -
  let ?room = "\<lambda>l. link_ok env l \<and> l_next_tx l < X1_TX_COUNT"
  have st: "stable ?room" by (intro stable_rules)
  have full: "triple (link_ok env) (lget (\<lambda>l. l_next_tx l = X1_TX_COUNT)) (\<lambda>a l. link_ok env l \<and> (\<not> a \<longrightarrow> l_next_tx l < X1_TX_COUNT))"
    by (rule tripleI) (auto simp: run_lget link_ok_def)
  have go: "triple (slot env i) (link_send env (with_seq req q) i session) (reply_post env req)" for i q session
    using send_request_triple [of "with_seq req q" env i session] assms by simp
  have rest: "triple ?room (lvalid env \<bind> (\<lambda>ok. if \<not> ok then State_Monad.return (- ENOTCONN, []) else lnow env \<bind> (\<lambda>now.
      lget l_deadline \<bind> (\<lambda>session. if time_after_eq now session then State_Monad.return (- ETIME, [])
        else take_tx \<bind> (\<lambda>i. link_send env (with_seq req (of_nat i AND 3)) i session))))) (reply_post env req)"
    by (intro triple_bind [OF valid_triple(1) [OF st]] triple_bind [OF valid_triple(2) [OF st]] triple_if reply_fail
        triple_bind [OF stable_triple [OF still_get st]] triple_bind [OF take_triple] go) simp_all
  show ?thesis
    unfolding link_transfer_def
    by (intro triple_bind [OF full] triple_if reply_fail triple_weaken [OF rest]) simp_all
qed

section \<open>The enumeration keeps the session sane\<close>

abbreviation sane :: "link_env \<Rightarrow> (link_state, 'a) state \<Rightarrow> bool" where
  "sane env m \<equiv> triple (link_ok env) m (\<lambda>_. link_ok env)"

lemma sane_return: "sane env (State_Monad.return a)"
  by (simp add: triple_return)

lemma sane_bind: "sane env m \<Longrightarrow> (\<And>a. sane env (k a)) \<Longrightarrow> sane env (m \<bind> k)"
  by (rule triple_bind)

lemma read_triple:
  assumes "unat words \<le> len \<or> 8 \<le> len"
  shows "triple (link_ok env) (link_read env route port space offset words len)
    (\<lambda>r l. link_ok env l \<and> (fst r = 0 \<longrightarrow> length (snd r) = len))"
  unfolding link_read_def by (rule triple_weaken [OF transfer_triple]) (use assms in auto)

lemma sane_read: "unat words \<le> len \<or> 8 \<le> len \<Longrightarrow> sane env (link_read env route port space offset words len)"
  by (rule triple_weaken [OF read_triple]) simp_all

lemma sane_write:
  assumes "unat words \<le> length before" and "unat words \<le> length after"
  shows "sane env (link_write env port space offset words before after)"
proof -
  have "fits (Write \<lparr>ws_port = port, ws_space = space, ws_offset = offset, ws_words = words, ws_seq = 0,
      ws_before = Some before, ws_after = Some after, ws_route = 0\<rparr>)" using assms by simp
  note t = transfer_triple [OF this, of env]
  show ?thesis
    unfolding link_write_def split_beta by (rule triple_bind [OF t], rule triple_return) simp
qed

lemma sane_ask: "\<not> is_io e \<Longrightarrow> sane env (lask f e)"
  by (intro ask_triple stable_ok)

lemma sane_in_bounds: "ok \<Longrightarrow> sane env (in_bounds ok)"
  by (intro stable_triple still_in_bounds stable_ok)

lemma sane_if: "(b \<Longrightarrow> sane env m) \<Longrightarrow> (\<not> b \<Longrightarrow> sane env n) \<Longrightarrow> sane env (if b then m else n)"
  by (rule triple_if)

lemmas sane_rules = sane_return sane_if sane_bind

text \<open>The bounds that the exact root header gives.\<close>

abbreviation root_known :: "int \<times> u32 list \<times> u32 list \<Rightarrow> bool" where
  "root_known r \<equiv> fst r = 0 \<longrightarrow> max_port (fst (snd r)) = 7"

lemma root_plan_exact:
  assumes "length host = 5"
  obtains (refused) "x1_root_plan (Some host) (Some (replicate 4 0)) = Some (- EPERM, Some (replicate 4 0))"
  | (planned) plan where "x1_root_plan (Some host) (Some (replicate 4 0)) = Some (0, Some plan)" "length plan = 4"
      "max_port host = 7"
proof -
  from assms obtain a b c d e where h: "host = [a, b, c, d, e]" by (auto simp: numeral_eq_Suc length_Suc_conv)
  show thesis
  proof (cases "a \<noteq> 0x093805c6 \<or> b \<noteq> 0x0101c11c \<or> c \<noteq> 0 \<or> d \<noteq> 0 \<or> e \<noteq> 0x2000000a")
    case True
    with h show thesis by (intro refused) (simp add: x1_root_plan_def)
  next
    case False
    with h have host: "host = [0x093805c6, 0x0101c11c, 0, 0, 0x2000000a]" by simp
    have "max_port host = 7" by (simp add: host max_port_def word_def)
    with host show thesis
      by (intro planned [of "[0x0101c11c, 0, 0x80000000, 0x200010ff]"])
        (simp_all add: x1_root_plan_def put_words_def numeral_nat)
  qed
qed

abbreviation root_post :: "link_env \<Rightarrow> int \<times> u32 list \<times> u32 list \<Rightarrow> link_state \<Rightarrow> bool" where
  "root_post env r l \<equiv> link_ok env l \<and> root_known r"

lemma root_fail: "r \<noteq> 0 \<Longrightarrow> triple (link_ok env) (State_Monad.return (r, [], [])) (root_post env)"
  by (rule triple_return) simp

lemma configure_triple:
  assumes "length host = 5" and "length plan = 4" and "max_port host = 7"
  shows "triple (link_ok env) (link_configure env host plan) (root_post env)"
proof -
  have w: "sane env (link_write env 0 2 1 4 (drop 1 host) plan)"
    by (rule sane_write) (simp_all add: assms)
  have r: "sane env (link_read env 0 0 2 0 5 8)" by (rule sane_read) simp
  show ?thesis
    unfolding link_configure_def split_beta
    by (intro triple_bind [OF w] triple_bind [OF r] triple_if root_fail triple_return) (simp_all add: assms)
qed

lemma plan_triple:
  assumes "length host = 5"
  shows "triple (link_ok env) (link_plan env host) (root_post env)"
  using assms
proof (cases rule: root_plan_exact)
  case refused
  show ?thesis
    unfolding link_plan_def refused checked_Some bind_left_identity prod.case
    by (subst if_P) (simp, rule root_fail, simp)
next
  case (planned plan)
  show ?thesis
    unfolding link_plan_def planned(1) checked_Some bind_left_identity prod.case simp_thms if_False option.case
    by (rule configure_triple [OF assms planned(2,3)])
qed

lemma root_triple: "triple (link_ok env) (link_root env) (root_post env)"
  unfolding link_root_def split_beta
proof (rule triple_bind [OF read_triple], simp)
  fix r :: "int \<times> u32 list"
  show "triple (\<lambda>l. link_ok env l \<and> (fst r = 0 \<longrightarrow> length (snd r) = 5))
      (if fst r \<noteq> 0 then State_Monad.return (fst r, [], []) else link_plan env (snd r)) (root_post env)"
  proof (cases "fst r = 0 \<and> length (snd r) = 5")
    case True
    then show ?thesis by (auto intro: triple_weaken [OF plan_triple])
  next
    case False
    then show ?thesis by (auto simp: triple_def root_fail)
  qed
qed

lemma caps_sane: "sane env (link_caps env port n seen cap)"
  by (induction n arbitrary: seen cap) (simp_all add: split_beta sane_read sane_return sane_if sane_bind)

lemma lanes_triple:
  assumes "set ports \<subseteq> {..<length caps}"
  shows "triple (link_ok env) (link_lanes env ports caps) (\<lambda>r l. link_ok env l \<and> length (snd r) = length caps)"
  using assms
proof (induction ports arbitrary: caps)
  case Nil
  show ?case by (auto intro: triple_return)
next
  case (Cons port ports)
  have r: "sane env (link_read env 0 (of_nat port) 1 0 8 8)" by (rule sane_read) simp
  have w: "sane env (in_bounds (port < length caps))" by (rule sane_in_bounds) (use Cons.prems in auto)
  have 1: "triple (link_ok env) (link_lanes env ports caps) (\<lambda>r l. link_ok env l \<and> length (snd r) = length caps)"
    using Cons by simp
  have 2: "triple (link_ok env) (link_lanes env ports (caps[port := cap])) (\<lambda>r l. link_ok env l \<and> length (snd r) = length caps)"
    for cap using Cons.IH [of "caps[port := cap]"] Cons.prems by simp
  show ?case
    unfolding link_lanes.simps split_beta
    by (intro triple_bind [OF r] triple_bind [OF caps_sane] triple_bind [OF w] triple_if 1 2 triple_return) simp_all
qed

lemma lanes_up_sane: "set ports \<subseteq> {..<length caps} \<Longrightarrow> sane env (lanes_up env caps ports up)"
  by (induction ports arbitrary: up)
    (auto simp: split_beta Let_def intro!: sane_read sane_return sane_if sane_bind sane_in_bounds)

lemma lane_poll_sane: "set ports \<subseteq> {..<length caps} \<Longrightarrow> sane env (lane_poll env caps ports n up)"
  by (induction n arbitrary: up)
    (auto simp: split_beta is_io_def intro!: sane_return sane_if sane_bind lanes_up_sane sane_ask)

lemma unlock_sane: "sane env (link_unlock env)"
  unfolding link_unlock_def split_beta Let_def
  by (intro sane_rules sane_read sane_write) simp_all

lemma external_init_sane:
  assumes "length header = 5"
  shows "sane env (link_external_init env header)"
proof -
  from assms obtain a b c d e where h: "header = [a, b, c, d, e]" by (auto simp: numeral_eq_Suc length_Suc_conv)
  have "\<exists>r. x1_external_plan (Some header) (Some (replicate 4 0)) = Some r"
    by (simp add: h x1_external_plan_def put_words_def numeral_nat)
  then obtain r where r: "x1_external_plan (Some header) (Some (replicate 4 0)) = Some r" ..
  show ?thesis
    unfolding link_external_init_def r checked_Some bind_left_identity split_beta
    by (intro sane_rules sane_read) simp
qed

lemma topology_read_ok: "list_all topo_event_ok es \<Longrightarrow> link_ok env l \<Longrightarrow> link_ok env (snd (topology_read env es l))"
proof (induction env es l rule: topology_read.induct)
  case (2 env s room es l)
  then have "sane env (link_read env (rs_route s) (rs_port s) (rs_space s) (rs_offset s) (rs_words s) room)"
    by (intro sane_read) (simp add: topo_event_ok_def)
  moreover from 2 have "link_ok env (snd (topology_read env es l))" by simp
  ultimately show ?case unfolding triple_def topology_read.simps by (metis surjective_pairing)
qed simp_all

lemma topology_sane: "sane env (link_topology env route header)"
proof (rule tripleI)
  fix l ret l'
  assume l: "link_ok env l" and run: "run_state (link_topology env route header) l = (ret, l')"
  let ?t = "snd (run_state (x1_topology_router (topology_answer env l) route header) (l_topo l))"
  from keeps_router have "topo_ext (l_topo l) ?t" by (simp add: keeps_def)
  then have "list_all topo_event_ok (new_events (l_topo l) (t_log ?t))" by (auto simp: topo_ext_def new_events_def)
  from topology_read_ok [OF this l] run show "link_ok env l'"
    by (auto simp: link_topology_def split_beta link_ok_def)
qed

lemma outside_sane: "sane env (link_outside env host config)"
  unfolding link_outside_def split_beta
proof (rule triple_bind [OF read_triple], simp)
  fix r :: "int \<times> u32 list"
  let ?n = "link_topology env 0 [word host 0, word host 1, word host 2, word config 2, word config 3]"
  let ?k = "\<lambda>ret. if ret \<noteq> 0 then State_Monad.return ret
    else link_external_init env (take 5 (snd r)) \<bind>
      (\<lambda>p. if fst p \<noteq> 0 then State_Monad.return (fst p) else link_topology env 2 (snd p))"
  show "triple (\<lambda>l. link_ok env l \<and> (fst r = 0 \<longrightarrow> length (snd r) = 8))
      (if fst r \<noteq> 0 then State_Monad.return (fst r) else ?n \<bind> ?k) (\<lambda>_. link_ok env)"
  proof (cases "fst r = 0 \<and> length (snd r) = 8")
    case True
    then have "sane env (?n \<bind> ?k)"
      by (intro sane_rules topology_sane external_init_sane) simp
    with True show ?thesis by (auto elim: triple_weaken)
  next
    case False
    then show ?thesis by (auto simp: triple_def)
  qed
qed

lemma connect_sane: "set ports \<subseteq> {..<length caps} \<Longrightarrow> sane env (link_raise env wd caps ports)"
  unfolding link_raise_def split_beta
  by (intro sane_rules sane_ask lane_poll_sane unlock_sane) (simp_all add: is_io_def)

lemma enumerate_sane: "sane env (link_enumerate env wd)"
  unfolding link_enumerate_def split_beta Let_def
proof (rule triple_bind [OF root_triple])
  fix r :: "int \<times> u32 list \<times> u32 list"
  let ?ports = "[1..<max_port (fst (snd r)) + 1]"
  let ?k = "\<lambda>p. if fst p \<noteq> 0 then State_Monad.return (fst p)
    else if lane_count (snd p) \<noteq> 2 \<or> word (snd p) 2 = 0 \<or> word (snd p) 3 = 0 then State_Monad.return (- ENODEV)
    else run_ok [link_raise env wd (snd p) ?ports, link_outside env (fst (snd r)) (snd (snd r))]"
  show "triple (root_post env r)
      (if fst r \<noteq> 0 then State_Monad.return (fst r) else link_lanes env ?ports (replicate 8 0) \<bind> ?k) (\<lambda>_. link_ok env)"
  proof (cases "fst r = 0 \<and> max_port (fst (snd r)) = 7")
    case True
    then have p: "set ?ports \<subseteq> {..<8}" by auto
    have "triple (\<lambda>l. link_ok env l \<and> length (snd q) = length (replicate 8 (0 :: u32))) (?k q) (\<lambda>_. link_ok env)"
      for q :: "int \<times> u32 list"
    proof (cases "length (snd q) = 8")
      case True
      with p have "sane env (?k q)"
        unfolding run_ok.simps by (intro sane_rules connect_sane outside_sane) simp
      then show ?thesis by (rule triple_weaken) simp_all
    qed (simp add: triple_def)
    then have "sane env (link_lanes env ?ports (replicate 8 0) \<bind> ?k)"
      by (rule triple_bind [OF lanes_triple, rotated]) (use p in simp)
    with True show ?thesis by (auto elim: triple_weaken)
  next
    case False
    then show ?thesis by (auto simp: triple_def)
  qed
qed

lemma sane_get: "sane env (lget f)"
  by (intro stable_triple still_get stable_ok)

lemma sane_set: "(\<And>l. link_ok env l \<Longrightarrow> link_ok env (f l)) \<Longrightarrow> sane env (lset f)"
  by (simp add: triple_def run_lset)

lemma stop_sane: "sane env (link_stop_locked env)"
  unfolding link_stop_locked_def
  by (intro sane_rules sane_ask sane_get sane_set) (simp_all add: is_io_def link_ok_def)

text \<open>A session starts its count of events at 0; nothing was acknowledged before it.\<close>

abbreviation fresh :: "link_env \<Rightarrow> link_state \<Rightarrow> bool" where
  "fresh env l \<equiv> link_ok env l \<and> acked (l_log l) = 0"

lemma session_sane: "triple (fresh env) (link_session env wd) (\<lambda>_. link_ok env)"
proof -
  have st: "stable (fresh env)" by (intro stable_rules)
  have reset: "triple (fresh env) (lset (\<lambda>l. l\<lparr>l_deadline := d, l_events := 0, l_topo := fresh_topology\<rparr>)) (\<lambda>_. link_ok env)"
    for d by (auto simp: triple_def run_lset link_ok_def)
  show ?thesis
    unfolding link_session_def
    by (intro triple_if triple_return triple_bind [OF valid_triple(1) [OF st]] triple_bind [OF valid_triple(2) [OF st]]
        triple_bind [OF reset enumerate_sane]) simp_all
qed

lemma run_sane:
  "triple (\<lambda>l. link_ok env l \<and> (\<not> l_link_attempted l \<longrightarrow> acked (l_log l) = 0)) (link_run env wd has_valid) (\<lambda>_. link_ok env)"
proof -
  have mark: "triple (fresh env) (lset (\<lambda>l. l\<lparr>l_link_attempted := True\<rparr>)) (\<lambda>_. fresh env)"
    by (auto simp: triple_def run_lset link_ok_def)
  have go: "triple (fresh env) (do {
      lset (\<lambda>l. l\<lparr>l_link_attempted := True\<rparr>);
      ret \<leftarrow> link_session env wd;
      link_stop_locked env;
      State_Monad.return ret
    }) (\<lambda>_. link_ok env)"
    by (intro triple_bind [OF mark] triple_bind [OF session_sane] triple_bind [OF stop_sane] sane_return)
  show ?thesis
    unfolding link_run_def
    by (intro triple_bind [OF get_triple] triple_if triple_return triple_weaken [OF go]) (auto simp: link_admitted_def)
qed

lemma register_sane: "sane env (link_register given)"
  unfolding link_register_def by (intro sane_rules sane_get sane_set) (simp add: link_ok_def)

section \<open>One session, one connect command\<close>

definition connects :: "link_act list \<Rightarrow> u32 list" where
  "connects h = concat (map (\<lambda>e. case e of L_connect w \<Rightarrow> [w] | _ \<Rightarrow> []) h)"

lemma connects_simps [simp]:
  "connects [] = []" "connects (L_connect w # h) = w # connects h"
  by (simp_all add: connects_def)

definition is_connect :: "link_act \<Rightarrow> bool" where
  "is_connect e = (case e of L_connect _ \<Rightarrow> True | _ \<Rightarrow> False)"

lemma is_connect_simps [simp]:
  "is_connect (L_connect w)" "\<not> is_connect L_valid" "\<not> is_connect L_jiffies" "\<not> is_connect (L_tx i n ty ws)"
  "\<not> is_connect (L_tx_done i)" "\<not> is_connect (L_rx i)" "\<not> is_connect (L_msleep k)" "\<not> is_connect L_disable_interrupts"
  "\<not> is_connect L_sync_irq" "\<not> is_connect L_stop_rx" "\<not> is_connect L_stop_tx"
  by (simp_all add: is_connect_def)

lemma connects_other: "\<not> is_connect e \<Longrightarrow> connects (e # h) = connects h"
  by (cases e) (simp_all add: connects_def)

text \<open>The steps of the enumeration other than the connect command.\<close>

definition hushed :: "link_state \<Rightarrow> link_state \<Rightarrow> bool" where
  "hushed l l' \<longleftrightarrow> connects (l_log l') = connects (l_log l) \<and> l_link_attempted l' = l_link_attempted l \<and>
     l_rings_started l' = l_rings_started l \<and> l_stopped l' = l_stopped l"

definition running :: "link_state \<Rightarrow> bool" where
  "running l \<longleftrightarrow> l_link_attempted l \<and> l_rings_started l \<and> \<not> l_stopped l"

interpretation hushed: history_order hushed
  by unfold_locales (auto simp: hushed_def)

lemma hushed_ask: "\<not> is_connect e \<Longrightarrow> keeps hushed (lask f e)"
  by (simp add: keeps_def run_lask hushed_def connects_other)

lemma hushed_get: "keeps hushed (lget f)"
  by (simp add: keeps_def run_lget hushed_def)

lemma hushed_set: "(\<And>l. hushed l (f l)) \<Longrightarrow> keeps hushed (lset f)"
  by (simp add: keeps_def run_lset)

lemma hushed_in_bounds: "keeps hushed (in_bounds ok)"
  unfolding in_bounds_def by (intro hushed.keeps_rules hushed_set) (simp add: hushed_def)

lemma hushed_checked: "keeps hushed (checked d v)"
  unfolding checked_def by (intro hushed.keeps_case_option hushed.keeps_rules hushed_set) (simp add: hushed_def)

lemmas hushed_rules = hushed.keeps_rules hushed.keeps_case_option hushed_ask hushed_get hushed_in_bounds hushed_checked

lemma hushed_take: "keeps hushed take_tx"
  unfolding take_tx_def by (intro hushed_rules hushed_set) (simp add: hushed_def)

lemma hushed_waits: "keeps hushed (wait_tx env i d)" "keeps hushed (wait_rx env i d)"
  unfolding wait_tx_def wait_rx_def by (intro hushed_rules; simp)+

lemma hushed_event: "keeps hushed (link_event env rx d)"
  unfolding link_event_def link_ack_def
  by (intro hushed_rules hushed_take hushed_waits hushed_set) (simp_all add: hushed_def)

lemma hushed_replies: "keeps hushed (link_replies env req d n)"
proof (induction n)
  case (Suc n)
  show ?case
    unfolding link_replies.simps
    by (intro hushed_rules hushed_waits hushed_event hushed_set Suc.IH) (simp add: hushed_def)
qed (simp add: hushed.keeps_return)

lemma hushed_transfer: "keeps hushed (link_transfer env req)"
  unfolding link_transfer_def link_send_def link_await_def Let_def
  by (intro hushed_rules hushed_take hushed_waits hushed_replies) simp_all

lemma hushed_read: "keeps hushed (link_read env route port space offset words len)"
  unfolding link_read_def by (rule hushed_transfer)

lemma hushed_write: "keeps hushed (link_write env port space offset words before after)"
  unfolding link_write_def by (intro hushed_rules hushed_transfer)

lemma hushed_root: "keeps hushed (link_root env)"
  unfolding link_root_def link_plan_def link_configure_def by (intro hushed_rules hushed_read hushed_write)

lemma hushed_caps: "keeps hushed (link_caps env port n seen cap)"
  by (induction n arbitrary: seen cap) (auto intro!: hushed_rules hushed_read)

lemma hushed_lanes: "keeps hushed (link_lanes env ports caps)"
  by (induction ports arbitrary: caps) (auto intro!: hushed_rules hushed_read hushed_caps)

lemma hushed_lanes_up: "keeps hushed (lanes_up env caps ports up)"
  by (induction ports arbitrary: up) (auto simp: Let_def intro!: hushed_rules hushed_read)

lemma hushed_poll: "keeps hushed (lane_poll env caps ports n up)"
  by (induction n arbitrary: up) (auto intro!: hushed_rules hushed_lanes_up)

lemma hushed_unlock: "keeps hushed (link_unlock env)"
  unfolding link_unlock_def Let_def by (intro hushed_rules hushed_read hushed_write)

lemma hushed_topology_read: "hushed l (snd (topology_read env es l))"
proof (induction env es l rule: topology_read.induct)
  case (2 env s room es l)
  show ?case
    unfolding topology_read.simps using hushed_read 2 by (metis keeps_def hushed.trans)
qed (simp_all add: hushed.refl)

lemma hushed_topology: "keeps hushed (link_topology env route header)"
  unfolding keeps_def
proof
  fix l
  obtain es t where "snd (run_state (link_topology env route header) l) = (snd (topology_read env es l))\<lparr>l_topo := t\<rparr>"
    by (auto simp: link_topology_def split_beta)
  with hushed_topology_read [of l env es] show "hushed l (snd (run_state (link_topology env route header) l))"
    by (simp add: hushed_def)
qed

lemma hushed_outside: "keeps hushed (link_outside env host config)"
  unfolding link_outside_def link_external_init_def by (intro hushed_rules hushed_read hushed_topology)

lemma hushed_triple:
  "keeps hushed m \<Longrightarrow> triple (\<lambda>l. Q (connects (l_log l)) (running l)) m (\<lambda>_ l. Q (connects (l_log l)) (running l))"
  by (rule tripleI) (auto simp: hushed_def running_def dest!: keepsD)

lemma connect_triple:
  "triple (\<lambda>l. connects (l_log l) = [] \<and> running l) (link_raise env wd caps ports)
     (\<lambda>_ l. connects (l_log l) \<in> {[], [wd]} \<and> running l)" (is "triple ?P0 _ (\<lambda>_. ?P1)")
proof -
  note p0 = hushed_triple [where Q = "\<lambda>cs a. cs = [] \<and> a"]
  note p1 = hushed_triple [where Q = "\<lambda>cs a. cs \<in> {[], [wd]} \<and> a"]
  have c: "triple ?P0 (lask (le_connect env) (L_connect wd)) (\<lambda>_. ?P1)"
    by (simp add: triple_def run_lask running_def)
  have rest: "triple ?P1 (lane_poll env caps ports 20 [] \<bind> (\<lambda>p. if fst p \<noteq> 0 then State_Monad.return (fst p)
      else if snd p = [] \<or> 2 \<notin> set (snd p) then State_Monad.return (- ENOLINK) else link_unlock env)) (\<lambda>_. ?P1)"
    by (intro p1 hushed_rules hushed_poll hushed_unlock)
  show ?thesis
    unfolding link_raise_def split_beta
    by (intro triple_bind [OF p0 [OF hushed_ask]] triple_bind [OF c] triple_if triple_return rest) simp_all
qed

lemma enumerate_connects:
  "triple (\<lambda>l. connects (l_log l) = [] \<and> running l) (link_enumerate env wd)
     (\<lambda>_ l. connects (l_log l) \<in> {[], [wd]} \<and> running l)"
proof -
  note p0 = hushed_triple [where Q = "\<lambda>cs a. cs = [] \<and> a"]
  note p1 = hushed_triple [where Q = "\<lambda>cs a. cs \<in> {[], [wd]} \<and> a"]
  show ?thesis
    unfolding link_enumerate_def split_beta Let_def run_ok.simps
    by (intro triple_bind [OF p0 [OF hushed_root]] triple_bind [OF p0 [OF hushed_lanes]] triple_bind [OF connect_triple]
        triple_if p1 hushed_rules hushed_outside triple_return) simp_all
qed

text \<open>The external router is never configured, so no session completes.\<close>

lemma external_init_refuses: "rets (\<lambda>r. fst r \<noteq> 0) (link_external_init env header)"
  unfolding link_external_init_def split_beta
  by (intro rets_bind [OF rets_True] rets_if) simp_all

lemma outside_refuses: "rets (\<lambda>r. r \<noteq> 0) (link_outside env host config)"
  unfolding link_outside_def split_beta
  by (intro rets_bind [OF rets_True] rets_bind [OF external_init_refuses] rets_if) simp_all

lemma enumerate_refuses: "rets (\<lambda>r. r \<noteq> 0) (link_enumerate env wd)"
  unfolding link_enumerate_def split_beta Let_def run_ok.simps
  by (intro rets_bind [OF rets_True] rets_bind [OF outside_refuses] rets_if) simp_all

lemma session_refuses: "rets (\<lambda>r. r \<noteq> 0) (link_session env wd)"
  unfolding link_session_def by (intro rets_bind [OF rets_True] enumerate_refuses rets_if) simp_all

lemma session_triple:
  "triple (\<lambda>l. connects (l_log l) = [] \<and> running l) (link_session env wd)
     (\<lambda>_ l. connects (l_log l) \<in> {[], [0x2501], [0x2701]} \<and> running l)"
proof -
  note p0 = hushed_triple [where Q = "\<lambda>cs a. cs = [] \<and> a"]
  have e: "triple (\<lambda>l. connects (l_log l) = [] \<and> running l) (link_enumerate env wd)
     (\<lambda>_ l. connects (l_log l) \<in> {[], [0x2501], [0x2701]} \<and> running l)" if "wd = 0x2501 \<or> wd = 0x2701"
    by (rule triple_weaken [OF enumerate_connects]) (use that in auto)
  show ?thesis
    unfolding link_session_def
    by (intro triple_bind [OF p0 [OF hushed_ask]] triple_bind [OF p0 [OF hushed_set]] triple_if triple_return e)
      (simp_all add: hushed_def)
qed

lemma stop_run:
  assumes "run_state (link_stop_locked env) l = (u, l')"
  shows "l_stopped l' \<and> connects (l_log l') = connects (l_log l) \<and> l_link_attempted l' = l_link_attempted l \<and>
    l_rings_started l' = l_rings_started l \<and> acked (l_log l') = acked (l_log l)"
  using assms by (auto simp: link_stop_locked_def run_simps connects_other acked_def is_ack_def split: if_splits)

text \<open>What the stop of running rings does: the interrupt off, its handler waited for, then both rings.\<close>

definition closing :: "link_env \<Rightarrow> link_act list" where
  "closing env = L_stop_tx # L_stop_rx # (if le_irq_requested env then [L_sync_irq] else []) @ [L_disable_interrupts]"

lemma stop_running:
  assumes "run_state (link_stop_locked env) l = (u, l')" and "running l"
  shows "l_log l' = closing env @ l_log l"
  using assms by (auto simp: link_stop_locked_def run_simps running_def closing_def split: if_splits)

lemma run_refused: "\<not> link_admitted env has_valid l \<Longrightarrow> run_state (link_run env wd has_valid) l = (- EPERM, l)"
  by (simp add: link_run_def run_simps)

lemma run_admitted:
  assumes "link_admitted env has_valid l" and "connects (l_log l) = []" and "l_rings_started l"
    and "run_state (link_run env wd has_valid) l = (ret, l')"
  shows "ret \<noteq> 0 \<and> l_stopped l' \<and> l_link_attempted l' \<and> l_rings_started l' \<and>
    connects (l_log l') \<in> {[], [0x2501], [0x2701]} \<and> (\<exists>h. l_log l' = closing env @ h)"
proof -
  let ?l = "l\<lparr>l_link_attempted := True\<rparr>"
  obtain r m where s: "run_state (link_session env wd) ?l = (r, m)" by (cases "run_state (link_session env wd) ?l")
  obtain u n where t: "run_state (link_stop_locked env) m = (u, n)" by (cases "run_state (link_stop_locked env) m")
  from assms s t have "ret = r" "l' = n" by (simp_all add: link_run_def run_simps)
  moreover have "r \<noteq> 0" using session_refuses s unfolding rets_def by (metis fst_conv)
  moreover have m: "connects (l_log m) \<in> {[], [0x2501], [0x2701]} \<and> running m"
    by (rule tripleD [OF session_triple _ s]) (use assms in \<open>simp add: running_def link_admitted_def\<close>)
  ultimately show ?thesis using stop_run [OF t] stop_running [OF t] by (auto simp: running_def)
qed

section \<open>Every reachable state\<close>

text \<open>The calls that the lock serialises, in any order.\<close>

inductive link_reachable :: "link_env \<Rightarrow> link_state \<Rightarrow> bool" for env where
  start: "n \<le> X1_RX_COUNT \<Longrightarrow> link_reachable env (handover n)"
| register: "link_reachable env l \<Longrightarrow> run_state (link_register given) l = (ret, l') \<Longrightarrow> link_reachable env l'"
| run: "link_reachable env l \<Longrightarrow> run_state (link_run env wd has_valid) l = (ret, l') \<Longrightarrow> link_reachable env l'"
| stop: "link_reachable env l \<Longrightarrow> run_state (link_stop env) l = (u, l') \<Longrightarrow> link_reachable env l'"

definition link_inv :: "link_env \<Rightarrow> link_state \<Rightarrow> bool" where
  "link_inv env l \<longleftrightarrow> link_ok env l \<and> l_rings_started l \<and>
     (if l_link_attempted l then l_stopped l else connects (l_log l) = [] \<and> acked (l_log l) = 0) \<and>
     connects (l_log l) \<in> {[], [0x2501], [0x2701]}"

lemma link_reachable_inv: "link_reachable env l \<Longrightarrow> link_inv env l"
proof (induction rule: link_reachable.induct)
  case (start n)
  then show ?case by (simp add: link_inv_def link_ok_def handover_def X1_TX_COUNT_def txs_def acked_def)
next
  case (register l given ret l')
  then have "link_ok env l'" using register_sane unfolding triple_def link_inv_def by blast
  with register show ?case by (auto simp: link_inv_def link_register_def run_simps split: if_splits)
next
  case (run l wd has_valid ret l')
  then have ok: "link_ok env l'" using run_sane unfolding triple_def link_inv_def by metis
  show ?case
  proof (cases "link_admitted env has_valid l")
    case True
    with run.IH have "connects (l_log l) = []" "l_rings_started l" by (simp_all add: link_inv_def link_admitted_def)
    from run_admitted [OF True this run.hyps(2)] ok show ?thesis by (auto simp: link_inv_def)
  next
    case False
    with run show ?thesis by (simp add: run_refused)
  qed
next
  case (stop l u l')
  then have "link_ok env l'" using stop_sane unfolding triple_def link_inv_def link_stop_def by blast
  with stop stop_run [of env l u l'] show ?case by (simp add: link_inv_def link_stop_def)
qed

text \<open>
  A bench where nothing is ever received: the session sends its first read in buffer 2, waits for the reply
  and gives up.
\<close>

definition lab_wire :: link_env where
  "lab_wire = \<lparr>le_crc = (\<lambda>_ _. 7), le_valid = (\<lambda>_. True), le_now = (\<lambda>_. 0), le_tx = (\<lambda>_. 0),
     le_tx_done = (\<lambda>_. Some False), le_rx = (\<lambda>_. None), le_connect = (\<lambda>_. 0), le_bad_flags = 3, le_msecs = of_nat,
     le_irq_requested = True, le_board = lab_board\<rparr>"

definition lab_open :: link_state where
  "lab_open = (handover 2)\<lparr>l_connect := True\<rparr>"

definition lab_closed :: link_state where
  "lab_closed = snd (run_state (link_run lab_wire 0x2501 True) lab_open)"

lemma lab_open: "link_reachable lab_wire lab_open"
proof (rule link_reachable.register)
  show "link_reachable lab_wire (handover 2)" by (rule link_reachable.start) (simp add: X1_RX_COUNT_def)
  show "run_state (link_register True) (handover 2) = (0, lab_open)"
    by (simp add: link_register_def run_simps handover_def lab_open_def)
qed

lemma lab_admitted: "link_admitted lab_wire True lab_open"
  by code_simp

lemma lab_result: "map_prod id (\<lambda>l. txs (l_log l)) (run_state (link_run lab_wire 0x2501 True) lab_open) = (- ETIMEDOUT, [2])"
  by code_simp

lemma lab_closed: "run_state (link_run lab_wire 0x2501 True) lab_open = (- ETIMEDOUT, lab_closed)" "txs (l_log lab_closed) = [2]"
  using lab_result by (cases "run_state (link_run lab_wire 0x2501 True) lab_open", simp add: lab_closed_def)+



text \<open>
  C8.  There is one session.  A run that the guards do not admit is refused without any effect.  An admitted
  run sets the mark, always ends by turning the interrupt off, waiting for its handler where one was requested
  and stopping first the receive and then the send ring, and makes every later run a refusal without effect;
  it never reports success, because the external router is not configured in this snapshot.  In all, at most
  one connect command is given, and only with the cable orientation word of the observed drive.
\<close>

theorem link_single_session:
  assumes "link_reachable env l" and "run_state (link_run env wd has_valid) l = (ret, l')"
  shows "ret \<noteq> 0 \<and> connects (l_log l') \<in> {[], [0x2501], [0x2701]} \<and>
    (if link_admitted env has_valid l
     then l_stopped l' \<and> l_link_attempted l' \<and>
       (\<exists>h. l_log l' = L_stop_tx # L_stop_rx # (if le_irq_requested env then [L_sync_irq] else []) @ [L_disable_interrupts] @ h) \<and>
       (\<forall>wd' v'. run_state (link_run env wd' v') l' = (- EPERM, l'))
     else ret = - EPERM \<and> l' = l)"
proof (cases "link_admitted env has_valid l")
  case True
  with link_reachable_inv [OF assms(1)] have "connects (l_log l) = []" "l_rings_started l"
    by (simp_all add: link_inv_def link_admitted_def)
  from run_admitted [OF True this assms(2)] have
    "ret \<noteq> 0" "l_stopped l'" "l_link_attempted l'" "connects (l_log l') \<in> {[], [0x2501], [0x2701]}"
    "\<exists>h. l_log l' = closing env @ h" by simp_all
  with True show ?thesis by (simp add: run_refused link_admitted_def closing_def)
next
  case False
  with link_reachable_inv [OF assms(1)] assms(2) show ?thesis by (auto simp: run_refused link_inv_def)
qed

theorem link_single_session_witness:
  "link_reachable lab_wire lab_open \<and> run_state (link_run lab_wire 0x2501 True) lab_open = (- ETIMEDOUT, lab_closed) \<and>
   link_admitted lab_wire True lab_open \<and> l_stopped lab_closed \<and>
   (\<exists>h. l_log lab_closed = L_stop_tx # L_stop_rx # L_sync_irq # L_disable_interrupts # h) \<and>
   run_state (link_run lab_wire 0x2701 True) lab_closed = (- EPERM, lab_closed)"
  using link_single_session [OF lab_open lab_closed(1)] lab_open lab_closed(1) lab_admitted
  by (simp add: lab_wire_def)

end
