(* ===== verification/X1_Session.thy ===== *)
theory X1_Session
  imports X1_Prelude
begin

text \<open>
  The tickets of the private NVMe read test
  (\<open>experiments/omarchy1/kernel/drivers/nvme/host/x1-private-read.h\<close>): which device is admitted, and
  how a ticket is opened for it, claimed by the storage driver's probe, retired and closed.

  A \<open>struct pci_dev\<close> is what the code looks at, with \<open>pd_id\<close> for the pointer; the fields of the device
  model may differ from call to call.  Every operation runs under the session mutex, so it is a
  function on the shared state.
\<close>

section \<open>Admission\<close>

record root_port =
  rp_on_root_bus :: bool
  rp_bus :: nat
  rp_devfn :: nat
  rp_vendor :: u32
  rp_device :: u32
  rp_type :: u32

text \<open>
  The place of a device: its host bridge and that bridge's parent device with the parent's tree node,
  the node of the expected host, and the device's own address and identity.
\<close>

record place =
  pl_host :: bool
  pl_parent :: bool
  pl_parent_node :: "nat option"
  pl_yoga :: bool
  pl_expected :: "nat option"
  pl_compatible :: bool
  pl_node_opt_in :: bool
  pl_device_opt_in :: bool
  pl_domain :: nat
  pl_bus :: nat
  pl_devfn :: nat
  pl_vendor :: u32
  pl_device :: u32
  pl_class :: u32
  pl_upstream :: "root_port option"

definition x1_nvme_private_host :: "place \<Rightarrow> bool" where
  "x1_nvme_private_host p \<longleftrightarrow>
     (if \<not> pl_host p \<or> \<not> pl_parent p \<or> \<not> pl_yoga p then False
      else pl_expected p \<noteq> None \<and> pl_parent_node p = pl_expected p \<and> pl_compatible p \<and> pl_node_opt_in p)"

definition x1_nvme_read_admitted :: "place \<Rightarrow> bool" where
  "x1_nvme_read_admitted p \<longleftrightarrow> x1_nvme_private_host p \<and> pl_device_opt_in p \<and>
     pl_domain p = 0 \<and> pl_bus p = 1 \<and> pl_devfn p = 0 \<and> pl_vendor p = 0x1c19 \<and> pl_device p = 0x102b \<and>
     pl_class p = 0x010802 \<and>
     (case pl_upstream p of
        None \<Rightarrow> False
      | Some r \<Rightarrow> rp_on_root_bus r \<and> rp_bus r = 0 \<and> rp_devfn r = 0 \<and> rp_vendor r = 0x17cb \<and>
          rp_device r = 0x0111 \<and> rp_type r = 4)"

section \<open>The session\<close>

record nvme_pdev =
  pd_id :: nat
  pd_place :: place
  pd_driver :: bool
  pd_drvdata :: bool
  pd_registered :: bool
  pd_msi_data :: bool

record x1_nvme_session =
  se_pdev :: nat
  se_id :: u64
  se_consumed :: bool
  se_resources_retired :: bool

record session_state =
  the_session :: "x1_nvme_session option"
  session_sequence :: u64

definition session_zero :: session_state where
  "session_zero = \<lparr>the_session = None, session_sequence = 0\<rparr>"

text \<open>
  Opening: the device pointer and whether the pointer for the id is valid, whether the allocation
  succeeds; the result is the return value and the id stored.
\<close>

definition nvme_x1_open_session ::
    "nvme_pdev option \<Rightarrow> bool \<Rightarrow> bool \<Rightarrow> session_state \<Rightarrow> (int \<times> u64 option) \<times> session_state" where
  "nvme_x1_open_session pdev has_id alloc s =
     (case pdev of
        None \<Rightarrow> ((- EINVAL, None), s)
      | Some d \<Rightarrow>
          if \<not> has_id \<or> \<not> x1_nvme_read_admitted (pd_place d) then ((- EINVAL, None), s)
          else if the_session s \<noteq> None \<or> pd_driver d \<or> pd_drvdata d \<or> \<not> pd_registered d \<or>
            session_sequence s = - 1 then ((- EPERM, None), s)
          else if \<not> alloc then ((- ENOMEM, None), s)
          else let n = session_sequence s + 1 in
            ((0, Some n), \<lparr>the_session = Some \<lparr>se_pdev = pd_id d, se_id = n, se_consumed = False,
               se_resources_retired = False\<rparr>, session_sequence = n\<rparr>))"

definition x1_nvme_claim_session :: "nat \<Rightarrow> session_state \<Rightarrow> bool \<times> session_state" where
  "x1_nvme_claim_session pdev s =
     (case the_session s of
        None \<Rightarrow> (False, s)
      | Some x \<Rightarrow>
          if se_pdev x = pdev \<and> \<not> se_consumed x \<and> \<not> se_resources_retired x
          then (True, s\<lparr>the_session := Some (x\<lparr>se_consumed := True\<rparr>)\<rparr>)
          else (False, s))"

definition x1_nvme_session_resources_retired :: "nat \<Rightarrow> session_state \<Rightarrow> int \<times> session_state" where
  "x1_nvme_session_resources_retired pdev s =
     (case the_session s of
        None \<Rightarrow> (- ESTALE, s)
      | Some x \<Rightarrow>
          if se_pdev x = pdev \<and> se_consumed x \<and> \<not> se_resources_retired x
          then (0, s\<lparr>the_session := Some (x\<lparr>se_resources_retired := True\<rparr>)\<rparr>)
          else (- ESTALE, s))"

definition nvme_x1_close_session :: "nvme_pdev option \<Rightarrow> u64 \<Rightarrow> session_state \<Rightarrow> int \<times> session_state" where
  "nvme_x1_close_session pdev n s =
     (case pdev of
        None \<Rightarrow> (- EINVAL, s)
      | Some d \<Rightarrow>
          if n = 0 then (- EINVAL, s)
          else (case the_session s of
             None \<Rightarrow> (- EPERM, s)
           | Some x \<Rightarrow>
               if se_pdev x \<noteq> pd_id d \<or> se_id x \<noteq> n \<or> \<not> se_consumed x \<or> \<not> se_resources_retired x \<or>
                 pd_driver d \<or> pd_drvdata d \<or> pd_msi_data d \<or> pd_registered d then (- EPERM, s)
               else (0, s\<lparr>the_session := None\<rparr>)))"

text \<open>The error a controller of the test ends with: the first one is kept.\<close>

definition x1_nvme_read_stop :: "bool \<Rightarrow> int \<Rightarrow> int \<Rightarrow> int" where
  "x1_nvme_read_stop private_test error first =
     (if private_test then (if first = 0 then (if error < 0 then error else - EIO) else first) else first)"

section \<open>Histories of tickets\<close>

datatype ticket =
    Opened nvme_pdev u64
  | Claimed nat
  | Retired nat
  | Closed nvme_pdev u64

inductive session_run :: "ticket list \<Rightarrow> session_state \<Rightarrow> bool" where
  zero: "session_run [] session_zero"
| opened: "session_run ts s \<Longrightarrow> nvme_x1_open_session (Some d) has_id alloc s = ((0, Some n), s') \<Longrightarrow>
     session_run (Opened d n # ts) s'"
| refused_open: "session_run ts s \<Longrightarrow> nvme_x1_open_session pdev has_id alloc s = ((r, n), s') \<Longrightarrow> r \<noteq> 0 \<Longrightarrow>
     session_run ts s'"
| claimed: "session_run ts s \<Longrightarrow> x1_nvme_claim_session p s = (True, s') \<Longrightarrow> session_run (Claimed p # ts) s'"
| refused_claim: "session_run ts s \<Longrightarrow> x1_nvme_claim_session p s = (False, s') \<Longrightarrow> session_run ts s'"
| retired: "session_run ts s \<Longrightarrow> x1_nvme_session_resources_retired p s = (0, s') \<Longrightarrow> session_run (Retired p # ts) s'"
| refused_retire: "session_run ts s \<Longrightarrow> x1_nvme_session_resources_retired p s = (r, s') \<Longrightarrow> r \<noteq> 0 \<Longrightarrow> session_run ts s'"
| closed: "session_run ts s \<Longrightarrow> nvme_x1_close_session (Some d) n s = (0, s') \<Longrightarrow> session_run (Closed d n # ts) s'"
| refused_close: "session_run ts s \<Longrightarrow> nvme_x1_close_session pdev n s = (r, s') \<Longrightarrow> r \<noteq> 0 \<Longrightarrow> session_run ts s'"

text \<open>
  The ledger a history of tickets amounts to (newest first): ticket \<open>n\<close> is opened for an admitted,
  unbound device, claimed once, retired once and closed once the device is gone, and ticket \<open>n + 1\<close>
  only follows then.  The stage says how far the newest ticket is.
\<close>

datatype stage_of_ticket = Free | Open nat | Used nat | Done nat

definition unbound :: "nvme_pdev \<Rightarrow> bool" where
  "unbound d \<longleftrightarrow> x1_nvme_read_admitted (pd_place d) \<and> \<not> pd_driver d \<and> \<not> pd_drvdata d \<and> pd_registered d"

definition gone :: "nvme_pdev \<Rightarrow> bool" where
  "gone d \<longleftrightarrow> \<not> pd_driver d \<and> \<not> pd_drvdata d \<and> \<not> pd_msi_data d \<and> \<not> pd_registered d"

inductive ledger :: "nat \<Rightarrow> stage_of_ticket \<Rightarrow> ticket list \<Rightarrow> bool" where
  empty: "ledger 0 Free []"
| open_next: "ledger n Free ts \<Longrightarrow> Suc n < 2 ^ 64 \<Longrightarrow> unbound d \<Longrightarrow>
     ledger (Suc n) (Open (pd_id d)) (Opened d (of_nat (Suc n)) # ts)"
| claim: "ledger n (Open p) ts \<Longrightarrow> ledger n (Used p) (Claimed p # ts)"
| retire: "ledger n (Used p) ts \<Longrightarrow> ledger n (Done p) (Retired p # ts)"
| close: "ledger n (Done (pd_id d)) ts \<Longrightarrow> gone d \<Longrightarrow> ledger n Free (Closed d (of_nat n) # ts)"

text \<open>The state the ledger stands for.\<close>

definition ticket_state :: "nat \<Rightarrow> stage_of_ticket \<Rightarrow> session_state" where
  "ticket_state n st = \<lparr>the_session = (case st of
       Free \<Rightarrow> None
     | Open p \<Rightarrow> Some \<lparr>se_pdev = p, se_id = of_nat n, se_consumed = False, se_resources_retired = False\<rparr>
     | Used p \<Rightarrow> Some \<lparr>se_pdev = p, se_id = of_nat n, se_consumed = True, se_resources_retired = False\<rparr>
     | Done p \<Rightarrow> Some \<lparr>se_pdev = p, se_id = of_nat n, se_consumed = True, se_resources_retired = True\<rparr>),
     session_sequence = of_nat n\<rparr>"

lemma ledger_bound: "ledger n st ts \<Longrightarrow> n < 2 ^ 64"
  by (induction rule: ledger.induct) simp_all

section \<open>The operations on a ledger\<close>

lemmas ticket_simps = ticket_state_def nvme_x1_open_session_def x1_nvme_claim_session_def
  x1_nvme_session_resources_retired_def nvme_x1_close_session_def Let_def

lemma last_id: "n < 2 ^ 64 \<Longrightarrow> (of_nat n :: u64) \<noteq> - 1 \<Longrightarrow> Suc n < 2 ^ 64"
proof (rule ccontr)
  assume "n < 2 ^ 64" "\<not> Suc n < 2 ^ 64" and ne: "(of_nat n :: u64) \<noteq> - 1"
  then have "n = 2 ^ 64 - 1" by simp
  then have "(of_nat n :: u64) = - 1" by simp
  with ne show False by simp
qed

lemma open_ticket:
  assumes "n < 2 ^ 64" and "nvme_x1_open_session (Some d) has_id alloc (ticket_state n st) = ((0, Some m), s')"
  shows "st = Free \<and> Suc n < 2 ^ 64 \<and> unbound d \<and> m = of_nat (Suc n) \<and> s' = ticket_state (Suc n) (Open (pd_id d))"
  using assms(2) last_id [OF assms(1)]
  by (cases st) (auto simp: ticket_simps unbound_def add.commute split: if_splits)

lemma claim_ticket:
  assumes "x1_nvme_claim_session p (ticket_state n st) = (True, s')"
  shows "st = Open p \<and> s' = ticket_state n (Used p)"
  using assms by (cases st) (auto simp: ticket_simps split: if_splits)

lemma retire_ticket:
  assumes "x1_nvme_session_resources_retired p (ticket_state n st) = (0, s')"
  shows "st = Used p \<and> s' = ticket_state n (Done p)"
  using assms by (cases st) (auto simp: ticket_simps split: if_splits)

lemma close_ticket:
  assumes "nvme_x1_close_session (Some d) m (ticket_state n st) = (0, s')"
  shows "st = Done (pd_id d) \<and> m = of_nat n \<and> gone d \<and> s' = ticket_state n Free"
  using assms by (cases st) (auto simp: ticket_simps gone_def split: if_splits)

lemma refusals:
  "nvme_x1_open_session pdev has_id alloc s = ((r, m), s') \<Longrightarrow> r \<noteq> 0 \<Longrightarrow> s' = s"
  "x1_nvme_claim_session p s = (False, s') \<Longrightarrow> s' = s"
  "x1_nvme_session_resources_retired p s = (r, s') \<Longrightarrow> r \<noteq> 0 \<Longrightarrow> s' = s"
  "nvme_x1_close_session pdev n s = (r, s') \<Longrightarrow> r \<noteq> 0 \<Longrightarrow> s' = s"
  by (auto simp: ticket_simps split: option.splits if_splits)

lemma run_ledger: "session_run ts s \<Longrightarrow> \<exists>n st. ledger n st ts \<and> s = ticket_state n st"
proof (induction rule: session_run.induct)
  case zero
  show ?case
    by (intro exI [of _ 0] exI [of _ Free]) (simp add: ledger.empty session_zero_def ticket_state_def)
next
  case (opened ts s d has_id alloc m s')
  then obtain n st where l: "ledger n st ts" "s = ticket_state n st" by blast
  from open_ticket [OF ledger_bound [OF l(1)]] opened(2) l(2)
  have "st = Free" "Suc n < 2 ^ 64" "unbound d" "m = of_nat (Suc n)" "s' = ticket_state (Suc n) (Open (pd_id d))" by blast+
  with l(1) show ?case using ledger.open_next by blast
next
  case (claimed ts s p s')
  then show ?case using claim_ticket ledger.claim by blast
next
  case (retired ts s p s')
  then show ?case using retire_ticket ledger.retire by blast
next
  case (closed ts s d m s')
  then show ?case using close_ticket ledger.close by blast
next
  case (refused_open ts s pdev has_id alloc r m s')
  with refusals(1) [OF this(2,3)] show ?case by simp
next
  case (refused_claim ts s p s')
  with refusals(2) [OF this(2)] show ?case by simp
next
  case (refused_retire ts s p r s')
  with refusals(3) [OF this(2,3)] show ?case by simp
next
  case (refused_close ts s pdev n r s')
  with refusals(4) [OF this(2,3)] show ?case by simp
qed

text \<open>The ids a ledger has opened, newest first.\<close>

definition opened_ids :: "ticket list \<Rightarrow> u64 list" where
  "opened_ids ts = concat (map (\<lambda>t. case t of Opened d n \<Rightarrow> [n] | _ \<Rightarrow> []) ts)"

lemma ledger_ids: "ledger n st ts \<Longrightarrow> opened_ids ts = rev (map of_nat [1..<Suc n])"
  by (induction rule: ledger.induct) (simp_all add: opened_ids_def)

lemma ids_distinct:
  assumes "n < 2 ^ 64"
  shows "distinct (map (of_nat :: nat \<Rightarrow> u64) [1..<Suc n])" and "0 \<notin> set (map (of_nat :: nat \<Rightarrow> u64) [1..<Suc n])"
proof -
  have inj: "inj_on (of_nat :: nat \<Rightarrow> u64) {0..<2 ^ 64}"
  proof (rule inj_onI)
    fix a b :: nat
    assume ab: "a \<in> {0..<2 ^ 64}" "b \<in> {0..<2 ^ 64}" and "(of_nat a :: u64) = of_nat b"
    then have "unat (of_nat a :: u64) = unat (of_nat b :: u64)" by simp
    with ab show "a = b" by (simp add: unat_of_nat)
  qed
  have sub: "set [1..<Suc n] \<subseteq> {0..<2 ^ 64}" using assms by auto
  show "distinct (map (of_nat :: nat \<Rightarrow> u64) [1..<Suc n])"
    using inj_on_subset [OF inj sub] by (simp add: distinct_map)
  have "(of_nat k :: u64) \<noteq> 0" if k: "k \<in> set [1..<Suc n]" for k
  proof
    assume "(of_nat k :: u64) = 0"
    then have "unat (of_nat k :: u64) = 0" by simp
    moreover have "k < 2 ^ 64" using k assms by auto
    ultimately have "k = 0" by (simp add: unat_of_nat)
    with k show False by auto
  qed
  then show "0 \<notin> set (map (of_nat :: nat \<Rightarrow> u64) [1..<Suc n])" by (metis (no_types) imageE set_map)
qed

section \<open>Properties\<close>

text \<open>
  C9. Whatever calls are made, in whatever order and with whatever devices, the tickets that succeed form
  a ledger and the driver's state is the one the ledger stands for: a ticket is opened only for the one
  admitted endpoint while no driver has it, claimed and retired at most once and by the same device, and
  closed only with its own id and once the device is unregistered; the next one is opened only then.  The
  ids are 1, 2, 3 and so on without wrapping around, so none is reused and none is the invalid 0.
\<close>

theorem session_refines_ledger:
  assumes "session_run ts s"
  shows "\<exists>n st. ledger n st ts \<and> s = ticket_state n st \<and> opened_ids ts = rev (map of_nat [1..<Suc n]) \<and>
    distinct (opened_ids ts) \<and> 0 \<notin> set (opened_ids ts)"
proof -
  from run_ledger [OF assms] obtain n st where l: "ledger n st ts" "s = ticket_state n st" by blast
  note ids = ids_distinct [OF ledger_bound [OF l(1)]] ledger_ids [OF l(1)]
  have "distinct (opened_ids ts)" "0 \<notin> set (opened_ids ts)"
    unfolding ids(3) using ids(1,2) by (simp_all only: distinct_rev set_rev) auto
  with l ids(3) show ?thesis by blast
qed

definition lab_disk :: nvme_pdev where
  "lab_disk = \<lparr>pd_id = 7, pd_place = \<lparr>pl_host = True, pl_parent = True, pl_parent_node = Some 3, pl_yoga = True,
     pl_expected = Some 3, pl_compatible = True, pl_node_opt_in = True, pl_device_opt_in = True, pl_domain = 0, pl_bus = 1,
     pl_devfn = 0, pl_vendor = 0x1c19, pl_device = 0x102b, pl_class = 0x010802,
     pl_upstream = Some \<lparr>rp_on_root_bus = True, rp_bus = 0, rp_devfn = 0, rp_vendor = 0x17cb, rp_device = 0x0111, rp_type = 4\<rparr>\<rparr>,
     pd_driver = False, pd_drvdata = False, pd_registered = True, pd_msi_data = False\<rparr>"

theorem session_refines_ledger_witness:
  "session_run [Claimed 7, Opened lab_disk 1] (ticket_state 1 (Used 7)) \<and>
   (\<exists>n st. ledger n st [Claimed 7, Opened lab_disk 1])"
proof -
  have "nvme_x1_open_session (Some lab_disk) True True session_zero = ((0, Some 1), ticket_state 1 (Open 7))"
    by (simp add: ticket_simps session_zero_def lab_disk_def x1_nvme_read_admitted_def x1_nvme_private_host_def)
  with session_run.zero have "session_run [Opened lab_disk 1] (ticket_state 1 (Open 7))" by (rule session_run.opened)
  moreover have "x1_nvme_claim_session 7 (ticket_state 1 (Open 7)) = (True, ticket_state 1 (Used 7))"
    by (simp add: ticket_simps)
  ultimately have run: "session_run [Claimed 7, Opened lab_disk 1] (ticket_state 1 (Used 7))"
    by (rule session_run.claimed)
  with session_refines_ledger [OF run] show ?thesis by blast
qed

text \<open>
  The first error is final: the recorded error is the first one reported, made negative, and no later
  report, successful completion included, replaces it.
\<close>

lemma stop_first_error:
  "fold (x1_nvme_read_stop True) (e # es) 0 = (if e < 0 then e else - EIO) \<and> fold (x1_nvme_read_stop True) (e # es) 0 < 0"
proof -
  have keep: "first \<noteq> 0 \<Longrightarrow> fold (x1_nvme_read_stop True) es first = first" for first
    by (induction es) (simp_all add: x1_nvme_read_stop_def)
  show ?thesis using keep [of "if e < 0 then e else - EIO"] by (simp add: x1_nvme_read_stop_def)
qed

end
