(* ===== verification/X1_Imsi.thy ===== *)
theory X1_Imsi
  imports X1_Prelude
begin

unbundle bit_operations_syntax

text \<open>
  The first-test policies of the PCI0 MSI receiver
  (\<open>experiments/el1-pci0/kernel/drivers/thunderbolt/x1-imsi-policy.h\<close>, \<open>x1-imsi-policy.c\<close>): one bounded
  change of the controller's interrupt mask, and the admission of the MSI target address.
\<close>

section \<open>The policy object and the world around it\<close>

record x1_imsi_policy =
  global_attempted :: bool
  global_ready :: bool
  target_attempted :: bool
  target_ready :: bool
  mask_write_issued :: bool
  mask_write_returned :: bool
  mask_before :: u32
  mask_after :: u32
  status_before :: u32
  status_after :: u32
  target :: u64
  memory_windows :: nat
  global_error :: int
  target_error :: int

datatype imsi_event =
    I_live int bool bool
  | I_irq bool
  | I_readl nat u32
  | I_writel nat u32

text \<open>
  What the kernel says of the interrupt: its domain's node, hardware number, trigger, whether it is
  disabled, and whether an action or handler data is attached.
\<close>

record irq_view =
  irq_domain_node :: "nat option"
  irq_hwirq :: nat
  irq_level_high :: bool
  irq_disabled :: bool
  irq_action :: bool
  irq_handler_data :: bool

datatype resource_type = IORESOURCE_BUS | IORESOURCE_MEM | IORESOURCE_OTHER

record resource_entry =
  win_type :: resource_type
  win_res :: "(u64 \<times> u64) option"
  win_offset :: u64

text \<open>
  Device-tree nodes are numbers.  The liveness callback, runtime power management, the interrupt and the
  registers answer as a function of the history; the rest is fixed.
\<close>

record imsi_env =
  pointers_set :: bool
  check_live :: "imsi_event list \<Rightarrow> int"
  pdev_active :: "imsi_event list \<Rightarrow> bool"
  owner_active :: "imsi_event list \<Rightarrow> bool"
  machine_yoga :: bool
  bridge_child_of_pdev :: bool
  bridge_has_bus :: bool
  pdev_driver :: "bool option"
  owner_driver :: "bool option"
  host_path :: "nat option"
  pdev_node :: "nat option"
  host_compatible :: "nat \<Rightarrow> bool"
  owner_path :: "nat option"
  owner_node :: "nat option"
  owner_compatible :: "nat \<Rightarrow> bool"
  parf_resource :: "(u64 \<times> u64) option"
  global_irq_of :: "int"
  intc_path :: "nat option"
  irq_data :: "imsi_event list \<Rightarrow> int \<Rightarrow> irq_view option"
  parf_readl :: "imsi_event list \<Rightarrow> nat \<Rightarrow> u32"
  windows :: "resource_entry list"

type_synonym 'a imsi_prog = "(x1_imsi_policy \<times> imsi_event list, 'a) state"

definition imsi_ask :: "(imsi_event list \<Rightarrow> 'a) \<Rightarrow> ('a \<Rightarrow> imsi_event) \<Rightarrow> 'a imsi_prog" where
  "imsi_ask ans ev = State (\<lambda>(p, h). (ans h, (p, ev (ans h) # h)))"

definition imsi_set :: "(x1_imsi_policy \<Rightarrow> x1_imsi_policy) \<Rightarrow> int imsi_prog" where
  "imsi_set f = State (\<lambda>(p, h). (0, (f p, h)))"

definition imsi_get :: "(x1_imsi_policy \<Rightarrow> 'a) \<Rightarrow> 'a imsi_prog" where
  "imsi_get f = State (\<lambda>(p, h). (f p, (p, h)))"

definition parf_read :: "imsi_env \<Rightarrow> nat \<Rightarrow> u32 imsi_prog" where
  "parf_read env off = imsi_ask (\<lambda>h. parf_readl env h off) (I_readl off)"

definition parf_write :: "u32 \<Rightarrow> nat \<Rightarrow> int imsi_prog" where
  "parf_write v off = imsi_ask (\<lambda>_. 0) (\<lambda>_. I_writel off v)"

section \<open>Admission\<close>

definition X1_POLICY_STATUS :: nat where "X1_POLICY_STATUS = 0x224"
definition X1_POLICY_MASK :: nat where "X1_POLICY_MASK = 0x22c"
definition X1_POLICY_BANKS :: u32 where "X1_POLICY_BANKS = 0x7f800000"
definition X1_POLICY_LINK_UP :: u32 where "X1_POLICY_LINK_UP = 0x2000"

definition x1_policy_live :: "imsi_env \<Rightarrow> int imsi_prog" where
  "x1_policy_live env = do {
     (ret, pdev, owner) \<leftarrow> imsi_ask (\<lambda>h. (check_live env h, pdev_active env h, owner_active env h))
       (\<lambda>(ret, pdev, owner). I_live ret pdev owner);
     State_Monad.return
       (if ret \<noteq> 0 then if ret < 0 then ret else - EIO
        else if \<not> pdev \<or> \<not> owner then - EHOSTDOWN else 0)
   }"

definition node_is :: "nat option \<Rightarrow> nat option \<Rightarrow> (nat \<Rightarrow> bool) \<Rightarrow> bool" where
  "node_is path node compatible = (case path of None \<Rightarrow> False | Some n \<Rightarrow> node = Some n \<and> compatible n)"

definition x1_policy_admit :: "imsi_env \<Rightarrow> int imsi_prog" where
  "x1_policy_admit env =
     (if \<not> pointers_set env then State_Monad.return (- EINVAL)
      else if \<not> machine_yoga env \<or> \<not> bridge_child_of_pdev env \<or> bridge_has_bus env \<or>
          pdev_driver env \<noteq> Some True \<or> owner_driver env \<noteq> Some True
        then State_Monad.return (- ENODEV)
      else if \<not> node_is (host_path env) (pdev_node env) (host_compatible env) then State_Monad.return (- ENODEV)
      else if \<not> node_is (owner_path env) (owner_node env) (owner_compatible env) then State_Monad.return (- ENODEV)
      else if parf_resource env \<noteq> Some (0x1c28000, 0x8000) then State_Monad.return (- ENODEV)
      else x1_policy_live env)"

definition irq_idle :: "imsi_env \<Rightarrow> irq_view option \<Rightarrow> bool" where
  "irq_idle env view =
     (case (intc_path env, view) of
        (Some intc, Some v) \<Rightarrow> irq_domain_node v = Some intc \<and> irq_hwirq v = 167 + 32 \<and> irq_level_high v \<and>
          irq_disabled v \<and> \<not> irq_action v \<and> \<not> irq_handler_data v
      | _ \<Rightarrow> False)"

definition x1_policy_global_idle :: "imsi_env \<Rightarrow> int \<Rightarrow> int imsi_prog" where
  "x1_policy_global_idle env irq = do {
     ret \<leftarrow> x1_policy_live env;
     if ret \<noteq> 0 then State_Monad.return ret
     else if irq \<le> 0 \<or> global_irq_of env \<noteq> irq then State_Monad.return (- EINVAL)
     else do {
       idle \<leftarrow> imsi_ask (\<lambda>h. irq_idle env (irq_data env h irq)) I_irq;
       State_Monad.return (if idle then 0 else - EBUSY)
     }
   }"

section \<open>The interrupt mask\<close>

definition status_quiet :: "imsi_env \<Rightarrow> (u32 \<Rightarrow> x1_imsi_policy \<Rightarrow> x1_imsi_policy) \<Rightarrow> int imsi_prog" where
  "status_quiet env record = do {
     v \<leftarrow> parf_read env X1_POLICY_STATUS;
     imsi_set (record v);
     State_Monad.return (if v AND NOT X1_POLICY_LINK_UP \<noteq> 0 then - EBUSY else 0)
   }"

definition mask_known :: "imsi_env \<Rightarrow> int imsi_prog" where
  "mask_known env = do {
     v \<leftarrow> parf_read env X1_POLICY_MASK;
     imsi_set (\<lambda>p. p\<lparr>mask_before := v\<rparr>);
     State_Monad.return (if v = - 1 \<or> v OR X1_POLICY_BANKS = - 1 then - EIO else 0)
   }"

definition mask_enable :: "imsi_env \<Rightarrow> int imsi_prog" where
  "mask_enable env = do {
     before \<leftarrow> imsi_get mask_before;
     let desired = before OR X1_POLICY_BANKS;
     (if desired \<noteq> before then do {
        imsi_set (\<lambda>p. p\<lparr>mask_write_issued := True\<rparr>);
        parf_write desired X1_POLICY_MASK;
        imsi_set (\<lambda>p. p\<lparr>mask_write_returned := True\<rparr>)
      } else State_Monad.return 0);
     v \<leftarrow> parf_read env X1_POLICY_MASK;
     imsi_set (\<lambda>p. p\<lparr>mask_after := v\<rparr>);
     State_Monad.return (if v \<noteq> desired then - EIO else 0)
   }"

definition x1_imsi_policy_global :: "imsi_env \<Rightarrow> int \<Rightarrow> int imsi_prog" where
  "x1_imsi_policy_global env global_irq = do {
     attempted \<leftarrow> imsi_get global_attempted;
     if attempted then State_Monad.return (- EALREADY)
     else do {
       imsi_set (\<lambda>p. p\<lparr>global_attempted := True\<rparr>);
       ret \<leftarrow> run_ok
         [x1_policy_admit env,
          x1_policy_global_idle env global_irq,
          status_quiet env (\<lambda>v p. p\<lparr>status_before := v\<rparr>),
          x1_policy_global_idle env global_irq,
          mask_known env,
          x1_policy_global_idle env global_irq,
          mask_enable env,
          x1_policy_global_idle env global_irq,
          status_quiet env (\<lambda>v p. p\<lparr>status_after := v\<rparr>),
          x1_policy_global_idle env global_irq,
          imsi_set (\<lambda>p. p\<lparr>global_ready := True\<rparr>)];
       imsi_set (\<lambda>p. p\<lparr>global_error := ret\<rparr>);
       State_Monad.return ret
     }
   }"

section \<open>The target address\<close>

text \<open>The windows from entry \<open>n\<close> on; the second component counts the memory windows met.\<close>

fun scan_windows :: "u64 \<Rightarrow> nat \<Rightarrow> resource_entry list \<Rightarrow> nat \<Rightarrow> int \<times> nat" where
  "scan_windows t n [] found = (0, found)"
| "scan_windows t n (win # ws) found =
     (if 16 \<le> n then (- EINVAL, found)
      else case win_res win of
        None \<Rightarrow> (- EINVAL, found)
      | Some (start, stop) \<Rightarrow>
          if win_type win = IORESOURCE_BUS then scan_windows t (n + 1) ws found
          else if win_type win \<noteq> IORESOURCE_MEM \<or> stop < start \<or> start < win_offset win then (- EINVAL, found)
          else if (t \<le> stop - win_offset win \<and> start - win_offset win \<le> t + 7) \<or> (t \<le> stop \<and> start \<le> t + 7)
            then (- ERANGE, found + 1)
          else scan_windows t (n + 1) ws (found + 1))"

definition target_windows :: "imsi_env \<Rightarrow> u64 \<Rightarrow> int imsi_prog" where
  "target_windows env t =
     (if t AND 7 \<noteq> 0 \<or> - 1 - 7 < t then State_Monad.return (- EINVAL)
      else do {
        found \<leftarrow> imsi_get memory_windows;
        let (ret, found) = scan_windows t 0 (windows env) found;
        imsi_set (\<lambda>p. p\<lparr>memory_windows := found\<rparr>);
        State_Monad.return (if ret \<noteq> 0 then ret else if found = 0 then - ENODEV else 0)
      })"

definition x1_imsi_policy_target :: "imsi_env \<Rightarrow> u64 \<Rightarrow> int imsi_prog" where
  "x1_imsi_policy_target env t = do {
     attempted \<leftarrow> imsi_get target_attempted;
     if attempted then State_Monad.return (- EALREADY)
     else do {
       imsi_set (\<lambda>p. p\<lparr>target_attempted := True, target := t\<rparr>);
       ret \<leftarrow> run_ok
         [x1_policy_admit env,
          target_windows env t,
          x1_policy_live env,
          imsi_set (\<lambda>p. p\<lparr>target_ready := True\<rparr>)];
       imsi_set (\<lambda>p. p\<lparr>target_error := ret\<rparr>);
       State_Monad.return ret
     }
   }"

section \<open>An admitted target\<close>

text \<open>The doorbell of 8 bytes keeps clear of a window, as the CPU sees it and as the bus sees it.\<close>

definition clear_of :: "u64 \<Rightarrow> resource_entry \<Rightarrow> bool" where
  "clear_of t win = (case win_res win of
     None \<Rightarrow> False
   | Some (start, stop) \<Rightarrow> win_type win = IORESOURCE_BUS \<or>
       win_type win = IORESOURCE_MEM \<and> win_offset win \<le> start \<and> start \<le> stop \<and>
       {unat t ..< unat t + 8} \<inter> {unat start .. unat stop} = {} \<and>
       {unat t ..< unat t + 8} \<inter> {unat start - unat (win_offset win) .. unat stop - unat (win_offset win)} = {})"

lemma doorbell_end:
  assumes "\<not> - 1 - 7 < (t :: u64)"
  shows "unat (t + 7) = unat t + 7"
proof -
  have "unat t \<le> unat (- 1 - 7 :: u64)" using assms by (simp add: not_less word_le_nat_alt)
  then have "unat t + unat (7 :: u64) < 2 ^ LENGTH(64)" by simp
  then show ?thesis by (simp add: unat_word_ariths)
qed

lemma clear_window:
  assumes "\<not> - 1 - 7 < t" and "win_type win = IORESOURCE_MEM" and "win_res win = Some (start, stop)"
    and "\<not> stop < start" and "\<not> start < win_offset win"
    and "\<not> ((t \<le> stop - win_offset win \<and> start - win_offset win \<le> t + 7) \<or> (t \<le> stop \<and> start \<le> t + 7))"
  shows "clear_of t win"
proof -
  have order: "win_offset win \<le> start" "start \<le> stop" "win_offset win \<le> stop" using assms(4,5) by auto
  then have bus: "unat (start - win_offset win) = unat start - unat (win_offset win)"
      "unat (stop - win_offset win) = unat stop - unat (win_offset win)" by (simp_all add: unat_sub)
  have "unat stop < unat t \<or> unat t + 7 < unat start"
    using assms(6) doorbell_end [OF assms(1)] by (auto simp: word_le_nat_alt not_le)
  moreover have "unat stop - unat (win_offset win) < unat t \<or> unat t + 7 < unat start - unat (win_offset win)"
    using assms(6) doorbell_end [OF assms(1)] bus by (auto simp: word_le_nat_alt not_le)
  ultimately show ?thesis using assms(2,3) order by (auto simp: clear_of_def)
qed

lemma scan_windows_ok:
  assumes "scan_windows t n ws found = (0, found')" and "\<not> - 1 - 7 < t"
  shows "list_all (clear_of t) ws \<and> (ws \<noteq> [] \<longrightarrow> n + length ws \<le> 16) \<and>
    (found < found' \<longrightarrow> list_ex (\<lambda>win. win_type win = IORESOURCE_MEM) ws)"
  using assms
proof (induction ws arbitrary: n found)
  case (Cons win ws)
  obtain start stop where res: "win_res win = Some (start, stop)" and n: "n < 16"
    using Cons.prems(1) by (auto split: if_splits option.splits prod.splits)
  show ?case
  proof (cases "win_type win = IORESOURCE_BUS")
    case True
    with Cons.prems res n have "scan_windows t (n + 1) ws found = (0, found')" by simp
    from Cons.IH [OF this Cons.prems(2)] True res n show ?thesis by (cases ws) (auto simp: clear_of_def)
  next
    case False
    with Cons.prems res n have mem: "win_type win = IORESOURCE_MEM" "\<not> stop < start" "\<not> start < win_offset win"
        "\<not> ((t \<le> stop - win_offset win \<and> start - win_offset win \<le> t + 7) \<or> (t \<le> stop \<and> start \<le> t + 7))"
        and rest: "scan_windows t (n + 1) ws (found + 1) = (0, found')"
      by (auto split: if_splits)
    from Cons.IH [OF rest Cons.prems(2)] clear_window [OF Cons.prems(2) mem(1) res mem(2-4)] mem(1) n
    show ?thesis by (cases ws) auto
  qed
qed simp

lemmas imsi_runs = imsi_ask_def imsi_set_def imsi_get_def parf_read_def parf_write_def

lemma live_run: "\<exists>ret h'. run_state (x1_policy_live env) (p, h) = (ret, (p, h'))"
  by (simp add: x1_policy_live_def imsi_runs)

lemma admit_run: "\<exists>ret h'. run_state (x1_policy_admit env) (p, h) = (ret, (p, h'))"
  using live_run [of env p h] by (auto simp: x1_policy_admit_def)

lemma target_windows_run:
  assumes "run_state (target_windows env t) (p, h) = (0, st)" and "memory_windows p = 0"
  obtains found where "st = (p\<lparr>memory_windows := found\<rparr>, h)" and "t AND 7 = 0" and "\<not> - 1 - 7 < t"
    and "scan_windows t 0 (windows env) 0 = (0, found)" and "0 < found"
proof (cases "t AND 7 \<noteq> 0 \<or> - 1 - 7 < t")
  case True
  with assms show ?thesis by (simp add: target_windows_def)
next
  case False
  obtain ret found where scan: "scan_windows t 0 (windows env) 0 = (ret, found)" by (metis surj_pair)
  with False assms have "ret = 0" and "found \<noteq> 0" and "st = (p\<lparr>memory_windows := found\<rparr>, h)"
    by (auto simp: target_windows_def imsi_runs split: if_splits)
  with False scan show ?thesis by (intro that) auto
qed

text \<open>
  C20. When the target policy accepts an address, the 8-byte doorbell at it is aligned, does not wrap, and
  lies outside every memory window of the bridge both at its CPU addresses and at its bus addresses; there
  is at least one memory window, at most 16 windows, and none of another kind than bus or memory.  The
  object then says so and remembers the address.
\<close>

theorem imsi_target_clear:
  assumes "memory_windows p = 0"
    and run: "run_state (x1_imsi_policy_target env t) (p, h) = (0, (p', h'))"
  shows "t AND 7 = 0 \<and> unat t + 8 \<le> 2 ^ 64 \<and> list_all (clear_of t) (windows env) \<and>
    length (windows env) \<le> 16 \<and> list_ex (\<lambda>win. win_type win = IORESOURCE_MEM) (windows env) \<and>
    target_ready p' \<and> target p' = t \<and> target_error p' = 0 \<and> target_attempted p'"
proof -
  let ?p = "p\<lparr>target_attempted := True, target := t\<rparr>"
  obtain r1 h1 where admit: "run_state (x1_policy_admit env) (?p, h) = (r1, (?p, h1))" using admit_run by blast
  obtain r2 st2 where scan: "run_state (target_windows env t) (?p, h1) = (r2, st2)" by (metis surj_pair)
  obtain p2 h2 where st2: "st2 = (p2, h2)" by (cases st2)
  obtain r3 h3 where live: "run_state (x1_policy_live env) (p2, h2) = (r3, (p2, h3))" using live_run by blast
  have zero: "\<not> target_attempted p" "r1 = 0" "r2 = 0" "r3 = 0"
    and p': "p' = p2\<lparr>target_ready := True, target_error := 0\<rparr>"
    using run admit scan live st2
    by (auto simp: x1_imsi_policy_target_def imsi_set_def imsi_get_def split: if_splits)
  from scan zero(3) have "run_state (target_windows env t) (?p, h1) = (0, st2)" by simp
  then obtain found where found: "st2 = (?p\<lparr>memory_windows := found\<rparr>, h1)" "t AND 7 = 0" "\<not> - 1 - 7 < t"
      "scan_windows t 0 (windows env) 0 = (0, found)" "0 < found"
    by (rule target_windows_run) (simp_all add: assms(1))
  have "unat (t + 7) < 2 ^ 64" using unsigned_less [of "t + 7"] by simp
  then have "unat t + 8 \<le> 2 ^ 64" using doorbell_end [OF found(3)] by simp
  moreover have "length (windows env) \<le> 16" and "list_all (clear_of t) (windows env)"
      and "list_ex (\<lambda>win. win_type win = IORESOURCE_MEM) (windows env)"
    using scan_windows_ok [OF found(4,3)] found(5) by (cases "windows env"; simp)+
  ultimately show ?thesis using found(1,2) p' st2 by simp
qed

text \<open>A bridge with the 256 MiB window of the experiment, and every check passed.\<close>

definition ready_imsi :: imsi_env where
  "ready_imsi = \<lparr>pointers_set = True, check_live = (\<lambda>_. 0), pdev_active = (\<lambda>_. True), owner_active = (\<lambda>_. True),
     machine_yoga = True, bridge_child_of_pdev = True, bridge_has_bus = False, pdev_driver = Some True,
     owner_driver = Some True, host_path = Some 1, pdev_node = Some 1, host_compatible = (\<lambda>_. True),
     owner_path = Some 2, owner_node = Some 2, owner_compatible = (\<lambda>_. True),
     parf_resource = Some (0x1c28000, 0x8000), global_irq_of = 42, intc_path = Some 3,
     irq_data = (\<lambda>_ _. Some \<lparr>irq_domain_node = Some 3, irq_hwirq = 199, irq_level_high = True, irq_disabled = True,
       irq_action = False, irq_handler_data = False\<rparr>),
     parf_readl = (\<lambda>h off. if off = X1_POLICY_MASK \<and> list_ex (\<lambda>e. case e of I_writel _ _ \<Rightarrow> True | _ \<Rightarrow> False) h
       then 0x7f800001 else if off = X1_POLICY_MASK then 1 else 0),
     windows = [\<lparr>win_type = IORESOURCE_BUS, win_res = Some (0, 255), win_offset = 0\<rparr>,
       \<lparr>win_type = IORESOURCE_MEM, win_res = Some (0x40000000, 0x4fffffff), win_offset = 0\<rparr>]\<rparr>"

definition fresh_policy :: x1_imsi_policy where
  "fresh_policy = \<lparr>global_attempted = False, global_ready = False, target_attempted = False, target_ready = False,
     mask_write_issued = False, mask_write_returned = False, mask_before = 0, mask_after = 0, status_before = 0,
     status_after = 0, target = 0, memory_windows = 0, global_error = 0, target_error = 0\<rparr>"

theorem imsi_target_clear_witness:
  "fst (run_state (x1_imsi_policy_target ready_imsi 0x50000000) (fresh_policy, [])) = 0 \<and>
   list_all (clear_of 0x50000000) (windows ready_imsi)"
proof -
  have ok: "fst (run_state (x1_imsi_policy_target ready_imsi 0x50000000) (fresh_policy, [])) = 0" by code_simp
  then obtain p' h' where "run_state (x1_imsi_policy_target ready_imsi 0x50000000) (fresh_policy, []) = (0, (p', h'))"
    by (metis fst_conv surj_pair)
  with imsi_target_clear [of fresh_policy ready_imsi "0x50000000" "[]" p' h'] ok show ?thesis
    by (simp add: fresh_policy_def)
qed

end
