(* ===== verification/X1_Mem.thy ===== *)
theory X1_Mem
  imports X1_Prelude
begin

unbundle bit_operations_syntax

text \<open>
  The outbound memory window of the PCI0 experiment
  (\<open>experiments/el1-pci0/kernel/drivers/thunderbolt/x1-pci0-mem.h\<close>).

  The four callbacks are functions of the history of calls before them; a program changes the attempt's
  state and adds to that history.
\<close>

section \<open>State and callbacks\<close>

datatype mem_event =
    Mem_check int
  | Mem_read u32 int u32
  | Mem_write u32 u32 int
  | Mem_delay nat int

record x1_mem_io =
  mem_check :: "(mem_event list \<Rightarrow> int) option"
  mem_read :: "(mem_event list \<Rightarrow> u32 \<Rightarrow> int \<times> u32) option"
  mem_write :: "(mem_event list \<Rightarrow> u32 \<Rightarrow> u32 \<Rightarrow> int) option"
  mem_delay :: "(mem_event list \<Rightarrow> nat \<Rightarrow> int) option"

record x1_mem_state =
  mem_attempted :: bool
  mem_enable_issued :: bool
  mem_complete :: bool
  mem_writes :: nat
  mem_error :: int
  mem_step :: string

type_synonym 'a mem_prog = "(x1_mem_state \<times> mem_event list, 'a) state"

definition mem_call :: "(mem_event list \<Rightarrow> 'a) \<Rightarrow> ('a \<Rightarrow> mem_event) \<Rightarrow> 'a mem_prog" where
  "mem_call ans ev = State (\<lambda>(s, h). (ans h, (s, ev (ans h) # h)))"

definition mem_update :: "(x1_mem_state \<Rightarrow> x1_mem_state) \<Rightarrow> int mem_prog" where
  "mem_update f = State (\<lambda>(s, h). (0, (f s, h)))"

definition call_check :: "x1_mem_io \<Rightarrow> int mem_prog" where
  "call_check io = mem_call (the (mem_check io)) Mem_check"

definition call_read :: "x1_mem_io \<Rightarrow> u32 \<Rightarrow> (int \<times> u32) mem_prog" where
  "call_read io off = mem_call (\<lambda>h. the (mem_read io) h off) (\<lambda>(ret, v). Mem_read off ret v)"

definition call_write :: "x1_mem_io \<Rightarrow> u32 \<Rightarrow> u32 \<Rightarrow> int mem_prog" where
  "call_write io off v = mem_call (\<lambda>h. the (mem_write io) h off v) (Mem_write off v)"

definition call_delay :: "x1_mem_io \<Rightarrow> nat \<Rightarrow> int mem_prog" where
  "call_delay io ms = mem_call (\<lambda>h. the (mem_delay io) h ms) (Mem_delay ms)"

text \<open>\<open>ret > 0 ? -EIO : ret\<close>.\<close>

definition eio_if_positive :: "int \<Rightarrow> int" where
  "eio_if_positive ret = (if 0 < ret then - EIO else ret)"

section \<open>Operations\<close>

definition x1_mem_offset :: "u32 \<Rightarrow> bool" where
  "x1_mem_offset off \<longleftrightarrow> off \<in> {0x1200, 0x1204, 0x1208, 0x120c, 0x1210, 0x1214, 0x1218, 0x1220}"

text \<open>The value is meaningful when the result is 0.\<close>

definition x1_mem_read :: "x1_mem_io \<Rightarrow> u32 \<Rightarrow> (int \<times> u32) mem_prog" where
  "x1_mem_read io off =
     (if \<not> x1_mem_offset off then State_Monad.return (- EINVAL, 0)
      else do {
        ret \<leftarrow> call_check io;
        (ret, v) \<leftarrow> (if ret = 0 then call_read io off else State_Monad.return (ret, 0));
        State_Monad.return (eio_if_positive ret, v)
      })"

definition x1_mem_expect :: "x1_mem_io \<Rightarrow> u32 \<Rightarrow> u32 \<Rightarrow> int mem_prog" where
  "x1_mem_expect io off v = do {
     (ret, got) \<leftarrow> x1_mem_read io off;
     State_Monad.return (if ret \<noteq> 0 then ret else if got = v then 0 else - EIO)
   }"

definition x1_mem_set :: "x1_mem_io \<Rightarrow> u32 \<Rightarrow> u32 \<Rightarrow> int mem_prog" where
  "x1_mem_set io off v =
     (if \<not> x1_mem_offset off then State_Monad.return (- EINVAL)
      else do {
        ret \<leftarrow> call_check io;
        if ret \<noteq> 0 then State_Monad.return (eio_if_positive ret)
        else do {
          mem_update (\<lambda>s. s\<lparr>mem_writes := mem_writes s + 1\<rparr>);
          ret \<leftarrow> call_write io off v;
          if ret \<noteq> 0 then State_Monad.return (eio_if_positive ret) else x1_mem_expect io off v
        }
      })"

definition mem_words :: "(u32 \<times> u32) list" where
  "mem_words =
     [(0x1208, 0x40000000), (0x120c, 0), (0x1210, 0x4fffffff), (0x1220, 0),
      (0x1214, 0x40000000), (0x1218, 0), (0x1200, 0)]"

text \<open>The single enable, and the poll after it with \<open>n\<close> delays left.\<close>

definition mem_enable :: "x1_mem_io \<Rightarrow> int mem_prog" where
  "mem_enable io = do {
     ret \<leftarrow> call_check io;
     if ret \<noteq> 0 then State_Monad.return (eio_if_positive ret)
     else do {
       mem_update (\<lambda>s. s\<lparr>mem_enable_issued := True, mem_writes := mem_writes s + 1\<rparr>);
       ret \<leftarrow> call_write io 0x1204 0x80000000;
       State_Monad.return (eio_if_positive ret)
     }
   }"

fun mem_wait :: "x1_mem_io \<Rightarrow> nat \<Rightarrow> int mem_prog" where
  "mem_wait io 0 = do {
     (ret, v) \<leftarrow> x1_mem_read io 0x1204;
     State_Monad.return (if ret \<noteq> 0 then ret else if v = 0x80000000 then 0
       else if v \<noteq> 0 then - EIO else - ETIMEDOUT)
   }"
| "mem_wait io (Suc n) = do {
     (ret, v) \<leftarrow> x1_mem_read io 0x1204;
     if ret \<noteq> 0 then State_Monad.return ret
     else if v = 0x80000000 then State_Monad.return 0
     else if v \<noteq> 0 then State_Monad.return (- EIO)
     else do {
       ret \<leftarrow> call_delay io 10;
       if ret \<noteq> 0 then State_Monad.return (eio_if_positive ret) else mem_wait io n
     }
   }"

definition mem_named :: "string \<Rightarrow> int mem_prog" where
  "mem_named name = mem_update (\<lambda>s. s\<lparr>mem_step := name\<rparr>)"

definition mem_expect_words :: "x1_mem_io \<Rightarrow> int mem_prog" where
  "mem_expect_words io = run_ok (map (\<lambda>(off, v). x1_mem_expect io off v) mem_words)"

text \<open>The body up to the label \<open>done\<close>, and the whole function.\<close>

definition mem_prologue :: "x1_mem_io \<Rightarrow> int mem_prog" where
  "mem_prologue io = run_ok
     [mem_named ''mem-inactive-ob1'',
      x1_mem_expect io 0x1204 0,
      mem_named ''mem-program-ob1'',
      run_ok (map (\<lambda>(off, v). x1_mem_set io off v) mem_words),
      mem_expect_words io,
      x1_mem_expect io 0x1204 0,
      mem_named ''mem-enable-ob1'']"

definition mem_epilogue :: "x1_mem_io \<Rightarrow> int mem_prog" where
  "mem_epilogue io = run_ok
     [mem_wait io 4,
      mem_named ''mem-final-readback'',
      mem_expect_words io,
      x1_mem_expect io 0x1204 0x80000000,
      mem_update (\<lambda>s. s\<lparr>mem_complete := True, mem_step := ''mem-ready-not-endpoint-dma-proof''\<rparr>)]"

definition mem_body :: "x1_mem_io \<Rightarrow> int mem_prog" where
  "mem_body io = run_ok [mem_prologue io, mem_enable io, mem_epilogue io]"

definition x1_mem_prepare ::
    "x1_mem_io option \<Rightarrow> x1_mem_state option \<Rightarrow> mem_event list \<Rightarrow> int \<times> x1_mem_state option \<times> mem_event list" where
  "x1_mem_prepare io s h =
     (case (io, s) of
        (Some io, Some s) \<Rightarrow>
          if mem_check io = None \<or> mem_read io = None \<or> mem_write io = None \<or> mem_delay io = None
            then (- EINVAL, Some s, h)
          else if mem_attempted s then (- EALREADY, Some s, h)
          else let (ret, s, h) = run_state (mem_body io) (s\<lparr>mem_attempted := True\<rparr>, h)
            in (ret, Some (s\<lparr>mem_error := ret\<rparr>), h)
      | _ \<Rightarrow> (- EINVAL, s, h))"

section \<open>What is written\<close>

fun written_words :: "mem_event list \<Rightarrow> (u32 \<times> u32) list" where
  "written_words [] = []"
| "written_words (Mem_write off v ret # h) = written_words h @ [(off, v)]"
| "written_words (_ # h) = written_words h"

fun is_write :: "mem_event \<Rightarrow> bool" where
  "is_write (Mem_write _ _ _) = True"
| "is_write _ = False"

text \<open>The calls since the last write.\<close>

definition since :: "mem_event list \<Rightarrow> mem_event set" where
  "since h = set (takeWhile (\<lambda>e. \<not> is_write e) h)"

text \<open>
  \<open>wrote w c\<close>: exactly the writes \<open>w\<close> happened and are counted, the words \<open>c\<close> were read back since the
  last one, and the enable is not issued.
\<close>

definition wrote :: "(u32 \<times> u32) list \<Rightarrow> (u32 \<times> u32) set \<Rightarrow> x1_mem_state \<times> mem_event list \<Rightarrow> bool" where
  "wrote w c = (\<lambda>(s, h). written_words h = w \<and> mem_writes s = length w \<and> mem_attempted s \<and>
     \<not> mem_enable_issued s \<and> \<not> mem_complete s \<and> (\<forall>(off, v) \<in> c. Mem_read off 0 v \<in> since h))"

lemma since_simps [simp]:
  "since (Mem_check r # h) = insert (Mem_check r) (since h)"
  "since (Mem_read off r v # h) = insert (Mem_read off r v) (since h)"
  "since (Mem_delay ms r # h) = insert (Mem_delay ms r) (since h)"
  "since (Mem_write off v r # h) = {}"
  by (simp_all add: since_def)

lemmas mem_runs = mem_call_def mem_update_def call_check_def call_read_def call_write_def call_delay_def mem_named_def

lemma named_triple: "triple (wrote w c) (mem_named name) (\<lambda>ret st. ret = 0 \<and> wrote w c st)"
  by (auto simp: triple_def mem_runs wrote_def)

lemma expect_triple: "triple (wrote w c) (x1_mem_expect io off v)
    (\<lambda>ret st. wrote w c st \<and> (ret = 0 \<longrightarrow> wrote w (insert (off, v) c) st))"
  by (auto simp: triple_def x1_mem_expect_def x1_mem_read_def mem_runs wrote_def eio_if_positive_def
      split: prod.splits if_splits)

lemma wrote_mono: "wrote w c st \<Longrightarrow> c' \<subseteq> c \<Longrightarrow> wrote w c' st"
  by (auto simp: wrote_def)

lemma set_triple: "triple (wrote w c) (x1_mem_set io off v)
    (\<lambda>ret st. if ret = 0 then wrote (w @ [(off, v)]) {} st else wrote w {} st \<or> wrote (w @ [(off, v)]) {} st)"
proof -
  have wr: "triple (wrote w c) (do {
        mem_update (\<lambda>s. s\<lparr>mem_writes := mem_writes s + 1\<rparr>);
        call_write io off v
      }) (\<lambda>_. wrote (w @ [(off, v)]) {})"
    by (auto simp: triple_def mem_runs wrote_def)
  have check: "triple (wrote w c) (call_check io) (\<lambda>_. wrote w c)"
    by (auto simp: triple_def mem_runs wrote_def)
  have "triple (wrote w c) (do {
        mem_update (\<lambda>s. s\<lparr>mem_writes := mem_writes s + 1\<rparr>);
        ret \<leftarrow> call_write io off v;
        if ret \<noteq> 0 then State_Monad.return (eio_if_positive ret) else x1_mem_expect io off v
      }) (\<lambda>_. wrote (w @ [(off, v)]) {})"
    unfolding State_Monad.bind_assoc [symmetric]
    by (rule triple_bind [OF wr], rule triple_if)
      (auto intro: triple_return triple_weaken [OF expect_triple])
  then have rest: "triple (wrote w c) (do {
        mem_update (\<lambda>s. s\<lparr>mem_writes := mem_writes s + 1\<rparr>);
        ret \<leftarrow> call_write io off v;
        if ret \<noteq> 0 then State_Monad.return (eio_if_positive ret) else x1_mem_expect io off v
      }) (\<lambda>ret st. if ret = 0 then wrote (w @ [(off, v)]) {} st else wrote w {} st \<or> wrote (w @ [(off, v)]) {} st)"
    by (rule triple_weaken) simp_all
  show ?thesis
    unfolding x1_mem_set_def
    by (rule triple_if, rule triple_return, simp add: wrote_mono)
      (rule triple_bind [OF check], rule triple_if, rule triple_return,
        simp add: eio_if_positive_def wrote_mono, rule rest)
qed

lemma program_triple: "triple (wrote w c) (run_ok (map (\<lambda>(off, v). x1_mem_set io off v) ws))
    (\<lambda>ret st. if ret = 0 then wrote (w @ ws) {} st else \<exists>k \<le> length ws. wrote (w @ take k ws) {} st)"
proof (induction ws arbitrary: w c)
  case Nil
  show ?case by (auto intro!: triple_return intro: wrote_mono)
next
  case (Cons x ws)
  obtain off v where x: "x = (off, v)" by (cases x)
  have fails: "\<exists>k \<le> length (x # ws). wrote (w @ take k (x # ws)) {} st"
    if "wrote w {} st \<or> wrote (w @ [x]) {} st" for st
    using that by (metis append.right_neutral le0 length_Cons less_eq_Suc_le take0 take_Suc_Cons zero_less_Suc One_nat_def)
  have later: "\<exists>k \<le> length (x # ws). wrote (w @ take k (x # ws)) {} st"
    if "k \<le> length ws" and "wrote ((w @ [x]) @ take k ws) {} st" for st k
    using that by (intro exI [of _ "Suc k"]) simp
  have ih: "triple (wrote (w @ [x]) {}) (run_ok (map (\<lambda>(off, v). x1_mem_set io off v) ws))
      (\<lambda>ret st. if ret = 0 then wrote (w @ x # ws) {} st else \<exists>k \<le> length (x # ws). wrote (w @ take k (x # ws)) {} st)"
    by (rule triple_weaken [OF Cons]) (auto split: if_splits intro: later simp del: take_Cons)
  show ?case
    unfolding list.map run_ok.simps x prod.case
    by (rule triple_bind [OF set_triple], rule triple_if)
      (rule triple_return, use fails x in \<open>simp\<close>, rule triple_weaken [OF ih],
        simp add: x, simp only: x list.size split: if_splits)
qed

lemma readback_triple: "triple (wrote w c) (run_ok (map (\<lambda>(off, v). x1_mem_expect io off v) ws))
    (\<lambda>ret st. if ret = 0 then wrote w (c \<union> set ws) st else wrote w {} st)"
proof (induction ws arbitrary: c)
  case Nil
  show ?case by (auto intro!: triple_return)
next
  case (Cons x ws)
  obtain off v where x: "x = (off, v)" by (cases x)
  show ?case
    unfolding list.map run_ok.simps x prod.case
    by (rule triple_bind [OF expect_triple], rule triple_if)
      (rule triple_return, auto intro: wrote_mono triple_weaken [OF Cons [of "insert (off, v) c"]])
qed

lemma triple_ok_cons:
  assumes "triple P m (\<lambda>ret st. if ret = 0 then R st else E st)"
    and "triple R (run_ok ms) (\<lambda>ret st. if ret = 0 then T st else E st)"
  shows "triple P (run_ok (m # ms)) (\<lambda>ret st. if ret = 0 then T st else E st)"
  unfolding run_ok.simps
  by (rule triple_bind [OF assms(1)], rule triple_if)
    (rule triple_return, simp, rule triple_weaken [OF assms(2)], simp_all)

lemma triple_ok_nil: "triple P (run_ok []) (\<lambda>ret st. if ret = 0 then P st else E st)"
  by (auto intro: triple_return)

text \<open>An attempt that ended before the enable.\<close>

definition stopped_early :: "x1_mem_state \<times> mem_event list \<Rightarrow> bool" where
  "stopped_early st \<longleftrightarrow> (\<exists>k \<le> length mem_words. wrote (take k mem_words) {} st)"

lemma early_all: "wrote mem_words c st \<Longrightarrow> stopped_early st"
  unfolding stopped_early_def by (metis order_refl take_all wrote_mono empty_subsetI)

lemma early_none: "wrote [] c st \<Longrightarrow> stopped_early st"
  unfolding stopped_early_def by (metis le0 take0 wrote_mono empty_subsetI)

lemma prologue_triple: "triple (wrote [] {}) (mem_prologue io)
    (\<lambda>ret st. if ret = 0 then wrote mem_words (set mem_words) st else stopped_early st)"
proof -
  have none: "triple (wrote [] {}) (x1_mem_expect io off v)
      (\<lambda>ret st. if ret = 0 then wrote [] {} st else stopped_early st)" for off v
    by (rule triple_weaken [OF expect_triple]) (auto intro: early_none)
  have all: "triple (wrote mem_words (set mem_words)) (x1_mem_expect io off v)
      (\<lambda>ret st. if ret = 0 then wrote mem_words (set mem_words) st else stopped_early st)" for off v
    by (rule triple_weaken [OF expect_triple]) (auto intro: early_all)
  have name: "triple (wrote w c) (mem_named n) (\<lambda>ret st. if ret = 0 then wrote w c st else stopped_early st)" for w c n
    by (rule triple_weaken [OF named_triple]) simp_all
  have program: "triple (wrote [] {}) (run_ok (map (\<lambda>(off, v). x1_mem_set io off v) mem_words))
      (\<lambda>ret st. if ret = 0 then wrote mem_words {} st else stopped_early st)"
    using program_triple [of "[]" "{}" io mem_words] by (simp only: stopped_early_def append_Nil)
  have readback: "triple (wrote mem_words {}) (mem_expect_words io)
      (\<lambda>ret st. if ret = 0 then wrote mem_words (set mem_words) st else stopped_early st)"
    unfolding mem_expect_words_def
    by (rule triple_weaken [OF readback_triple]) (auto intro: early_all split: if_splits)
  show ?thesis
    unfolding mem_prologue_def
    by (rule triple_ok_cons [OF name], rule triple_ok_cons [OF none],
        rule triple_ok_cons [OF name], rule triple_ok_cons [OF program], rule triple_ok_cons [OF readback],
        rule triple_ok_cons [OF all], rule triple_ok_cons [OF name], rule triple_ok_nil)
qed

text \<open>The enable is issued, once, after every word was read back; \<open>b\<close> says whether the attempt is complete.\<close>

definition enabled :: "bool \<Rightarrow> x1_mem_state \<times> mem_event list \<Rightarrow> bool" where
  "enabled b = (\<lambda>(s, h). mem_attempted s \<and> mem_enable_issued s \<and> mem_complete s = b \<and>
     mem_writes s = Suc (length mem_words) \<and>
     (\<exists>new r h1. h = new @ Mem_write 0x1204 0x80000000 r # h1 \<and> written_words new = [] \<and>
       written_words h1 = mem_words \<and> (\<forall>(off, v) \<in> set mem_words. Mem_read off 0 v \<in> since h1)))"

lemma written_append: "written_words (new @ h) = written_words h @ written_words new"
  by (induction new rule: written_words.induct) simp_all

lemma enabled_more: "enabled b (s, h) \<Longrightarrow> written_words [e] = [] \<Longrightarrow> enabled b (s, e # h)"
proof -
  assume en: "enabled b (s, h)" and e: "written_words [e] = []"
  from en obtain new r h1 where h: "h = new @ Mem_write 0x1204 0x80000000 r # h1" "written_words new = []"
      "written_words h1 = mem_words" "\<forall>(off, v) \<in> set mem_words. Mem_read off 0 v \<in> since h1"
    unfolding enabled_def by blast
  have "written_words (e # new) = []" using written_append [of "[e]" new] h(2) e by simp
  moreover have "e # h = (e # new) @ Mem_write 0x1204 0x80000000 r # h1" using h(1) by simp
  ultimately show ?thesis using en h(3,4) unfolding enabled_def by blast
qed

lemma enable_triple: "triple (wrote mem_words (set mem_words)) (mem_enable io)
    (\<lambda>ret st. if ret = 0 then enabled False st else stopped_early st \<or> enabled False st)"
proof (rule tripleI)
  fix st ret st'
  assume pre: "wrote mem_words (set mem_words) st" and run: "run_state (mem_enable io) st = (ret, st')"
  obtain s h where st: "st = (s, h)" by (cases st)
  let ?h = "Mem_check (the (mem_check io) h) # h"
  have ready: "wrote mem_words (set mem_words) (s, ?h)" using pre st by (auto simp: wrote_def)
  show "if ret = 0 then enabled False st' else stopped_early st' \<or> enabled False st'"
  proof (cases "the (mem_check io) h = 0")
    case False
    then have "ret \<noteq> 0" and "st' = (s, ?h)"
      using run st by (auto simp: mem_enable_def mem_runs eio_if_positive_def split: if_splits)
    then show ?thesis using ready early_all by auto
  next
    case True
    let ?r = "the (mem_write io) ?h 0x1204 0x80000000"
    have "st' = (s\<lparr>mem_enable_issued := True, mem_writes := mem_writes s + 1\<rparr>, Mem_write 0x1204 0x80000000 ?r # ?h)"
      using run st True by (auto simp: mem_enable_def mem_runs)
    moreover have "enabled False (s\<lparr>mem_enable_issued := True, mem_writes := mem_writes s + 1\<rparr>, Mem_write 0x1204 0x80000000 ?r # ?h)"
      using ready unfolding enabled_def wrote_def by (auto intro!: exI [of _ "[]"])
    ultimately show ?thesis by simp
  qed
qed

lemma enabled_call: "(\<And>a. written_words [ev a] = []) \<Longrightarrow> triple (enabled b) (mem_call ans ev) (\<lambda>_. enabled b)"
  by (auto simp: triple_def mem_call_def intro!: enabled_more)

lemma enabled_read: "triple (enabled b) (x1_mem_read io off) (\<lambda>_. enabled b)"
proof -
  have check: "triple (enabled b) (call_check io) (\<lambda>_. enabled b)"
    unfolding call_check_def by (rule enabled_call) simp
  have read: "triple (enabled b) (call_read io off) (\<lambda>_. enabled b)"
    unfolding call_read_def by (rule enabled_call) (simp split: prod.split)
  show ?thesis
    unfolding x1_mem_read_def
    by (rule triple_if, rule triple_return, simp, rule triple_bind [OF check],
        rule triple_bind [OF triple_if [OF read]])
      (auto intro: triple_return split: prod.splits)
qed

lemma enabled_expect: "triple (enabled b) (x1_mem_expect io off v) (\<lambda>_. enabled b)"
  unfolding x1_mem_expect_def
  by (rule triple_bind [OF enabled_read]) (auto intro: triple_return split: prod.splits)

lemma enabled_wait: "triple (enabled b) (mem_wait io n) (\<lambda>_. enabled b)"
proof (induction n)
  case 0
  show ?case
    unfolding mem_wait.simps
    by (rule triple_bind [OF enabled_read]) (auto intro: triple_return split: prod.splits)
next
  case (Suc n)
  have delay: "triple (enabled b) (call_delay io 10) (\<lambda>_. enabled b)"
    unfolding call_delay_def by (rule enabled_call) simp
  have later: "triple (enabled b) (do {
      ret \<leftarrow> call_delay io 10;
      if ret \<noteq> 0 then State_Monad.return (eio_if_positive ret) else mem_wait io n
    }) (\<lambda>_. enabled b)"
    by (rule triple_bind [OF delay], rule triple_if, rule triple_return, simp, rule Suc)
  show ?case
    unfolding mem_wait.simps
    by (rule triple_bind [OF enabled_read], simp only: split_beta)
      (intro triple_if triple_return later, simp_all)
qed

lemma epilogue_triple: "triple (enabled False) (mem_epilogue io)
    (\<lambda>ret st. if ret = 0 then enabled True st else stopped_early st \<or> enabled False st)"
proof -
  have any: "triple (enabled False) m (\<lambda>ret st. if ret = 0 then enabled False st else stopped_early st \<or> enabled False st)"
    if "triple (enabled False) m (\<lambda>_. enabled False)" for m
    by (rule triple_weaken [OF that]) simp_all
  have name: "triple (enabled False) (mem_named n) (\<lambda>_. enabled False)" for n
    by (auto simp: triple_def mem_runs enabled_def)
  have words: "triple (enabled False) (mem_expect_words io)
      (\<lambda>ret st. if ret = 0 then enabled False st else stopped_early st \<or> enabled False st)"
    unfolding mem_expect_words_def
  proof (rule triple_run_ok)
    fix m
    assume "m \<in> set (map (\<lambda>(off, v). x1_mem_expect io off v) mem_words)"
    then obtain off v where "m = x1_mem_expect io off v" by auto
    then show "triple (enabled False) m
        (\<lambda>ret st. if ret = 0 then enabled False st else stopped_early st \<or> enabled False st)"
      by (simp only: any [OF enabled_expect])
  qed
  have finish: "triple (enabled False) (mem_update (\<lambda>s. s\<lparr>mem_complete := True, mem_step := n\<rparr>))
      (\<lambda>ret st. if ret = 0 then enabled True st else stopped_early st \<or> enabled False st)" for n
    by (auto simp: triple_def mem_runs enabled_def)
  show ?thesis
    unfolding mem_epilogue_def
    by (rule triple_ok_cons [OF any [OF enabled_wait]], rule triple_ok_cons [OF any [OF name]],
        rule triple_ok_cons [OF words], rule triple_ok_cons [OF any [OF enabled_expect]],
        rule triple_ok_cons [OF finish], rule triple_ok_nil)
qed

lemma body_triple: "triple (wrote [] {}) (mem_body io)
    (\<lambda>ret st. if ret = 0 then enabled True st else stopped_early st \<or> enabled False st)"
proof -
  have pro: "triple (wrote [] {}) (mem_prologue io)
      (\<lambda>ret st. if ret = 0 then wrote mem_words (set mem_words) st else stopped_early st \<or> enabled False st)"
    by (rule triple_weaken [OF prologue_triple]) (simp_all split: if_splits)
  show ?thesis
    unfolding mem_body_def
    by (rule triple_ok_cons [OF pro], rule triple_ok_cons [OF enable_triple],
        rule triple_ok_cons [OF epilogue_triple], rule triple_ok_nil)
qed

text \<open>
  C19. Whatever the callbacks answer, a first attempt writes a prefix of the seven window words and then,
  at most once and last, the enable; the writes it counts are the writes it made.  The enable is issued
  only after every word was read back with its value since the last write before it.  The attempt reports
  complete exactly when it returns 0, and then the enable was issued.
\<close>

theorem mem_window_exact:
  assumes "mem_check io \<noteq> None" and "mem_read io \<noteq> None" and "mem_write io \<noteq> None" and "mem_delay io \<noteq> None"
    and "\<not> mem_attempted s" and "\<not> mem_enable_issued s" and "\<not> mem_complete s" and "mem_writes s = 0"
    and run: "x1_mem_prepare (Some io) (Some s) [] = (ret, Some s', h)"
  shows "mem_error s' = ret \<and> mem_attempted s' \<and>
    written_words h = take (mem_writes s') (mem_words @ [(0x1204, 0x80000000)]) \<and> mem_writes s' \<le> 8 \<and>
    (mem_enable_issued s' \<longleftrightarrow> mem_writes s' = 8) \<and> (mem_complete s' \<longleftrightarrow> ret = 0) \<and>
    (ret = 0 \<longrightarrow> mem_enable_issued s') \<and>
    (mem_enable_issued s' \<longrightarrow> (\<exists>new r before. h = new @ Mem_write 0x1204 0x80000000 r # before \<and>
      written_words before = mem_words \<and> (\<forall>(off, v) \<in> set mem_words. Mem_read off 0 v \<in> since before)))"
proof -
  obtain t where body: "run_state (mem_body io) (s\<lparr>mem_attempted := True\<rparr>, []) = (ret, (t, h))"
      and s': "s' = t\<lparr>mem_error := ret\<rparr>"
    using run assms(1-5) by (auto simp: x1_mem_prepare_def split: prod.splits)
  have "wrote [] {} (s\<lparr>mem_attempted := True\<rparr>, [])" using assms(6-8) by (simp add: wrote_def)
  from tripleD [OF body_triple this body]
  have post: "if ret = 0 then enabled True (t, h) else stopped_early (t, h) \<or> enabled False (t, h)" .
  have len: "length mem_words = 7" by (simp add: mem_words_def)
  have early: "written_words h = take (mem_writes t) mem_words \<and> mem_writes t \<le> 7 \<and> \<not> mem_enable_issued t \<and>
      \<not> mem_complete t \<and> mem_attempted t" if "stopped_early (t, h)"
    using that len by (auto simp: stopped_early_def wrote_def min_def)
  have late: "written_words h = mem_words @ [(0x1204, 0x80000000)] \<and> mem_writes t = 8 \<and> mem_enable_issued t \<and>
      mem_complete t = b \<and> mem_attempted t \<and> (\<exists>new r before. h = new @ Mem_write 0x1204 0x80000000 r # before \<and>
      written_words before = mem_words \<and> (\<forall>(off, v) \<in> set mem_words. Mem_read off 0 v \<in> since before))"
    if "enabled b (t, h)" for b
    using that len by (auto simp: enabled_def written_append)
  show ?thesis
  proof (cases "enabled (ret = 0) (t, h)")
    case True
    from late [OF True] show ?thesis by (simp add: s' len)
  next
    case False
    with post have "ret \<noteq> 0" and "stopped_early (t, h)" by (auto split: if_splits)
    with early show ?thesis by (auto simp: s' len)
  qed
qed

text \<open>Registers that hold what is written, with the window inactive at first.\<close>

definition honest_io :: x1_mem_io where
  "honest_io = \<lparr>mem_check = Some (\<lambda>_. 0),
     mem_read = Some (\<lambda>h off. (0, case map_of (rev (written_words h)) off of Some v \<Rightarrow> v | None \<Rightarrow> 0)),
     mem_write = Some (\<lambda>_ _ _. 0), mem_delay = Some (\<lambda>_ _. 0)\<rparr>"

definition fresh_mem :: x1_mem_state where
  "fresh_mem = \<lparr>mem_attempted = False, mem_enable_issued = False, mem_complete = False, mem_writes = 0,
     mem_error = 0, mem_step = []\<rparr>"

theorem mem_window_exact_witness:
  "\<exists>s' h. x1_mem_prepare (Some honest_io) (Some fresh_mem) [] = (0, Some s', h) \<and> mem_complete s' \<and>
     written_words h = mem_words @ [(0x1204, 0x80000000)]"
proof -
  obtain ret t h where run: "x1_mem_prepare (Some honest_io) (Some fresh_mem) [] = (ret, t, h)" by (metis surj_pair)
  have "fst (x1_mem_prepare (Some honest_io) (Some fresh_mem) []) = 0 \<and>
      map_option mem_writes (fst (snd (x1_mem_prepare (Some honest_io) (Some fresh_mem) []))) = Some 8"
    by code_simp
  with run obtain s' where "ret = 0" and "t = Some s'" and "mem_writes s' = 8" by auto
  with run mem_window_exact [of honest_io fresh_mem ret s' h] show ?thesis
    by (simp add: honest_io_def fresh_mem_def mem_words_def)
qed

end
