(* ===== verification/X1_Pdlog.thy ===== *)
theory X1_Pdlog
  imports X1_Board X1_Time
begin

unbundle bit_operations_syntax

text \<open>
  The bounded power-delivery log capture: the policy of
  \<open>snapshot/kernel/drivers/soc/qcom/yoga_pdlog_policy.h\<close> and the driver \<open>yoga_pdlog.c\<close>.

  The policy functions are functions on the state they are given.  The driver is a transition
  system, because its work item, the receive callback, the \<open>capture\<close> attribute and the removal run
  concurrently: every section under the spin lock is one step, the work item remembers between two
  sections where it stands, and the order of the steps is free.
\<close>

section \<open>The policy\<close>

definition PDLOG_SIZE :: nat where "PDLOG_SIZE = 8192"
definition PDLOG_MAX_REQUESTS :: nat where "PDLOG_MAX_REQUESTS = 128"

record pdlog_state =
  pd_attempted :: bool
  pd_active :: bool
  pd_awaiting :: bool
  pd_limited :: bool
  pd_requests :: nat
  pd_replies :: nat
  pd_error :: int

definition pdlog_zero :: pdlog_state where
  "pdlog_zero = \<lparr>pd_attempted = False, pd_active = False, pd_awaiting = False, pd_limited = False,
     pd_requests = 0, pd_replies = 0, pd_error = 0\<rparr>"

definition pdlog_start :: "pdlog_state \<Rightarrow> bool \<Rightarrow> int \<times> pdlog_state" where
  "pdlog_start s allowed =
     (if \<not> allowed \<or> pd_attempted s then (- EPERM, s)
      else (0, s\<lparr>pd_attempted := True, pd_active := True\<rparr>))"

definition pdlog_stop :: "pdlog_state \<Rightarrow> int \<Rightarrow> pdlog_state" where
  "pdlog_stop s error =
     (let s = s\<lparr>pd_active := False, pd_awaiting := False\<rparr>
      in if error \<noteq> 0 \<and> pd_error s = 0 then s\<lparr>pd_error := error\<rparr> else s)"

definition pdlog_next :: "pdlog_state \<Rightarrow> bool \<Rightarrow> bool \<times> pdlog_state" where
  "pdlog_next s expired =
     (if \<not> pd_active s \<or> pd_awaiting s \<or> pd_error s \<noteq> 0 then (False, s)
      else if expired \<or> PDLOG_MAX_REQUESTS \<le> pd_requests s
        then (False, pdlog_stop (s\<lparr>pd_limited := True\<rparr>) 0)
      else (True, s\<lparr>pd_requests := pd_requests s + 1, pd_awaiting := True\<rparr>))"

definition pdlog_request :: "u8 list \<Rightarrow> u8 list option" where
  "pdlog_request request = do {
     request \<leftarrow> put_bytes request 0 (replicate 16 0);
     request \<leftarrow> put_unaligned_le32 32778 request 0;
     request \<leftarrow> put_unaligned_le32 1 request 4;
     request \<leftarrow> put_unaligned_le32 0x18 request 8;
     put_unaligned_le32 (of_nat PDLOG_SIZE) request 12
   }"

text \<open>The character a byte of the log is shown as, and the copy loop from index \<open>i\<close>.\<close>

definition pdlog_char :: "u8 \<Rightarrow> u8" where
  "pdlog_char c = (if 32 \<le> c \<and> c \<le> 126 \<or> c = 10 \<or> c = 9 then c else 46)"

function pdlog_copy :: "u8 list \<Rightarrow> nat \<Rightarrow> u8 list \<Rightarrow> u8 list option" where
  "pdlog_copy p i text_buf =
     (if PDLOG_SIZE \<le> i then put_bytes text_buf i [0]
      else do {
        c \<leftarrow> get_u8 p (12 + i);
        if c = 0 then put_bytes text_buf i [0]
        else do {
          text_buf \<leftarrow> put_bytes text_buf i [pdlog_char c];
          pdlog_copy p (i + 1) text_buf
        }
      })"
  by pat_completeness auto
termination by (relation "measure (\<lambda>(p, i, t). PDLOG_SIZE - i)") auto

declare pdlog_copy.simps [simp del]

definition pdlog_decode :: "u8 list \<Rightarrow> nat \<Rightarrow> u8 list \<Rightarrow> (int \<times> u8 list) option" where
  "pdlog_decode p len text_buf =
     (if len \<noteq> PDLOG_SIZE + 12 then Some (- EMSGSIZE, text_buf)
      else do {
        owner \<leftarrow> get_unaligned_le32 p 0;
        kind \<leftarrow> get_unaligned_le32 p 4;
        opcode \<leftarrow> get_unaligned_le32 p 8;
        if owner \<noteq> 32778 \<or> kind \<noteq> 1 \<or> opcode \<noteq> 0x18 then Some (- EBADMSG, text_buf)
        else do {
          text_buf \<leftarrow> pdlog_copy p 0 text_buf;
          Some (0, text_buf)
        }
      })"

definition pdlog_reply :: "pdlog_state \<Rightarrow> int \<Rightarrow> bool \<times> pdlog_state" where
  "pdlog_reply s error =
     (if \<not> pd_active s \<or> \<not> pd_awaiting s \<or> pd_error s \<noteq> 0 then (False, s)
      else let s = s\<lparr>pd_awaiting := False\<rparr>
        in (True, if error \<noteq> 0 then pdlog_stop s error else s\<lparr>pd_replies := pd_replies s + 1\<rparr>))"

section \<open>The driver\<close>

text \<open>
  Where the work item stands: not running; about to send request \<open>seq\<close>; waiting for the completion;
  with the result of the exchange, before the second locked section; printed, before the last one.
\<close>

datatype pdlog_pc =
    Work_idle
  | Work_send nat
  | Work_wait nat
  | Work_result nat int
  | Work_again

text \<open>
  The driver's object, with the state of its completion (\<open>p_done\<close>) and of its delayed work
  (\<open>p_queued\<close>, \<open>p_pc\<close>); \<open>p_closing\<close> says that a caller of \<open>pdlog_cancel\<close> waits in
  \<open>cancel_delayed_work_sync\<close>, \<open>p_bound\<close> that the attributes exist.  \<open>p_boot\<close> is \<open>attempted_this_boot\<close>, \<open>p_jiffies\<close> the kernel's clock,
  \<open>p_sent\<close> what went to the endpoint and \<open>p_printed\<close> what went to the kernel log; these four outlive
  the object.
\<close>

record pdlog =
  p_state :: pdlog_state
  p_deadline :: u64
  p_nonempty :: nat
  p_text :: "u8 list"
  p_done :: nat
  p_queued :: bool
  p_pc :: pdlog_pc
  p_closing :: bool
  p_bound :: bool
  p_boot :: bool
  p_jiffies :: u64
  p_sent :: "u8 list list"
  p_printed :: "(nat \<times> u8 list) list"

text \<open>
  \<open>len\<close> is the message's length as the endpoint reports it, \<open>data\<close> the bytes.  The result is
  \<^const>\<open>None\<close> when the decoder would leave one of the buffers.
\<close>

definition pdlog_callback :: "u8 list \<Rightarrow> int \<Rightarrow> pdlog \<Rightarrow> pdlog option" where
  "pdlog_callback data len p =
     (if pd_active (p_state p) \<and> pd_awaiting (p_state p) \<and> pd_error (p_state p) = 0
      then do {
        (ret, txt) \<leftarrow> (if len < 0 then Some (- EMSGSIZE, p_text p)
          else pdlog_decode data (nat len) (p_text p));
        let (taken, s) = pdlog_reply (p_state p) ret;
        Some (p\<lparr>p_text := txt, p_state := s, p_done := if taken then p_done p + 1 else p_done p\<rparr>)
      }
      else Some p)"

text \<open>The first locked section of \<open>pdlog_work\<close>.\<close>

definition pdlog_work_begin :: "pdlog \<Rightarrow> pdlog" where
  "pdlog_work_begin p =
     (let (go, s) = pdlog_next (p_state p) (time_after_eq (p_jiffies p) (p_deadline p));
          p = p\<lparr>p_queued := False, p_state := s\<rparr>
      in if go then p\<lparr>p_done := 0, p_pc := Work_send (pd_requests s)\<rparr> else p)"

text \<open>\<open>rpmsg_trysend\<close>, whose answer is \<open>ret\<close>, and the time left for the reply at \<open>now\<close>.\<close>

definition pdlog_left :: "u64 \<Rightarrow> u64 \<Rightarrow> u64 \<Rightarrow> u64" where
  "pdlog_left hz now deadline =
     (if time_before now deadline then min (5 * hz) (deadline - now) else 0)"

definition pdlog_work_send :: "u64 \<Rightarrow> nat \<Rightarrow> int \<Rightarrow> u64 \<Rightarrow> pdlog \<Rightarrow> pdlog option" where
  "pdlog_work_send hz seq ret now p = do {
     request \<leftarrow> pdlog_request (replicate 16 0);
     Some (p\<lparr>p_sent := request # p_sent p, p_jiffies := now,
       p_pc := if ret \<noteq> 0 then Work_result seq ret
         else if pdlog_left hz now (p_deadline p) = 0 then Work_result seq (- ETIMEDOUT)
         else Work_wait seq\<rparr>)
   }"

text \<open>\<open>wait_for_completion_timeout\<close>: it consumes a completion, or times out when there is none.\<close>

definition pdlog_work_wake :: "nat \<Rightarrow> pdlog \<Rightarrow> pdlog" where
  "pdlog_work_wake seq p =
     (if 0 < p_done p then p\<lparr>p_done := p_done p - 1, p_pc := Work_result seq 0\<rparr>
      else p\<lparr>p_pc := Work_result seq (- ETIMEDOUT)\<rparr>)"

text \<open>
  The C string in the buffer, and how it is printed: \<open>strsep\<close> at line feeds, then pieces of at most
  160 bytes of each line.
\<close>

definition c_string :: "u8 list \<Rightarrow> u8 list" where
  "c_string buf = takeWhile (\<lambda>c. c \<noteq> 0) buf"

function pdlog_lines :: "u8 list \<Rightarrow> u8 list list" where
  "pdlog_lines cs =
     (case dropWhile (\<lambda>c. c \<noteq> 10) cs of
        [] \<Rightarrow> [cs]
      | _ # rest \<Rightarrow> takeWhile (\<lambda>c. c \<noteq> 10) cs # pdlog_lines rest)"
  by pat_completeness auto
termination
proof (relation "measure length")
  fix cs :: "u8 list" and c rest
  assume "dropWhile (\<lambda>c. c \<noteq> 10) cs = c # rest"
  then have "length (c # rest) \<le> length cs" by (metis length_dropWhile_le)
  then show "(rest, cs) \<in> measure length" by simp
qed simp

declare pdlog_lines.simps [simp del]

function pdlog_pieces :: "u8 list \<Rightarrow> u8 list list" where
  "pdlog_pieces line = (if line = [] then [] else take 160 line # pdlog_pieces (drop 160 line))"
  by pat_completeness auto
termination by (relation "measure length") auto

declare pdlog_pieces.simps [simp del]

definition pdlog_print :: "u8 list \<Rightarrow> u8 list list" where
  "pdlog_print buf = concat (map pdlog_pieces (pdlog_lines (c_string buf)))"

text \<open>The second locked section, with the printing that follows it, and the last one.\<close>

definition pdlog_work_result :: "nat \<Rightarrow> int \<Rightarrow> pdlog \<Rightarrow> pdlog" where
  "pdlog_work_result seq ret p =
     (let s = if ret \<noteq> 0 then pdlog_stop (p_state p) ret else p_state p;
          valid = (pd_error s = 0 \<and> pd_replies s = seq)
      in p\<lparr>p_state := s, p_pc := Work_again,
           p_nonempty := if valid \<and> hd (p_text p) \<noteq> 0 then p_nonempty p + 1 else p_nonempty p,
           p_printed := if valid then map (Pair seq) (rev (pdlog_print (p_text p))) @ p_printed p
             else p_printed p\<rparr>)"

definition pdlog_work_again :: "pdlog \<Rightarrow> pdlog" where
  "pdlog_work_again p =
     p\<lparr>p_pc := Work_idle,
       p_queued := p_queued p \<or> (pd_active (p_state p) \<and> pd_error (p_state p) = 0)\<rparr>"

text \<open>\<open>pdlog_cancel\<close> up to, and after, the wait for the work item.\<close>

definition pdlog_cancel :: "int \<Rightarrow> pdlog \<Rightarrow> pdlog" where
  "pdlog_cancel error p =
     p\<lparr>p_state := pdlog_stop (p_state p) error, p_done := p_done p + 1, p_closing := True\<rparr>"

definition pdlog_cancelled :: "pdlog \<Rightarrow> pdlog" where
  "pdlog_cancelled p = p\<lparr>p_queued := False, p_closing := False\<rparr>"

text \<open>\<open>capture_store\<close> on \<open>0\<close> and \<open>1\<close> (\<open>Some False\<close>, \<open>Some True\<close>) and on anything else.\<close>

definition capture_store :: "u64 \<Rightarrow> bool \<Rightarrow> bool option \<Rightarrow> pdlog \<Rightarrow> int \<times> pdlog" where
  "capture_store hz nhi_complete request p =
     (case request of
        None \<Rightarrow> (- EINVAL, p)
      | Some False \<Rightarrow> (0, pdlog_cancel 0 p)
      | Some True \<Rightarrow>
          let allowed = (nhi_complete \<and> \<not> p_boot p);
              p = p\<lparr>p_boot := p_boot p \<or> nhi_complete\<rparr>;
              (ret, s) = pdlog_start (p_state p) allowed;
              p = p\<lparr>p_state := s\<rparr>
          in if ret = 0 then (0, p\<lparr>p_deadline := p_jiffies p + 300 * hz, p_queued := True\<rparr>)
             else (ret, p))"

text \<open>\<open>pdlog_probe\<close>: the checks, then a zeroed object.\<close>

definition pdlog_probe :: "board \<Rightarrow> bool \<Rightarrow> int \<Rightarrow> pdlog \<Rightarrow> int \<times> pdlog" where
  "pdlog_probe b alloc group_ret p =
     (if \<not> x1_diag_board_allowed b \<or> \<not> root_property b ''birk,usb4-retimer-test'' then (- EPERM, p)
      else if \<not> alloc then (- ENOMEM, p)
      else (group_ret, p\<lparr>p_state := pdlog_zero, p_deadline := 0, p_nonempty := 0,
        p_text := replicate (PDLOG_SIZE + 1) 0, p_done := 0, p_queued := False, p_pc := Work_idle,
        p_closing := False, p_bound := (group_ret = 0)\<rparr>))"

definition pdlog_remove :: "pdlog \<Rightarrow> pdlog" where
  "pdlog_remove p = pdlog_cancel (- ENOTCONN) (p\<lparr>p_bound := False\<rparr>)"

text \<open>Before the first probe of a boot.\<close>

definition pdlog_boot :: "u64 \<Rightarrow> pdlog" where
  "pdlog_boot now = \<lparr>p_state = pdlog_zero, p_deadline = 0, p_nonempty = 0,
     p_text = replicate (PDLOG_SIZE + 1) 0, p_done = 0, p_queued = False, p_pc = Work_idle,
     p_closing = False, p_bound = False, p_boot = False, p_jiffies = now, p_sent = [], p_printed = []\<rparr>"

text \<open>
  One step of the driver, with the answers of the endpoint and the clock chosen freely.  The
  attributes are used only while they exist and one at a time (\<open>control\<close>); removal waits for the
  store in progress, and the next probe for the removal.
\<close>

inductive pdlog_step :: "u64 \<Rightarrow> pdlog \<Rightarrow> pdlog \<Rightarrow> bool" for hz where
  tick: "pdlog_step hz p (p\<lparr>p_jiffies := now\<rparr>)"
| receive: "0 \<le> len \<longrightarrow> length data = nat len \<Longrightarrow> pdlog_callback data len p = Some p' \<Longrightarrow> pdlog_step hz p p'"
| work_begin: "p_pc p = Work_idle \<Longrightarrow> p_queued p \<Longrightarrow> pdlog_step hz p (pdlog_work_begin p)"
| work_send: "p_pc p = Work_send seq \<Longrightarrow> pdlog_work_send hz seq ret now p = Some p' \<Longrightarrow> pdlog_step hz p p'"
| work_wake: "p_pc p = Work_wait seq \<Longrightarrow> pdlog_step hz p (pdlog_work_wake seq p)"
| work_result: "p_pc p = Work_result seq ret \<Longrightarrow> pdlog_step hz p (pdlog_work_result seq ret p)"
| work_again: "p_pc p = Work_again \<Longrightarrow> pdlog_step hz p (pdlog_work_again p)"
| store: "p_bound p \<Longrightarrow> \<not> p_closing p \<Longrightarrow> pdlog_step hz p (snd (capture_store hz nhi_complete request p))"
| cancelled: "p_closing p \<Longrightarrow> p_pc p = Work_idle \<Longrightarrow> pdlog_step hz p (pdlog_cancelled p)"
| remove: "p_bound p \<Longrightarrow> \<not> p_closing p \<Longrightarrow> pdlog_step hz p (pdlog_remove p)"
| probe: "\<not> p_bound p \<Longrightarrow> \<not> p_closing p \<Longrightarrow> pdlog_step hz p (snd (pdlog_probe b alloc group_ret p))"

inductive pdlog_reach :: "u64 \<Rightarrow> pdlog \<Rightarrow> pdlog \<Rightarrow> bool" for hz p where
  start: "pdlog_reach hz p p"
| more: "pdlog_reach hz p q \<Longrightarrow> pdlog_step hz q r \<Longrightarrow> pdlog_reach hz p r"

section \<open>Decoding and printing\<close>

text \<open>The one message the driver sends.\<close>

definition pdlog_get :: "u8 list" where
  "pdlog_get = le32_bytes 32778 @ le32_bytes 1 @ le32_bytes 0x18 @ le32_bytes (of_nat PDLOG_SIZE)"

lemma pdlog_request_get: "pdlog_request (replicate 16 0) = Some pdlog_get"
proof -
  have four: "replicate 16 (0 :: u8) = replicate 4 0 @ replicate 4 0 @ replicate 4 0 @ replicate 4 0"
    by (simp add: replicate_add [symmetric])
  show ?thesis
    by (simp add: pdlog_request_def put_defs put_bytes_def pdlog_get_def four)
qed

lemma put_byte: "i < length buf \<Longrightarrow> put_bytes buf i [b] = Some (buf[i := b])"
  by (simp add: put_bytes_def upd_conv_take_nth_drop)

definition log_from :: "u8 list \<Rightarrow> nat \<Rightarrow> u8 list" where
  "log_from p i = map pdlog_char (takeWhile (\<lambda>c. c \<noteq> 0) (take (PDLOG_SIZE - i) (drop (12 + i) p)))"

lemma pdlog_char_nonzero: "c \<noteq> 0 \<Longrightarrow> pdlog_char c \<noteq> 0"
  by (simp add: pdlog_char_def)

lemma log_from_step:
  assumes "length p = PDLOG_SIZE + 12" and "i < PDLOG_SIZE"
  shows "log_from p i = (if p ! (12 + i) = 0 then [] else pdlog_char (p ! (12 + i)) # log_from p (i + 1))"
proof -
  have "drop (12 + i) p = p ! (12 + i) # drop (12 + (i + 1)) p"
    using assms by (simp add: Cons_nth_drop_Suc [symmetric])
  moreover have "PDLOG_SIZE - i = Suc (PDLOG_SIZE - (i + 1))" using assms by simp
  ultimately show ?thesis by (simp add: log_from_def)
qed

lemma pdlog_copy_run:
  assumes "length p = PDLOG_SIZE + 12" and "length t = PDLOG_SIZE + 1" and "i \<le> PDLOG_SIZE"
  shows "\<exists>rest. pdlog_copy p i t = Some (take i t @ log_from p i @ 0 # rest)
    \<and> length (take i t @ log_from p i @ 0 # rest) = length t"
  using assms
proof (induction p i t rule: pdlog_copy.induct)
  case (1 p i t)
  show ?case
  proof (cases "PDLOG_SIZE \<le> i")
    case True
    then have "pdlog_copy p i t = put_bytes t i [0]" by (simp add: pdlog_copy.simps [of p i t])
    with True "1.prems" show ?thesis by (simp add: put_byte upd_conv_take_nth_drop log_from_def)
  next
    case False
    define c where "c = p ! (12 + i)"
    have got: "get_u8 p (12 + i) = Some c" using False "1.prems" by (simp add: get_u8_def c_def)
    note step = log_from_step [of p i]
    show ?thesis
    proof (cases "c = 0")
      case True
      with got step False "1.prems" show ?thesis
        by (simp add: pdlog_copy.simps [of p i t] put_byte upd_conv_take_nth_drop c_def)
    next
      case nz: False
      let ?t = "t[i := pdlog_char c]"
      have "pdlog_copy p i t = pdlog_copy p (i + 1) ?t"
        using got False nz "1.prems" by (simp add: pdlog_copy.simps [of p i t] put_byte)
      moreover from "1.IH" [OF _ got nz] False nz "1.prems" obtain rest where
          "pdlog_copy p (i + 1) ?t = Some (take (i + 1) ?t @ log_from p (i + 1) @ 0 # rest)"
          and "length (take (i + 1) ?t @ log_from p (i + 1) @ 0 # rest) = length ?t"
        by (auto simp: put_byte)
      moreover have "take (i + 1) ?t = take i t @ [pdlog_char c]"
        using False "1.prems" by (simp add: take_Suc_conv_app_nth)
      moreover have "log_from p i = pdlog_char c # log_from p (i + 1)"
        using step nz False "1.prems" by (simp add: c_def)
      ultimately show ?thesis by simp
    qed
  qed
qed

lemma c_string_copy:
  assumes "0 \<notin> set cs"
  shows "c_string (cs @ 0 # rest) = cs"
proof -
  have "takeWhile (\<lambda>c. c \<noteq> 0) (cs @ 0 # rest) = cs @ takeWhile (\<lambda>c. c \<noteq> 0) (0 # rest)"
    using assms by (intro takeWhile_append2) blast
  then show ?thesis by (simp add: c_string_def)
qed

lemma log_from_nonzero: "0 \<notin> set (log_from p i)"
proof
  assume "0 \<in> set (log_from p i)"
  then obtain c where "c \<in> set (takeWhile (\<lambda>c. c \<noteq> 0) (take (PDLOG_SIZE - i) (drop (12 + i) p)))"
      and "0 = pdlog_char c"
    unfolding log_from_def set_map by (rule imageE)
  then have "pdlog_char c \<noteq> 0" by (intro pdlog_char_nonzero) (rule set_takeWhileD [THEN conjunct2])
  with \<open>0 = pdlog_char c\<close> show False by argo
qed

definition pdlog_header :: "u8 list" where
  "pdlog_header = le32_bytes 32778 @ le32_bytes 1 @ le32_bytes 0x18"

lemma pdlog_header_iff:
  assumes "length p = PDLOG_SIZE + 12"
  shows "take 12 p = pdlog_header \<longleftrightarrow> get_unaligned_le32 p 0 = Some 32778 \<and>
    get_unaligned_le32 p 4 = Some 1 \<and> get_unaligned_le32 p 8 = Some 0x18"
proof -
  have cut: "take 12 p = take 4 (drop 0 p) @ take 4 (drop 4 p) @ take 4 (drop 8 p)"
    using take_add [of 4 8 p] take_add [of 4 4 "drop 4 p"] by simp
  show ?thesis
  proof
    assume "take 12 p = pdlog_header"
    then have "pdlog_header @ drop 12 p = p" using append_take_drop_id [of 12 p] by simp
    moreover define rest where "rest = drop 12 p"
    ultimately have "p = le32_bytes 32778 @ le32_bytes 1 @ le32_bytes 0x18 @ rest"
      by (simp add: pdlog_header_def)
    then show "get_unaligned_le32 p 0 = Some 32778 \<and> get_unaligned_le32 p 4 = Some 1 \<and>
        get_unaligned_le32 p 8 = Some 0x18"
      by (simp add: byte_simps)
  next
    assume "get_unaligned_le32 p 0 = Some 32778 \<and> get_unaligned_le32 p 4 = Some 1 \<and>
        get_unaligned_le32 p 8 = Some 0x18"
    then have "take 4 (drop 0 p) = le32_bytes 32778" and "take 4 (drop 4 p) = le32_bytes 1"
        and "take 4 (drop 8 p) = le32_bytes 0x18"
      by (simp_all only: get_le32_inverse)
    then show "take 12 p = pdlog_header" by (simp only: cut pdlog_header_def)
  qed
qed

lemma pdlog_decode_run:
  assumes "length p = len" and "length t = PDLOG_SIZE + 1"
  shows "pdlog_decode p len t =
     (if len \<noteq> PDLOG_SIZE + 12 then Some (- EMSGSIZE, t)
      else if take 12 p \<noteq> pdlog_header then Some (- EBADMSG, t)
      else map_option (Pair 0) (pdlog_copy p 0 t))"
proof (cases "len = PDLOG_SIZE + 12")
  case True
  then obtain a b c where "get_unaligned_le32 p 0 = Some a" and "get_unaligned_le32 p 4 = Some b"
      and "get_unaligned_le32 p 8 = Some c"
    using get_le32_Some [of 0 p] get_le32_Some [of 4 p] get_le32_Some [of 8 p] assms by auto
  with True assms show ?thesis
    by (cases "pdlog_copy p 0 t") (auto simp: pdlog_decode_def pdlog_header_iff)
qed (simp add: pdlog_decode_def)

text \<open>A buffer that holds a string of printable characters, line feeds and tabs.\<close>

definition text_ok :: "u8 list \<Rightarrow> bool" where
  "text_ok buf \<longleftrightarrow> length buf = PDLOG_SIZE + 1 \<and> 0 \<in> set buf \<and> (\<forall>c \<in> set (c_string buf). pdlog_char c = c)"

lemma pdlog_decode_cases:
  assumes "length p = len" and "length t = PDLOG_SIZE + 1"
  obtains (refused) ret where "pdlog_decode p len t = Some (ret, t)" and "ret < 0"
      and "\<not> (len = PDLOG_SIZE + 12 \<and> take 12 p = pdlog_header)"
    | (accepted) t' where "pdlog_decode p len t = Some (0, t')" and "length t' = length t" and "0 \<in> set t'"
      and "c_string t' = log_from p 0" and "len = PDLOG_SIZE + 12" and "take 12 p = pdlog_header"
proof (cases "len = PDLOG_SIZE + 12 \<and> take 12 p = pdlog_header")
  case True
  with pdlog_copy_run [of p t 0] assms obtain rest where
    "pdlog_copy p 0 t = Some (log_from p 0 @ 0 # rest)" and "length (log_from p 0 @ 0 # rest) = length t"
    by auto
  with True assms show ?thesis
    by (intro accepted [of "log_from p 0 @ 0 # rest"])
      (simp_all add: pdlog_decode_run c_string_copy log_from_nonzero)
next
  case False
  with assms show ?thesis
    by (intro refused [of "if len \<noteq> PDLOG_SIZE + 12 then - EMSGSIZE else - EBADMSG"])
      (auto simp: pdlog_decode_run)
qed

lemma pdlog_char_idem: "pdlog_char (pdlog_char c) = pdlog_char c"
  by (simp add: pdlog_char_def)

lemma log_from_shown: "c \<in> set (log_from p i) \<Longrightarrow> pdlog_char c = c"
  by (auto simp: log_from_def pdlog_char_idem)

lemma concat_pieces: "concat (pdlog_pieces line) = line"
proof (induction line rule: pdlog_pieces.induct)
  case (1 line)
  then show ?case by (simp add: pdlog_pieces.simps [of line])
qed

lemma pieces_short: "piece \<in> set (pdlog_pieces line) \<Longrightarrow> piece \<noteq> [] \<and> length piece \<le> 160"
proof (induction line rule: pdlog_pieces.induct)
  case (1 line)
  then show ?case by (auto simp: pdlog_pieces.simps [of line] split: if_splits)
qed

lemma lines_parts: "line \<in> set (pdlog_lines cs) \<Longrightarrow> set line \<subseteq> set cs - {10}"
proof (induction cs rule: pdlog_lines.induct)
  case (1 cs)
  show ?case
  proof (cases "dropWhile (\<lambda>c. c \<noteq> 10) cs")
    case Nil
    with 1 show ?thesis by (auto simp: pdlog_lines.simps [of cs] dropWhile_eq_Nil_conv)
  next
    case (Cons c rest)
    then have "set rest \<subseteq> set cs" by (metis list.set_intros(2) set_dropWhileD subsetI)
    with 1 Cons show ?thesis
      by (auto simp: pdlog_lines.simps [of cs] dest: set_takeWhileD)
  qed
qed

lemma print_pieces:
  assumes "piece \<in> set (pdlog_print buf)"
  shows "piece \<noteq> []" and "length piece \<le> 160" and "set piece \<subseteq> set (c_string buf) - {10}"
proof -
  from assms obtain line where "line \<in> set (pdlog_lines (c_string buf))" and "piece \<in> set (pdlog_pieces line)"
    by (auto simp: pdlog_print_def)
  then show "piece \<noteq> []" and "length piece \<le> 160" and "set piece \<subseteq> set (c_string buf) - {10}"
    using pieces_short [of piece line] lines_parts [of line "c_string buf"]
      set_concat [of "pdlog_pieces line"] by (simp_all add: concat_pieces) blast
qed

section \<open>What holds in every state\<close>

text \<open>
  The object that has attempted is the only one of this boot, so what was sent in this boot was sent
  by it.  No reply is taken while the text is printed, because no request is outstanding then.
\<close>

definition shown :: "u8 list \<Rightarrow> bool" where
  "shown piece \<longleftrightarrow> piece \<noteq> [] \<and> length piece \<le> 160 \<and> (\<forall>c \<in> set piece. 32 \<le> c \<and> c \<le> 126 \<or> c = 9)"

fun pc_ok :: "pdlog_pc \<Rightarrow> pdlog_state \<Rightarrow> nat \<Rightarrow> bool" where
  "pc_ok Work_idle s d \<longleftrightarrow> \<not> pd_awaiting s"
| "pc_ok (Work_send seq) s d \<longleftrightarrow> seq = pd_requests s \<and> pd_attempted s \<and> (0 < d \<longrightarrow> \<not> pd_awaiting s)"
| "pc_ok (Work_wait seq) s d \<longleftrightarrow> seq = pd_requests s \<and> pd_attempted s \<and> (0 < d \<longrightarrow> \<not> pd_awaiting s)"
| "pc_ok (Work_result seq ret) s d \<longleftrightarrow>
     seq = pd_requests s \<and> pd_attempted s \<and> (ret = 0 \<longrightarrow> \<not> pd_awaiting s)"
| "pc_ok Work_again s d \<longleftrightarrow> \<not> pd_awaiting s \<and> pd_attempted s"

definition state_ok :: "pdlog_state \<Rightarrow> bool" where
  "state_ok s \<longleftrightarrow> pd_replies s \<le> pd_requests s \<and> pd_requests s \<le> PDLOG_MAX_REQUESTS \<and>
     (pd_awaiting s \<longrightarrow> pd_active s \<and> pd_replies s < pd_requests s) \<and> (pd_active s \<longrightarrow> pd_attempted s) \<and>
     (pd_error s \<noteq> 0 \<longrightarrow> \<not> pd_active s) \<and> (\<not> pd_attempted s \<longrightarrow> pd_requests s = 0)"

definition unsent :: "pdlog_pc \<Rightarrow> nat" where
  "unsent pc = (case pc of Work_send _ \<Rightarrow> 1 | _ \<Rightarrow> 0)"

definition sent_ok :: "pdlog \<Rightarrow> bool" where
  "sent_ok p \<longleftrightarrow> set (p_sent p) \<subseteq> {pdlog_get} \<and> (\<not> p_boot p \<longrightarrow> p_sent p = []) \<and>
     (if pd_attempted (p_state p) then p_boot p \<and> length (p_sent p) + unsent (p_pc p) \<le> pd_requests (p_state p)
      else length (p_sent p) \<le> PDLOG_MAX_REQUESTS)"

definition pdlog_inv :: "pdlog \<Rightarrow> bool" where
  "pdlog_inv p \<longleftrightarrow> state_ok (p_state p) \<and> pc_ok (p_pc p) (p_state p) (p_done p) \<and> text_ok (p_text p) \<and>
     sent_ok p \<and> (\<forall>(seq, piece) \<in> set (p_printed p). shown piece) \<and>
     (p_queued p \<longrightarrow> pd_attempted (p_state p)) \<and>
     (p_bound p \<longrightarrow> pd_attempted (p_state p) \<or> pd_error (p_state p) = 0) \<and>
     (\<not> p_bound p \<longrightarrow> \<not> pd_active (p_state p) \<and> (p_closing p \<or> p_pc p = Work_idle \<and> \<not> p_queued p))"

lemmas inv_defs = pdlog_inv_def state_ok_def sent_ok_def unsent_def

lemma text_zero: "text_ok (replicate (PDLOG_SIZE + 1) 0)"
  by (simp add: text_ok_def c_string_def)

lemma inv_boot: "pdlog_inv (pdlog_boot now)"
  by (simp add: inv_defs pdlog_boot_def pdlog_zero_def text_zero [simplified])

lemma stop_simps [simp]:
  "pd_attempted (pdlog_stop s e) = pd_attempted s" "\<not> pd_active (pdlog_stop s e)" "\<not> pd_awaiting (pdlog_stop s e)"
  "pd_requests (pdlog_stop s e) = pd_requests s" "pd_replies (pdlog_stop s e) = pd_replies s"
  "pd_error (pdlog_stop s e) = (if e \<noteq> 0 \<and> pd_error s = 0 then e else pd_error s)"
  by (simp_all add: pdlog_stop_def Let_def)

lemma state_stop: "state_ok s \<Longrightarrow> state_ok (pdlog_stop s e)"
  by (simp add: state_ok_def)

lemma pc_stop: "pc_ok pc s d \<Longrightarrow> pc_ok pc (pdlog_stop s e) d'"
  by (cases pc) simp_all

lemma received_text:
  assumes "text_ok t" and "0 \<le> len \<longrightarrow> length data = nat len"
  shows "\<exists>ret out. (if len < 0 then Some (- EMSGSIZE, t) else pdlog_decode data (nat len) t) = Some (ret, out)
    \<and> text_ok out"
proof (cases "len < 0")
  case False
  with assms have "length data = nat len" and "length t = PDLOG_SIZE + 1" by (simp_all add: text_ok_def)
  then show ?thesis
  proof (cases rule: pdlog_decode_cases)
    case (refused ret)
    with False assms show ?thesis by simp
  next
    case (accepted t')
    with False assms have "text_ok t'" by (auto simp: text_ok_def dest: log_from_shown)
    with False accepted show ?thesis by simp
  qed
qed (simp add: assms)

lemma reply_ok:
  assumes "state_ok s" and "pd_active s" and "pd_awaiting s" and "pd_error s = 0"
  obtains s' where "pdlog_reply s ret = (True, s')" and "state_ok s'" and "\<not> pd_awaiting s'"
    and "pd_attempted s' = pd_attempted s" and "pd_requests s' = pd_requests s"
    and "pd_active s' \<longrightarrow> pd_active s" and "pd_attempted s'"
proof -
  let ?s = "s\<lparr>pd_awaiting := False\<rparr>"
  let ?r = "if ret \<noteq> 0 then pdlog_stop ?s ret else ?s\<lparr>pd_replies := pd_replies s + 1\<rparr>"
  have "pdlog_reply s ret = (True, ?r)" using assms by (simp add: pdlog_reply_def Let_def)
  then show ?thesis by (rule that) (use assms in \<open>auto simp: state_ok_def\<close>)
qed

lemma pc_quiet:
  assumes "pc_ok pc s d" and "\<not> pd_awaiting s'" and "pd_attempted s' = pd_attempted s"
    and "pd_requests s' = pd_requests s"
  shows "pc_ok pc s' d'"
  using assms by (cases pc) simp_all

lemma inv_callback:
  assumes inv: "pdlog_inv p" and len: "0 \<le> len \<longrightarrow> length data = nat len"
    and run: "pdlog_callback data len p = Some p'"
  shows "pdlog_inv p'"
proof (cases "pd_active (p_state p) \<and> pd_awaiting (p_state p) \<and> pd_error (p_state p) = 0")
  case False
  then have "p' = p" using run by (simp only: pdlog_callback_def if_False option.inject)
  with inv show ?thesis by simp
next
  case True
  obtain ret out where dec: "(if len < 0 then Some (- EMSGSIZE, p_text p)
      else pdlog_decode data (nat len) (p_text p)) = Some (ret, out)" and out: "text_ok out"
    using received_text [of "p_text p" len data] inv len unfolding pdlog_inv_def by blast
  obtain s where s: "pdlog_reply (p_state p) ret = (True, s)" "state_ok s" "\<not> pd_awaiting s"
      "pd_attempted s = pd_attempted (p_state p)" "pd_requests s = pd_requests (p_state p)"
      "pd_active s \<longrightarrow> pd_active (p_state p)" "pd_attempted s"
    using reply_ok [of "p_state p" ret] inv True unfolding pdlog_inv_def by blast
  have p': "p' = p\<lparr>p_text := out, p_state := s, p_done := p_done p + 1\<rparr>"
    using run dec s(1) True by (simp add: pdlog_callback_def)
  show ?thesis
    unfolding p' using inv out s pc_quiet [of "p_pc p" "p_state p" "p_done p" s]
    by (auto simp: pdlog_inv_def sent_ok_def)
qed

lemma inv_work_begin:
  assumes inv: "pdlog_inv p" and pc: "p_pc p = Work_idle" and queued: "p_queued p"
  shows "pdlog_inv (pdlog_work_begin p)"
proof -
  obtain go s where n: "pdlog_next (p_state p) (time_after_eq (p_jiffies p) (p_deadline p)) = (go, s)"
    by (metis surj_pair)
  have quiet: "\<not> go \<Longrightarrow> state_ok s \<and> \<not> pd_awaiting s \<and> pd_attempted s = pd_attempted (p_state p) \<and>
      pd_requests s = pd_requests (p_state p) \<and> pd_error s = pd_error (p_state p) \<and>
      (pd_active s \<longrightarrow> pd_active (p_state p))"
    using inv pc n by (auto simp: pdlog_next_def inv_defs split: if_splits)
  have loud: "go \<Longrightarrow> state_ok s \<and> pd_attempted s \<and> pd_attempted (p_state p) \<and> pd_active (p_state p) \<and>
      pd_requests s = pd_requests (p_state p) + 1"
    using inv n by (auto simp: pdlog_next_def inv_defs split: if_splits)
  show ?thesis
    using inv pc queued n quiet loud
    by (cases go) (auto simp: pdlog_work_begin_def pdlog_inv_def sent_ok_def unsent_def)
qed

lemma inv_work_send:
  assumes inv: "pdlog_inv p" and pc: "p_pc p = Work_send seq"
    and run: "pdlog_work_send hz seq ret now p = Some p'"
  shows "pdlog_inv p'"
proof -
  define pc' where "pc' = (if ret \<noteq> 0 then Work_result seq ret
    else if pdlog_left hz now (p_deadline p) = 0 then Work_result seq (- ETIMEDOUT) else Work_wait seq)"
  have p': "p' = p\<lparr>p_sent := pdlog_get # p_sent p, p_jiffies := now, p_pc := pc'\<rparr>"
    using run by (simp add: pdlog_work_send_def pdlog_request_get pc'_def)
  have "pc_ok pc' (p_state p) (p_done p)" and "unsent pc' = 0"
    using inv pc by (auto simp: pdlog_inv_def pc'_def unsent_def)
  moreover have "pd_attempted (p_state p)" and "p_bound p \<or> p_closing p"
    using inv pc by (auto simp: pdlog_inv_def)
  ultimately show ?thesis
    unfolding p' using inv pc by (auto simp: pdlog_inv_def sent_ok_def unsent_def)
qed

lemma inv_work_wake:
  assumes "pdlog_inv p" and "p_pc p = Work_wait seq"
  shows "pdlog_inv (pdlog_work_wake seq p)"
  using assms by (auto simp: pdlog_work_wake_def pdlog_inv_def sent_ok_def unsent_def)

lemma shown_print: "text_ok buf \<Longrightarrow> piece \<in> set (pdlog_print buf) \<Longrightarrow> shown piece"
proof -
  assume ok: "text_ok buf" and piece: "piece \<in> set (pdlog_print buf)"
  have "32 \<le> c \<and> c \<le> 126 \<or> c = 9" if "c \<in> set piece" for c
  proof -
    have "c \<in> set (c_string buf)" and "c \<noteq> 10" using print_pieces(3) [OF piece] that by auto
    moreover from this ok have "pdlog_char c = c" by (simp add: text_ok_def)
    ultimately show ?thesis by (auto simp: pdlog_char_def split: if_splits)
  qed
  then show ?thesis using print_pieces(1,2) [OF piece] by (simp add: shown_def)
qed

lemma inv_work_result:
  assumes inv: "pdlog_inv p" and pc: "p_pc p = Work_result seq ret"
  shows "pdlog_inv (pdlog_work_result seq ret p)"
proof -
  define s where "s = (if ret \<noteq> 0 then pdlog_stop (p_state p) ret else p_state p)"
  have "state_ok s" "\<not> pd_awaiting s" "pd_attempted s" "pd_attempted (p_state p)"
      "pd_requests s = pd_requests (p_state p)" "pd_active s \<longrightarrow> pd_active (p_state p)"
    using inv pc state_stop [of "p_state p" ret] by (auto simp: s_def pdlog_inv_def)
  moreover have "shown piece" if "piece \<in> set (pdlog_print (p_text p))" for piece
    using that inv shown_print by (auto simp: pdlog_inv_def)
  ultimately show ?thesis
    using inv pc unfolding pdlog_work_result_def s_def [symmetric]
    by (auto simp: Let_def pdlog_inv_def sent_ok_def unsent_def)
qed

lemma inv_work_again:
  assumes "pdlog_inv p" and "p_pc p = Work_again"
  shows "pdlog_inv (pdlog_work_again p)"
  using assms by (auto simp: pdlog_work_again_def pdlog_inv_def sent_ok_def unsent_def state_ok_def)

lemma inv_cancel:
  assumes "pdlog_inv p"
  shows "pdlog_inv (pdlog_cancel 0 p)" and "pdlog_inv (pdlog_remove p)"
  using assms state_stop pc_stop
  by (auto simp: pdlog_cancel_def pdlog_remove_def pdlog_inv_def sent_ok_def)

lemma inv_capture:
  assumes inv: "pdlog_inv p" and bound: "p_bound p"
  shows "pdlog_inv (snd (capture_store hz nhi_complete (Some True) p))"
proof (cases "nhi_complete \<and> \<not> p_boot p \<and> \<not> pd_attempted (p_state p)")
  case True
  let ?s = "p_state p\<lparr>pd_attempted := True, pd_active := True\<rparr>"
  have "snd (capture_store hz nhi_complete (Some True) p) =
      p\<lparr>p_boot := True, p_state := ?s, p_deadline := p_jiffies p + 300 * hz, p_queued := True\<rparr>"
    using True by (simp add: capture_store_def pdlog_start_def)
  moreover have "p_sent p = []" and "p_pc p = Work_idle"
    using inv True by (simp add: pdlog_inv_def sent_ok_def, cases "p_pc p") (auto simp: pdlog_inv_def)
  moreover have "pd_error (p_state p) = 0" using inv bound True by (simp add: pdlog_inv_def)
  ultimately show ?thesis
    using inv bound by (simp add: pdlog_inv_def sent_ok_def state_ok_def unsent_def)
next
  case False
  then have "snd (capture_store hz nhi_complete (Some True) p) = p\<lparr>p_boot := p_boot p \<or> nhi_complete\<rparr>"
    by (auto simp: capture_store_def pdlog_start_def)
  with inv show ?thesis by (auto simp: pdlog_inv_def sent_ok_def)
qed

lemma inv_store:
  assumes "pdlog_inv p" and "p_bound p"
  shows "pdlog_inv (snd (capture_store hz nhi_complete request p))"
proof (cases request)
  case (Some enable)
  with assms show ?thesis
    by (cases enable) (simp_all add: inv_capture, simp add: capture_store_def inv_cancel)
qed (use assms in \<open>simp add: capture_store_def\<close>)

lemma inv_probe:
  assumes "pdlog_inv p" and "\<not> p_bound p" and "\<not> p_closing p"
  shows "pdlog_inv (snd (pdlog_probe b alloc group_ret p))"
  using assms by (auto simp: pdlog_probe_def inv_defs pdlog_zero_def text_zero [simplified])

lemma inv_step: "pdlog_step hz p p' \<Longrightarrow> pdlog_inv p \<Longrightarrow> pdlog_inv p'"
proof (induction rule: pdlog_step.induct)
  case (tick p now)
  then show ?case by (simp add: pdlog_inv_def sent_ok_def)
next
  case (cancelled p)
  then show ?case by (auto simp: pdlog_cancelled_def pdlog_inv_def sent_ok_def)
qed (blast intro: inv_callback inv_work_begin inv_work_send inv_work_wake inv_work_result inv_work_again
       inv_store inv_cancel inv_probe)+

lemma inv_reach: "pdlog_reach hz p q \<Longrightarrow> pdlog_inv p \<Longrightarrow> pdlog_inv q"
  by (induction rule: pdlog_reach.induct) (blast intro: inv_step)+

section \<open>The bounds of a capture\<close>

text \<open>
  C14. However the work item, the callback, the attribute writes, removals and new probes interleave,
  and whatever the endpoint answers: the driver sends at most 128 messages in a boot, each of them the
  fixed GET request, never counts more replies than requests, and everything it prints is a non-empty
  piece of at most 160 printable characters or tabs.
\<close>

theorem pdlog_bounded:
  assumes "pdlog_reach hz (pdlog_boot now) p"
  shows "length (p_sent p) \<le> 128 \<and> set (p_sent p) \<subseteq> {pdlog_get} \<and>
    pd_replies (p_state p) \<le> pd_requests (p_state p) \<and>
    list_all (\<lambda>(seq, piece). shown piece) (p_printed p)"
proof (intro conjI)
  have inv: "pdlog_inv p" using inv_reach [OF assms inv_boot] .
  then have "if pd_attempted (p_state p) then length (p_sent p) + unsent (p_pc p) \<le> pd_requests (p_state p)
      else length (p_sent p) \<le> PDLOG_MAX_REQUESTS" and "pd_requests (p_state p) \<le> PDLOG_MAX_REQUESTS"
    by (auto simp: inv_defs split: if_splits)
  then show "length (p_sent p) \<le> 128" by (simp add: PDLOG_MAX_REQUESTS_def split: if_splits)
  show "set (p_sent p) \<subseteq> {pdlog_get}" and "pd_replies (p_state p) \<le> pd_requests (p_state p)"
    and "list_all (\<lambda>(seq, piece). shown piece) (p_printed p)"
    using inv by (simp_all add: inv_defs list_all_iff)
qed

text \<open>A boot in which the device is probed, a capture started and the first request sent.\<close>

lemma first_request_sent:
  "\<exists>p. pdlog_reach 250 (pdlog_boot 0) p \<and> p_sent p = [pdlog_get] \<and> pd_active (p_state p)"
proof -
  let ?p = "snd (pdlog_probe lab_board True 0 (pdlog_boot 0))"
  let ?q = "snd (capture_store 250 True (Some True) ?p)"
  have "pdlog_reach 250 (pdlog_boot 0) ?p"
    by (rule more [OF start], rule probe) (simp_all add: pdlog_boot_def)
  then have "pdlog_reach 250 (pdlog_boot 0) ?q"
    by (rule more, intro store) (simp_all add: pdlog_boot_def pdlog_probe_def lab_board_def x1_diag_board_allowed_def x1_diag_disabled_def)
  then have reach: "pdlog_reach 250 (pdlog_boot 0) (pdlog_work_begin ?q)"
    by (rule more, intro work_begin)
      (simp_all add: pdlog_boot_def pdlog_probe_def lab_board_def x1_diag_board_allowed_def x1_diag_disabled_def
        capture_store_def pdlog_start_def pdlog_zero_def)
  define w where "w = pdlog_work_begin ?q"
  have w: "p_pc w = Work_send 1" "p_sent w = []" "pd_active (p_state w)"
    by (simp_all add: w_def pdlog_boot_def pdlog_probe_def lab_board_def x1_diag_board_allowed_def x1_diag_disabled_def
        capture_store_def pdlog_start_def pdlog_zero_def pdlog_work_begin_def pdlog_next_def time_after_eq_def
        PDLOG_MAX_REQUESTS_def)
  obtain r where r: "pdlog_work_send 250 1 0 0 w = Some r" "p_sent r = pdlog_get # p_sent w" "p_state r = p_state w"
    by (simp add: pdlog_work_send_def pdlog_request_get)
  have "pdlog_reach 250 (pdlog_boot 0) r"
    using reach w(1) r(1) unfolding w_def [symmetric] by (blast intro: more work_send)
  with r w show ?thesis by auto
qed

theorem pdlog_bounded_witness:
  "\<exists>p. pdlog_reach 250 (pdlog_boot 0) p \<and> p_sent p = [pdlog_get] \<and> length (p_sent p) \<le> 128"
  using first_request_sent pdlog_bounded by blast

text \<open>Once a capture is over and its work item is idle, no step starts it again.\<close>

definition over :: "pdlog \<Rightarrow> bool" where
  "over p \<longleftrightarrow> p_boot p \<and> \<not> pd_active (p_state p) \<and> (p_pc p = Work_idle \<or> p_pc p = Work_again)"

lemma over_step:
  assumes "pdlog_step hz p p'" and "over p"
  shows "over p' \<and> p_sent p' = p_sent p"
  using assms
proof (induction rule: pdlog_step.induct)
  case (receive len data p p')
  then show ?case by (simp add: pdlog_callback_def over_def)
next
  case (store p nhi_complete request)
  then show ?case
    by (auto simp: over_def capture_store_def pdlog_start_def pdlog_cancel_def split: option.splits bool.splits)
qed (auto simp: over_def pdlog_work_begin_def pdlog_next_def pdlog_work_again_def pdlog_cancelled_def
       pdlog_remove_def pdlog_cancel_def pdlog_probe_def pdlog_zero_def)

text \<open>
  C15. A capture that has ended stays ended for the rest of the boot: after any further interleaving,
  including removal and a new probe of the device, nothing more is sent.
\<close>

theorem pdlog_over_final:
  assumes "pdlog_reach hz p q" and "p_boot p" and "\<not> pd_active (p_state p)" and "p_pc p = Work_idle"
  shows "p_sent q = p_sent p \<and> \<not> pd_active (p_state q)"
proof -
  have "over q \<and> p_sent q = p_sent p"
    using assms by (induction rule: pdlog_reach.induct) (auto simp: over_def dest: over_step [unfolded over_def])
  then show ?thesis by (simp add: over_def)
qed

theorem pdlog_over_final_witness:
  "p_sent (pdlog_remove (pdlog_boot 0\<lparr>p_boot := True, p_bound := True\<rparr>)) = [] \<and>
   \<not> pd_active (p_state (pdlog_remove (pdlog_boot 0\<lparr>p_boot := True, p_bound := True\<rparr>)))"
proof -
  let ?p = "pdlog_boot 0\<lparr>p_boot := True, p_bound := True\<rparr>"
  have "pdlog_reach 250 ?p (pdlog_remove ?p)"
    by (rule more [OF start], rule remove) (simp_all add: pdlog_boot_def)
  then have "p_sent (pdlog_remove ?p) = p_sent ?p \<and> \<not> pd_active (p_state (pdlog_remove ?p))"
    by (rule pdlog_over_final) (simp_all add: pdlog_boot_def pdlog_zero_def)
  then show ?thesis by (simp add: pdlog_boot_def)
qed

text \<open>
  C28. For a message of the length the endpoint reports and the driver's text buffer, the decoder stays
  inside both buffers.  It accepts exactly the messages of full length with the GET reply's header, and
  then the buffer holds, as a C string, the log up to its first NUL with every character outside
  printable ASCII, line feed and tab replaced; a refused message leaves the buffer as it was.
\<close>

theorem pdlog_decode_exact:
  assumes "length p = len" and "length t = PDLOG_SIZE + 1"
  shows "\<exists>ret t'. pdlog_decode p len t = Some (ret, t') \<and> length t' = length t \<and>
    (ret = 0 \<longleftrightarrow> len = PDLOG_SIZE + 12 \<and> take 12 p = pdlog_header) \<and>
    (if ret = 0
     then c_string t' = map pdlog_char (takeWhile (\<lambda>c. c \<noteq> 0) (take PDLOG_SIZE (drop 12 p)))
     else t' = t)"
  using assms
proof (cases rule: pdlog_decode_cases)
  case (refused ret)
  then show ?thesis by auto
next
  case (accepted t')
  then show ?thesis by (simp add: log_from_def)
qed

theorem pdlog_decode_exact_witness:
  "\<exists>t'. pdlog_decode (pdlog_header @ replicate PDLOG_SIZE 27) (PDLOG_SIZE + 12) (replicate (PDLOG_SIZE + 1) 0)
     = Some (0, t') \<and> c_string t' = replicate PDLOG_SIZE 46"
proof -
  have header: "length pdlog_header = 12" by (simp add: pdlog_header_def)
  have dots: "map pdlog_char (replicate n 27) = replicate n 46" for n by (simp add: pdlog_char_def)
  have whole: "takeWhile (\<lambda>c. c \<noteq> 0) (replicate n 27) = replicate n (27 :: u8)" for n
    by (induction n) simp_all
  show ?thesis
    using pdlog_decode_exact [of "pdlog_header @ replicate PDLOG_SIZE 27" "PDLOG_SIZE + 12"
      "replicate (PDLOG_SIZE + 1) 0"] header dots whole by (auto split: if_splits)
qed

end
