(* ===== verification/X1_Ucsi.thy ===== *)
theory X1_Ucsi
  imports X1_Prelude
begin

unbundle bit_operations_syntax

text \<open>
  The restricted UCSI 1.2 command layer: the read-buffer decoder
  \<open>snapshot/kernel/drivers/soc/qcom/yoga_ucsi_packet.h\<close> and the command protocol
  \<open>yoga_ucsi_query.h\<close>.

  The four callbacks of \<open>struct uq_io\<close> are programs over an arbitrary state, so the protocol can be run
  on the diagnostic driver's own transport and on any other one.
\<close>

section \<open>The read buffer\<close>

record yoga_ucsi_sample =
  us_version :: u16
  us_cci :: u32
  us_prefix :: "u8 list"

definition no_sample :: yoga_ucsi_sample where
  "no_sample = \<lparr>us_version = 0, us_cci = 0, us_prefix = replicate 32 0\<rparr>"

definition yoga_ucsi_decode ::
    "u8 list option \<Rightarrow> nat \<Rightarrow> yoga_ucsi_sample option \<Rightarrow> (int \<times> yoga_ucsi_sample option) option" where
  "yoga_ucsi_decode p len out =
     (case (p, out) of
        (Some p, Some _) \<Rightarrow>
          if len \<noteq> 64 \<and> len \<noteq> 544 then Some (- EMSGSIZE, out)
          else do {
            owner \<leftarrow> get_unaligned_le32 p 0;
            kind \<leftarrow> get_unaligned_le32 p 4;
            opcode \<leftarrow> get_unaligned_le32 p 8;
            if owner \<noteq> 32779 \<or> kind \<noteq> 1 \<or> opcode \<noteq> 0x11 then Some (- EBADMSG, out)
            else do {
              status \<leftarrow> get_unaligned_le32 p (len - 4);
              if status \<noteq> 0 then Some (- EREMOTEIO, out)
              else do {
                version \<leftarrow> get_unaligned_le16 p 12;
                if (len = 64 \<and> (version < 0x100 \<or> 0x200 \<le> version)) \<or>
                   (len = 544 \<and> (version < 0x200 \<or> 0x300 < version))
                then Some (- EPROTONOSUPPORT, out)
                else do {
                  cci \<leftarrow> get_unaligned_le32 p 16;
                  prefix \<leftarrow> those (map (\<lambda>i. get_u8 p (12 + i)) [0..<32]);
                  Some (0, Some \<lparr>us_version = version, us_cci = cci, us_prefix = prefix\<rparr>)
                }
              }
            }
          }
      | _ \<Rightarrow> Some (- EMSGSIZE, out))"

section \<open>Commands\<close>

definition UQ_NOTIFY :: u64 where "UQ_NOTIFY = 0x10005"
definition UQ_NOTIFY_READY :: u64 where "UQ_NOTIFY_READY = 0xdb050005"
definition UQ_ACK :: u64 where "UQ_ACK = 0x20004"
definition UQ_ACK_EVENT :: u64 where "UQ_ACK_EVENT = 0x30004"
definition UQ_COMPLETE :: u32 where "UQ_COMPLETE = 0x80000000"
definition UQ_ERROR :: u32 where "UQ_ERROR = 0x40000000"
definition UQ_ACKED :: u32 where "UQ_ACKED = 0x20000000"
definition UQ_BUSY :: u32 where "UQ_BUSY = 0x10000000"
definition UQ_UNSUPPORTED :: u32 where "UQ_UNSUPPORTED = 0x02000000"

definition port_command :: "u64 \<Rightarrow> u64 \<Rightarrow> u64" where
  "port_command port opcode = push_bit 16 port OR opcode"

definition alternate_command :: "u64 \<Rightarrow> u64 \<Rightarrow> u64" where
  "alternate_command port recipient = push_bit 24 port OR push_bit 16 recipient OR 0x0c"

definition uq_allowed :: "u64 \<Rightarrow> bool" where
  "uq_allowed cmd \<longleftrightarrow>
     cmd = UQ_NOTIFY \<or> cmd = UQ_NOTIFY_READY \<or> cmd = UQ_ACK \<or> cmd = UQ_ACK_EVENT \<or> cmd = 6 \<or>
     list_ex (\<lambda>port.
       cmd = port_command port 7 \<or> cmd = port_command port 0x11 \<or>
       cmd = port_command port 0x12 \<or> cmd = port_command port 0x0e \<or>
       list_ex (\<lambda>recipient. cmd = alternate_command port recipient) [1, 2]) [1, 2, 3]"

section \<open>The protocol\<close>

text \<open>\<open>struct uq_io\<close>; the reader updates the sample it is given.\<close>

record 's uq_io =
  uq_io_write :: "u64 \<Rightarrow> ('s, int) state"
  uq_io_read :: "yoga_ucsi_sample \<Rightarrow> ('s, int \<times> yoga_ucsi_sample) state"
  uq_io_pause :: "('s, unit) state"
  uq_io_deadline :: "('s, unit) state"

definition uq_read :: "'s uq_io \<Rightarrow> yoga_ucsi_sample \<Rightarrow> ('s, int \<times> yoga_ucsi_sample) state" where
  "uq_read io sample = do {
     (ret, sample) \<leftarrow> uq_io_read io sample;
     State_Monad.return
       (if ret \<noteq> 0 then ret else if us_version sample = 0x0120 then 0 else - EPROTONOSUPPORT, sample)
   }"

definition cci_length :: "u32 \<Rightarrow> u32" where
  "cci_length cci = drop_bit 8 cci AND 0xff"

definition cci_connector :: "u32 \<Rightarrow> u32" where
  "cci_connector cci = drop_bit 1 cci AND 0x7f"

text \<open>What one round of \<open>uq_poll\<close> concludes from the sample: a result, or another round.\<close>

definition poll_verdict :: "bool \<Rightarrow> u32 \<Rightarrow> int option" where
  "poll_verdict ack cci =
     (if cci AND UQ_BUSY \<noteq> 0 then None
      else if cci AND NOT (UQ_COMPLETE OR UQ_ERROR OR UQ_ACKED OR UQ_UNSUPPORTED OR 0xfffe) \<noteq> 0
        then Some (- EPROTO)
      else if ack \<and> cci AND UQ_ACKED \<noteq> 0
        then Some (if cci AND NOT (UQ_ACKED OR 0xfe) \<noteq> 0 then - EPROTO else 0)
      else if \<not> ack \<and> cci AND UQ_COMPLETE \<noteq> 0
        then Some (if cci AND UQ_ACKED \<noteq> 0 \<or> 16 < cci_length cci then - EPROTO else 0)
      else None)"

fun uq_poll_from :: "'s uq_io \<Rightarrow> bool \<Rightarrow> nat \<Rightarrow> yoga_ucsi_sample \<Rightarrow> ('s, int \<times> yoga_ucsi_sample) state" where
  "uq_poll_from io ack 0 sample = State_Monad.return (- ETIMEDOUT, sample)"
| "uq_poll_from io ack (Suc n) sample = do {
     (ret, sample) \<leftarrow> uq_read io sample;
     if ret \<noteq> 0 then State_Monad.return (ret, sample)
     else case poll_verdict ack (us_cci sample) of
       Some ret \<Rightarrow> State_Monad.return (ret, sample)
     | None \<Rightarrow> do {
         uq_io_pause io;
         uq_poll_from io ack n sample
       }
   }"

definition uq_poll :: "'s uq_io \<Rightarrow> yoga_ucsi_sample \<Rightarrow> bool \<Rightarrow> ('s, int \<times> yoga_ucsi_sample) state" where
  "uq_poll io sample ack = uq_poll_from io ack 50 sample"

text \<open>The result of a completed command, before it is acknowledged.\<close>

definition command_result :: "nat \<Rightarrow> u32 \<Rightarrow> int" where
  "command_result event_connector cci =
     (let result = int (unat (cci_length cci));
          result = if cci AND UQ_UNSUPPORTED \<noteq> 0 then - EOPNOTSUPP else result;
          result = if cci AND UQ_ERROR \<noteq> 0 then - EREMOTEIO else result
      in if event_connector \<noteq> 0 \<and> 0 \<le> result \<and>
           (result < 9 \<or> 16 < result \<or> cci_connector cci \<noteq> of_nat event_connector) then - EPROTO
         else result)"

text \<open>
  \<open>uq_command_kind\<close> from its last part: acknowledging a completed command, writing an admitted command
  and waiting for it, and the checks before that.  \<open>sample\<close> is the function's local variable.
\<close>

definition uq_acknowledge ::
    "'s uq_io \<Rightarrow> yoga_ucsi_sample \<Rightarrow> nat \<Rightarrow> yoga_ucsi_sample \<Rightarrow> ('s, int \<times> yoga_ucsi_sample) state" where
  "uq_acknowledge io reply event_connector sample =
     (let result = command_result event_connector (us_cci reply) in do {
        uq_io_deadline io;
        ret \<leftarrow> uq_io_write io (if event_connector \<noteq> 0 \<and> 0 \<le> result then UQ_ACK_EVENT else UQ_ACK);
        if ret \<noteq> 0 then State_Monad.return (ret, reply)
        else do {
          (ret, sample) \<leftarrow> uq_poll io sample True;
          State_Monad.return (if ret \<noteq> 0 then ret else result, reply)
        }
      })"

definition uq_execute ::
    "'s uq_io \<Rightarrow> u64 \<Rightarrow> yoga_ucsi_sample \<Rightarrow> nat \<Rightarrow> yoga_ucsi_sample \<Rightarrow> ('s, int \<times> yoga_ucsi_sample) state" where
  "uq_execute io cmd reply event_connector sample = do {
     ret \<leftarrow> uq_io_write io cmd;
     if ret \<noteq> 0 then State_Monad.return (ret, reply)
     else do {
       (ret, reply) \<leftarrow> uq_poll io reply False;
       if ret \<noteq> 0 then State_Monad.return (ret, reply)
       else uq_acknowledge io reply event_connector sample
     }
   }"

definition uq_command_kind ::
    "'s uq_io \<Rightarrow> u64 \<Rightarrow> yoga_ucsi_sample \<Rightarrow> nat \<Rightarrow> ('s, int \<times> yoga_ucsi_sample) state" where
  "uq_command_kind io cmd reply event_connector =
     (if \<not> uq_allowed cmd \<or> cmd = UQ_ACK \<or> cmd = UQ_ACK_EVENT then State_Monad.return (- EPERM, reply)
      else if event_connector \<noteq> 0 \<and>
          (3 < event_connector \<or> cmd \<noteq> port_command (of_nat event_connector) 0x12)
        then State_Monad.return (- EPERM, reply)
      else do {
        uq_io_deadline io;
        (ret, sample) \<leftarrow> uq_read io no_sample;
        if ret \<noteq> 0 then State_Monad.return (ret, reply)
        else if us_cci sample AND NOT (UQ_ACKED OR 0xfe) \<noteq> 0 then State_Monad.return (- EBUSY, reply)
        else if event_connector \<noteq> 0 \<and> cci_connector (us_cci sample) \<noteq> of_nat event_connector
          then State_Monad.return (- EPROTO, reply)
        else uq_execute io cmd reply event_connector sample
      })"

definition uq_command ::
    "'s uq_io \<Rightarrow> u64 \<Rightarrow> yoga_ucsi_sample \<Rightarrow> ('s, int \<times> yoga_ucsi_sample) state" where
  "uq_command io cmd reply = uq_command_kind io cmd reply 0"

definition uq_pending :: "'s uq_io \<Rightarrow> nat \<Rightarrow> ('s, int) state" where
  "uq_pending io connectors =
     (if connectors = 0 \<or> 3 < connectors then State_Monad.return (- ERANGE)
      else do {
        uq_io_deadline io;
        (ret, sample) \<leftarrow> uq_read io no_sample;
        State_Monad.return
          (if ret \<noteq> 0 then ret
           else if us_cci sample AND NOT (UQ_ACKED OR 0xfe) \<noteq> 0 then - EBUSY
           else if connectors < unat (cci_connector (us_cci sample)) then - EPROTO
           else int (unat (cci_connector (us_cci sample))))
      })"

lemma those_map_total: "(\<And>x. x \<in> set xs \<Longrightarrow> f x = Some (g x)) \<Longrightarrow> those (map f xs) = Some (map g xs)"
  by (induction xs) simp_all

lemma ucsi_decode_total:
  assumes "length p = len"
  shows "\<exists>ret s. yoga_ucsi_decode (Some p) len (Some out) = Some (ret, Some s)"
proof (cases "len = 64 \<or> len = 544")
  case True
  then obtain a b c d e where "get_unaligned_le32 p 0 = Some a" "get_unaligned_le32 p 4 = Some b"
      "get_unaligned_le32 p 8 = Some c" "get_unaligned_le32 p (len - 4) = Some d" "get_unaligned_le32 p 16 = Some e"
    using assms get_le32_Some [of 0 p] get_le32_Some [of 4 p] get_le32_Some [of 8 p]
      get_le32_Some [of "len - 4" p] get_le32_Some [of 16 p] by fastforce
  moreover obtain v where "get_unaligned_le16 p 12 = Some v"
    using True assms get_le16_Some [of 12 p] by auto
  moreover have "those (map (\<lambda>i. get_u8 p (12 + i)) [0..<32]) = Some (map (\<lambda>i. p ! (12 + i)) [0..<32])"
    using True assms by (intro those_map_total) (auto simp: get_u8_def)
  ultimately show ?thesis using True unfolding yoga_ucsi_decode_def by (simp del: upt_rec_numeral)
qed (auto simp: yoga_ucsi_decode_def)

section \<open>What the commands are\<close>

lemma uq_allowed_opcode:
  assumes "uq_allowed cmd"
  shows "cmd AND 0xff \<in> {0x04, 0x05, 0x06, 0x07, 0x0c, 0x0e, 0x11, 0x12}"
  using assms
  by (auto simp: uq_allowed_def UQ_NOTIFY_def UQ_NOTIFY_READY_def UQ_ACK_def UQ_ACK_EVENT_def
      port_command_def alternate_command_def)

section \<open>What a command writes\<close>

text \<open>The same transport with a record of the commands written, newest first.\<close>

definition silent :: "('s, 'a) state \<Rightarrow> ('s \<times> 'e list, 'a) state" where
  "silent m = State (\<lambda>(s, h). case run_state m s of (a, s') \<Rightarrow> (a, (s', h)))"

definition logged :: "'s uq_io \<Rightarrow> ('s \<times> u64 list) uq_io" where
  "logged io = \<lparr>uq_io_write = (\<lambda>cmd. traced (\<lambda>_. cmd) (uq_io_write io cmd)),
     uq_io_read = (\<lambda>sample. silent (uq_io_read io sample)),
     uq_io_pause = silent (uq_io_pause io), uq_io_deadline = silent (uq_io_deadline io)\<rparr>"

abbreviation wrote :: "u64 list \<Rightarrow> 's \<times> u64 list \<Rightarrow> bool" where
  "wrote h \<equiv> (\<lambda>(s, h'). h' = h)"

text \<open>A transport whose callbacks return 0 or a negative error number, as the kernel's do.\<close>

definition errno_io :: "'s uq_io \<Rightarrow> bool" where
  "errno_io io \<longleftrightarrow> (\<forall>cmd. rets (\<lambda>ret. ret \<le> 0) (uq_io_write io cmd)) \<and>
     (\<forall>sample. rets (\<lambda>(ret, _). ret \<le> 0) (uq_io_read io sample))"

lemma triple_silent: "rets Q m \<Longrightarrow> triple (wrote h) (silent m) (\<lambda>a s. wrote h s \<and> Q a)"
  by (auto simp: triple_def silent_def rets_def split: prod.splits) (metis fst_conv)

lemma triple_write:
  "errno_io io \<Longrightarrow> triple (wrote h) (uq_io_write (logged io) cmd) (\<lambda>ret s. wrote (cmd # h) s \<and> ret \<le> 0)"
  by (auto simp: triple_def logged_def errno_io_def rets_def split: prod.splits) (metis fst_conv)

lemma triple_deadline: "triple (wrote h) (uq_io_deadline (logged io)) (\<lambda>_. wrote h)"
  using triple_silent [of "\<lambda>_. True"] by (simp add: logged_def)

lemma triple_pause: "triple (wrote h) (uq_io_pause (logged io)) (\<lambda>_. wrote h)"
  using triple_silent [of "\<lambda>_. True"] by (simp add: logged_def)

lemma triple_read:
  assumes "errno_io io"
  shows "triple (wrote h) (uq_read (logged io) sample) (\<lambda>(ret, _) s. wrote h s \<and> ret \<le> 0)"
proof -
  have "triple (wrote h) (uq_io_read (logged io) sample) (\<lambda>(ret, _) s. wrote h s \<and> ret \<le> 0)"
    using assms triple_silent [of "\<lambda>(ret, _). ret \<le> 0" "uq_io_read io sample" h]
    by (simp add: logged_def errno_io_def case_prod_beta')
  then show ?thesis
    unfolding uq_read_def by (rule triple_bind) (auto intro!: triple_return split: prod.splits)
qed

lemma poll_verdict_nonpos: "poll_verdict ack cci = Some ret \<Longrightarrow> ret \<le> 0"
  by (auto simp: poll_verdict_def split: if_splits)

lemma triple_poll_from:
  assumes "errno_io io"
  shows "triple (wrote h) (uq_poll_from (logged io) ack n sample)
    (\<lambda>(ret, sample) s. wrote h s \<and> ret \<le> 0 \<and> (ret = 0 \<longrightarrow> poll_verdict ack (us_cci sample) = Some 0))"
proof (induction n arbitrary: sample)
  case 0
  show ?case by (auto intro!: triple_return)
next
  case (Suc n)
  show ?case
    unfolding uq_poll_from.simps
  proof (rule triple_bind [OF triple_read [OF assms]])
    fix a :: "int \<times> yoga_ucsi_sample"
    obtain ret sample where a: "a = (ret, sample)" by (cases a)
    have more: "triple (wrote h) (do { uq_io_pause (logged io); uq_poll_from (logged io) ack n sample })
        (\<lambda>(ret, sample) s. wrote h s \<and> ret \<le> 0 \<and> (ret = 0 \<longrightarrow> poll_verdict ack (us_cci sample) = Some 0))"
      by (rule triple_bind [OF triple_pause Suc])
    show "triple (case a of (ret, _) \<Rightarrow> \<lambda>s. wrote h s \<and> ret \<le> 0) (case a of (ret, sample) \<Rightarrow>
        if ret \<noteq> 0 then State_Monad.return (ret, sample)
        else case poll_verdict ack (us_cci sample) of
            None \<Rightarrow> uq_io_pause (logged io) \<bind> (\<lambda>_. uq_poll_from (logged io) ack n sample)
          | Some ret \<Rightarrow> State_Monad.return (ret, sample))
        (\<lambda>(ret, sample) s. wrote h s \<and> ret \<le> 0 \<and> (ret = 0 \<longrightarrow> poll_verdict ack (us_cci sample) = Some 0))"
      using more unfolding a
      by (auto intro!: triple_return intro: triple_weaken simp: poll_verdict_nonpos split: option.splits)
  qed
qed

text \<open>A complete status reply for connector \<open>c\<close>.\<close>

definition status_reply :: "nat \<Rightarrow> u32 \<Rightarrow> bool" where
  "status_reply c cci \<longleftrightarrow> cci AND UQ_COMPLETE \<noteq> 0 \<and> cci AND (UQ_BUSY OR UQ_ERROR OR UQ_UNSUPPORTED OR UQ_ACKED) = 0 \<and>
     9 \<le> cci_length cci \<and> cci_length cci \<le> 16 \<and> cci_connector cci = of_nat c"

lemma completed_status:
  assumes "poll_verdict False cci = Some 0" and "0 \<le> command_result c cci" and "c \<noteq> 0"
  shows "status_reply c cci"
proof -
  have "cci AND UQ_BUSY = 0" and "cci AND UQ_COMPLETE \<noteq> 0" and "cci AND UQ_ACKED = 0" and "cci_length cci \<le> 16"
    using assms(1) by (auto simp: poll_verdict_def not_less split: if_splits)
  moreover have "cci AND UQ_ERROR = 0" and "cci AND UQ_UNSUPPORTED = 0"
      and "9 \<le> uint (cci_length cci)" and "cci_connector cci = of_nat c"
    using assms(2,3) by (auto simp: command_result_def Let_def split: if_splits)
  moreover have "cci AND (UQ_BUSY OR UQ_ERROR OR UQ_UNSUPPORTED OR UQ_ACKED) =
      (cci AND UQ_BUSY) OR (cci AND UQ_ERROR) OR (cci AND UQ_UNSUPPORTED) OR (cci AND UQ_ACKED)"
    by (simp only: bit.conj_disj_distrib)
  ultimately show ?thesis by (simp add: status_reply_def word_le_def)
qed

definition command_log :: "u64 \<Rightarrow> nat \<Rightarrow> int \<Rightarrow> u32 \<Rightarrow> u64 list \<Rightarrow> bool" where
  "command_log cmd c ret cci h \<longleftrightarrow>
     (h = [] \<or> uq_allowed cmd \<and> cmd \<noteq> UQ_ACK \<and> cmd \<noteq> UQ_ACK_EVENT \<and>
       (h = [cmd] \<or> h = [UQ_ACK, cmd] \<or> h = [UQ_ACK_EVENT, cmd])) \<and>
     (0 \<le> ret \<longrightarrow> h = [if c \<noteq> 0 then UQ_ACK_EVENT else UQ_ACK, cmd]) \<and>
     (UQ_ACK_EVENT \<in> set h \<longrightarrow> c \<in> {1, 2, 3} \<and> cmd = port_command (of_nat c) 0x12 \<and> status_reply c cci)"

lemma acks_differ: "UQ_ACK \<noteq> UQ_ACK_EVENT"
  by (simp add: UQ_ACK_def UQ_ACK_EVENT_def)

lemma triple_ack:
  assumes io: "errno_io io" and cmd: "uq_allowed cmd" "cmd \<noteq> UQ_ACK" "cmd \<noteq> UQ_ACK_EVENT"
    and c: "c \<noteq> 0 \<longrightarrow> c \<le> 3 \<and> cmd = port_command (of_nat c) 0x12"
    and completed: "poll_verdict False (us_cci reply) = Some 0"
  shows "triple (wrote [cmd]) (uq_acknowledge (logged io) reply c sample)
    (\<lambda>(ret, reply) s. command_log cmd c ret (us_cci reply) (snd s))"
proof -
  define result where "result = command_result c (us_cci reply)"
  define ack where "ack = (if c \<noteq> 0 \<and> 0 \<le> result then UQ_ACK_EVENT else UQ_ACK)"
  have log: "command_log cmd c ret (us_cci reply) [ack, cmd]" if "ret < 0 \<or> ret = result" for ret
    using that cmd c completed_status [OF completed] acks_differ
    by (cases "c = 0") (auto simp: command_log_def ack_def result_def)
  show ?thesis
    unfolding uq_acknowledge_def Let_def result_def [symmetric] ack_def [symmetric]
  proof (rule triple_bind [OF triple_deadline], rule triple_bind [OF triple_write [OF io]], rule triple_if)
    fix ret :: int
    assume "ret \<noteq> 0"
    then show "triple (\<lambda>s. wrote [ack, cmd] s \<and> ret \<le> 0) (State_Monad.return (ret, reply))
        (\<lambda>(ret, reply) s. command_log cmd c ret (us_cci reply) (snd s))"
      by (intro triple_return) (auto intro!: log)
  next
    fix ret :: int
    have poll: "triple (\<lambda>s. wrote [ack, cmd] s \<and> ret \<le> 0) (uq_poll (logged io) sample True)
        (\<lambda>(ret, _) s. wrote [ack, cmd] s \<and> ret \<le> 0)"
      unfolding uq_poll_def by (rule triple_weaken [OF triple_poll_from [OF io, of "[ack, cmd]"]]) auto
    show "triple (\<lambda>s. wrote [ack, cmd] s \<and> ret \<le> 0) (do {
          (ret, sample) \<leftarrow> uq_poll (logged io) sample True;
          State_Monad.return (if ret \<noteq> 0 then ret else result, reply)
        }) (\<lambda>(ret, reply) s. command_log cmd c ret (us_cci reply) (snd s))"
      by (rule triple_bind [OF poll]) (auto intro!: triple_return log split: prod.splits)
  qed
qed

lemma log_refused: "ret < 0 \<Longrightarrow> command_log cmd c ret cci []"
  by (simp add: command_log_def)

lemma triple_command:
  assumes io: "errno_io io"
  shows "triple (wrote []) (uq_command_kind (logged io) cmd reply c)
    (\<lambda>(ret, reply) s. command_log cmd c ret (us_cci reply) (snd s))"
proof (cases "\<not> uq_allowed cmd \<or> cmd = UQ_ACK \<or> cmd = UQ_ACK_EVENT \<or>
    c \<noteq> 0 \<and> (3 < c \<or> cmd \<noteq> port_command (of_nat c) 0x12)")
  case True
  then have "uq_command_kind (logged io) cmd reply c = State_Monad.return (- EPERM, reply)"
    by (auto simp: uq_command_kind_def)
  then show ?thesis by (auto intro!: triple_return log_refused)
next
  case False
  then have cmd: "uq_allowed cmd" "cmd \<noteq> UQ_ACK" "cmd \<noteq> UQ_ACK_EVENT"
      and c: "c \<noteq> 0 \<longrightarrow> c \<le> 3 \<and> cmd = port_command (of_nat c) 0x12" by auto
  have written: "ret < 0 \<Longrightarrow> command_log cmd c ret cci [cmd]" for ret cci
    using cmd by (auto simp: command_log_def)
  have acked: "triple (\<lambda>s. wrote [cmd] s \<and> poll_verdict False (us_cci reply) = Some 0)
      (uq_acknowledge (logged io) reply c sample)
      (\<lambda>(ret, reply) s. command_log cmd c ret (us_cci reply) (snd s))" for reply sample
    using tripleD [OF triple_ack [OF io cmd c]] by (intro tripleI) blast
  have executed: "triple (wrote []) (uq_execute (logged io) cmd reply c sample)
      (\<lambda>(ret, reply) s. command_log cmd c ret (us_cci reply) (snd s))" for sample
    unfolding uq_execute_def uq_poll_def
  proof (rule triple_bind [OF triple_write [OF io]], rule triple_if)
    fix ret :: int
    assume "ret \<noteq> 0"
    then show "triple (\<lambda>s. wrote [cmd] s \<and> ret \<le> 0) (State_Monad.return (ret, reply))
        (\<lambda>(ret, reply) s. command_log cmd c ret (us_cci reply) (snd s))"
      by (intro triple_return) (auto intro!: written)
  next
    fix ret0 :: int
    have poll: "triple (\<lambda>s. wrote [cmd] s \<and> ret0 \<le> 0) (uq_poll_from (logged io) False 50 reply)
        (\<lambda>(ret, sample) s. wrote [cmd] s \<and> ret \<le> 0 \<and> (ret = 0 \<longrightarrow> poll_verdict False (us_cci sample) = Some 0))"
      by (rule triple_weaken [OF triple_poll_from [OF io, of "[cmd]"]]) auto
    show "triple (\<lambda>s. wrote [cmd] s \<and> ret0 \<le> 0) (do {
          (ret, reply) \<leftarrow> uq_poll_from (logged io) False 50 reply;
          if ret \<noteq> 0 then State_Monad.return (ret, reply) else uq_acknowledge (logged io) reply c sample
        }) (\<lambda>(ret, reply) s. command_log cmd c ret (us_cci reply) (snd s))"
      by (rule triple_bind [OF poll], simp only: split_beta)
        (rule triple_if, auto intro!: triple_return written triple_weaken [OF acked])
  qed
  have "uq_command_kind (logged io) cmd reply c = do {
        uq_io_deadline (logged io);
        (ret, sample) \<leftarrow> uq_read (logged io) no_sample;
        if ret \<noteq> 0 then State_Monad.return (ret, reply)
        else if us_cci sample AND NOT (UQ_ACKED OR 0xfe) \<noteq> 0 then State_Monad.return (- EBUSY, reply)
        else if c \<noteq> 0 \<and> cci_connector (us_cci sample) \<noteq> of_nat c then State_Monad.return (- EPROTO, reply)
        else uq_execute (logged io) cmd reply c sample
      }"
    unfolding uq_command_kind_def using False by (simp only: de_Morgan_disj not_not if_False simp_thms)
  also have "triple (wrote []) \<dots> (\<lambda>(ret, reply) s. command_log cmd c ret (us_cci reply) (snd s))"
    by (rule triple_bind [OF triple_deadline], rule triple_bind [OF triple_read [OF io]], simp only: split_beta)
      (intro triple_if, auto intro!: triple_return log_refused triple_weaken [OF executed])
  finally show ?thesis .
qed

section \<open>What the transport keeps, the protocol keeps\<close>

text \<open>
  The protocol touches the transport's state only through the four callbacks: a preorder on states that
  they all respect holds between the states before and after every command.  What needs no write, or only
  writes other than the acknowledgement of an event, needs the contract of a reader only.
\<close>

locale uq_reader = history_order +
  fixes io :: "'a uq_io"
  assumes keeps_read: "keeps R (uq_io_read io sample)"
    and keeps_pause: "keeps R (uq_io_pause io)"
    and keeps_deadline: "keeps R (uq_io_deadline io)"
begin

lemma keeps_uq_read: "keeps R (uq_read io sample)"
  unfolding uq_read_def by (intro keeps_rules keeps_read)

lemma keeps_uq_poll: "keeps R (uq_poll io sample ack)"
proof -
  have "keeps R (uq_poll_from io ack n sample)" for n
  proof (induction n arbitrary: sample)
    case (Suc n)
    have "keeps R (case poll_verdict ack (us_cci sample) of
        None \<Rightarrow> uq_io_pause io \<bind> (\<lambda>_. uq_poll_from io ack n sample)
      | Some ret \<Rightarrow> State_Monad.return (ret, sample))" for sample
      using Suc by (cases "poll_verdict ack (us_cci sample)") (simp_all add: keeps_return keeps_bind keeps_pause)
    then show ?case unfolding uq_poll_from.simps by (intro keeps_rules keeps_uq_read)
  qed (simp add: keeps_return)
  then show ?thesis by (simp add: uq_poll_def)
qed

lemma keeps_uq_pending: "keeps R (uq_pending io n)"
  unfolding uq_pending_def by (intro keeps_rules keeps_uq_read keeps_deadline)

text \<open>A command outside an event never writes the event's acknowledgement.\<close>

lemma keeps_uq_command:
  assumes "\<And>c. c \<noteq> UQ_ACK_EVENT \<Longrightarrow> keeps R (uq_io_write io c)"
  shows "keeps R (uq_command io cmd reply)"
proof -
  have "UQ_ACK \<noteq> UQ_ACK_EVENT" by (simp add: UQ_ACK_def UQ_ACK_EVENT_def)
  then show ?thesis
    unfolding uq_command_def uq_command_kind_def uq_execute_def uq_acknowledge_def Let_def
    by (intro keeps_rules keeps_uq_read keeps_uq_poll assms keeps_deadline) auto
qed

end

locale uq_transport = uq_reader +
  assumes keeps_write: "keeps R (uq_io_write io cmd)"
begin

lemma keeps_uq_command_kind: "keeps R (uq_command_kind io cmd reply c)"
  unfolding uq_command_kind_def uq_execute_def uq_acknowledge_def Let_def
  by (intro keeps_rules keeps_uq_read keeps_uq_poll keeps_write keeps_deadline)

end

text \<open>
  C18. On any transport whose callbacks report errors as negative numbers, and from any of its states, a
  command writes nothing, the command alone, or the command and one acknowledgement; it is written only
  when it is on the list.  A command that returns a result has been acknowledged.  A connector event is
  acknowledged only by a status command for that connector (1 to 3) whose reply is complete, without
  error, of 9 to 16 bytes and for the same connector.
\<close>

theorem uq_command_acks:
  assumes "errno_io io"
    and "run_state (uq_command_kind (logged io) cmd reply c) (s, []) = ((ret, reply'), (s', h))"
  shows "(h = [] \<or> uq_allowed cmd \<and> cmd \<noteq> UQ_ACK \<and> cmd \<noteq> UQ_ACK_EVENT \<and>
       (h = [cmd] \<or> h = [UQ_ACK, cmd] \<or> h = [UQ_ACK_EVENT, cmd])) \<and>
     (0 \<le> ret \<longrightarrow> h = [if c \<noteq> 0 then UQ_ACK_EVENT else UQ_ACK, cmd]) \<and>
     (UQ_ACK_EVENT \<in> set h \<longrightarrow>
       c \<in> {1, 2, 3} \<and> cmd = port_command (of_nat c) 0x12 \<and> status_reply c (us_cci reply'))"
  using tripleD [OF triple_command [OF assms(1), of cmd reply c] _ assms(2)] by (simp add: command_log_def)

text \<open>A transport that answers with a list of CCI words.\<close>

definition script_io :: "u32 list uq_io" where
  "script_io = \<lparr>uq_io_write = (\<lambda>_. State_Monad.return 0),
     uq_io_read = (\<lambda>sample. State (\<lambda>ccis. case ccis of
        [] \<Rightarrow> ((- ETIMEDOUT, sample), [])
      | cci # rest \<Rightarrow> ((0, sample\<lparr>us_version := 0x0120, us_cci := cci\<rparr>), rest))),
     uq_io_pause = State_Monad.return (), uq_io_deadline = State_Monad.return ()\<rparr>"

lemma script_errno: "errno_io script_io"
  by (auto simp: errno_io_def script_io_def rets_def split: list.splits)

theorem uq_command_acks_witness:
  "snd (snd (run_state (uq_command_kind (logged script_io) (port_command 1 0x12) no_sample 1)
     ([0x2, 0x80000902, 0x20000000], []))) = [UQ_ACK_EVENT, port_command 1 0x12] \<and>
   status_reply 1 0x80000902"
proof -
  obtain ret reply' s' h where run: "run_state (uq_command_kind (logged script_io) (port_command 1 0x12) no_sample 1)
     ([0x2, 0x80000902, 0x20000000], []) = ((ret, reply'), (s', h))" by (metis surj_pair)
  moreover have "fst (fst (run_state (uq_command_kind (logged script_io) (port_command 1 0x12) no_sample 1)
     ([0x2, 0x80000902, 0x20000000], []))) = 9 \<and>
     us_cci (snd (fst (run_state (uq_command_kind (logged script_io) (port_command 1 0x12) no_sample 1)
     ([0x2, 0x80000902, 0x20000000], [])))) = 0x80000902"
    by code_simp
  ultimately show ?thesis using uq_command_acks [OF script_errno run] by simp
qed

end
