(* ===== verification/X1_Query.thy ===== *)
theory X1_Query
  imports X1_Ucsi X1_Board X1_Time
begin

unbundle bit_operations_syntax

text \<open>
  The UCSI query and notification diagnostic,
  \<open>snapshot/kernel/drivers/soc/qcom/yoga_ucsi_snapshot.c\<close>, on the command layer of \<open>X1_Ucsi\<close>.

  The driver's operations hold its mutex, so they are programs on the object run one after the other.
  What happens under the spin lock meanwhile, the receive callback and the service-state callback, is a
  list of arrivals the environment chooses at the points where the running operation looks at what they
  share: before an exchange, between its locked section and the send, while it waits for the reply, and
  between operations.
\<close>

section \<open>The object\<close>

datatype arrival = Message "u8 list" | Service bool

datatype query_event =
    Q_now u64
  | Q_send "u8 list" int
  | Q_arrive "arrival list"
  | Q_sleep nat

record query =
  q_reply :: yoga_ucsi_sample
  q_done :: nat
  q_attempts :: nat
  q_commands :: nat
  q_notifications :: nat
  q_opcode :: u32
  q_deadline :: u64
  q_group_deadline :: u64
  q_error :: int
  q_reply_error :: int
  q_service_up :: bool
  q_awaiting :: bool
  q_initialized :: bool
  q_policy_attempted :: bool
  q_policy_active :: bool
  q_polls :: nat
  q_events :: nat
  q_policy_deadline :: u64
  q_scheduled :: bool
  q_connectors :: u8
  q_cap :: "u8 list"
  q_caps :: "u8 list list"
  q_status :: "u8 list list"
  q_cable :: "u8 list list"
  q_cam :: "u8 list"
  q_status_len :: "u8 list"
  q_cable_len :: "u8 list"
  q_features :: u16
  q_once :: bool
  q_hist :: "query_event list"

text \<open>
  The world around the driver: the clock, \<open>pmic_glink_send\<close>, what arrives, whether the NHI diagnostic
  is complete, and the kernel's tick rate.
\<close>

record glink =
  g_now :: "query_event list \<Rightarrow> u64"
  g_send :: "query_event list \<Rightarrow> int"
  g_arrive :: "query_event list \<Rightarrow> arrival list"
  g_nhi_complete :: "query_event list \<Rightarrow> bool"
  g_hz :: u64

definition qset :: "(query \<Rightarrow> query) \<Rightarrow> (query, unit) state" where
  "qset f = State (\<lambda>s. ((), f s))"

definition qget :: "(query \<Rightarrow> 'a) \<Rightarrow> (query, 'a) state" where
  "qget f = State (\<lambda>s. (f s, s))"

definition qevent :: "(query_event list \<Rightarrow> 'a) \<Rightarrow> ('a \<Rightarrow> query_event) \<Rightarrow> (query, 'a) state" where
  "qevent ans ev = State (\<lambda>s. (ans (q_hist s), s\<lparr>q_hist := ev (ans (q_hist s)) # q_hist s\<rparr>))"

definition jiffies :: "glink \<Rightarrow> (query, u64) state" where
  "jiffies env = qevent (g_now env) Q_now"

section \<open>Callbacks\<close>

text \<open>
  What the callback takes from the reply it waits for, and the whole callback.  A result is
  \<^const>\<open>None\<close> when the message is read outside its bytes.
\<close>

definition callback_reply :: "u8 list \<Rightarrow> u32 \<Rightarrow> yoga_ucsi_sample \<Rightarrow> (int \<times> yoga_ucsi_sample) option" where
  "callback_reply p opcode reply =
     (if opcode = 0x11
      then if length p = 64
        then map_option (\<lambda>(ret, out). (ret, the out)) (yoga_ucsi_decode (Some p) (length p) (Some reply))
        else Some (- EMSGSIZE, reply)
      else if length p \<noteq> 16 then Some (- EMSGSIZE, reply)
      else do {
        kind \<leftarrow> get_unaligned_le32 p 4;
        status \<leftarrow> get_unaligned_le32 p 12;
        Some (if kind \<noteq> 1 then - EBADMSG else if status \<noteq> 0 then - EREMOTEIO else 0, reply)
      })"

definition query_callback :: "u8 list \<Rightarrow> query \<Rightarrow> query option" where
  "query_callback p s =
     (if length p < 12 then Some s
      else do {
        owner \<leftarrow> get_unaligned_le32 p 0;
        if owner \<noteq> 32779 then Some s
        else do {
          opcode \<leftarrow> get_unaligned_le32 p 8;
          if opcode = 0x13 then do {
            kind \<leftarrow> get_unaligned_le32 p 4;
            Some (if length p = 24 \<and> kind = 2 then s\<lparr>q_notifications := q_notifications s + 1\<rparr> else s)
          }
          else if opcode = q_opcode s \<and> q_awaiting s then do {
            (err, reply) \<leftarrow> callback_reply p opcode (q_reply s);
            Some (s\<lparr>q_reply := reply, q_reply_error := err, q_awaiting := False, q_done := q_done s + 1\<rparr>)
          }
          else Some s
        }
      })"

definition query_pdr :: "bool \<Rightarrow> query \<Rightarrow> query" where
  "query_pdr up s =
     (let s = s\<lparr>q_service_up := up\<rparr>
      in if \<not> up \<and> q_attempts s \<noteq> 0
         then s\<lparr>q_error := if q_error s = 0 then - ENOTCONN else q_error s,
                q_awaiting := False, q_done := q_done s + 1\<rparr>
         else s)"

fun deliver :: "arrival \<Rightarrow> query \<Rightarrow> query" where
  "deliver (Message p) s = the (query_callback p s)"
| "deliver (Service up) s = query_pdr up s"

definition arrive :: "glink \<Rightarrow> (query, unit) state" where
  "arrive env = do {
     as \<leftarrow> qevent (g_arrive env) Q_arrive;
     qset (fold deliver as)
   }"

section \<open>One exchange\<close>

definition query_left :: "glink \<Rightarrow> (query, u64) state" where
  "query_left env = do {
     now \<leftarrow> jiffies env;
     s \<leftarrow> qget (\<lambda>s. s);
     State_Monad.return
       (if time_after_eq now (q_deadline s) \<or> time_after_eq now (q_group_deadline s) then 0
        else min (q_deadline s - now) (q_group_deadline s - now))
   }"

definition query_request :: "u32 \<Rightarrow> u64 \<Rightarrow> u8 list option" where
  "query_request opcode command = do {
     request \<leftarrow> put_unaligned_le32 32779 (replicate 64 0) 0;
     request \<leftarrow> put_unaligned_le32 1 request 4;
     request \<leftarrow> put_unaligned_le32 opcode request 8;
     request \<leftarrow> (if opcode = 0x12 then put_unaligned_le64 command request 20 else Some request);
     Some (take (if opcode = 0x11 then 12 else 64) request)
   }"

text \<open>The locked section before the request; its result is 0 when the exchange may start.\<close>

definition exchange_open :: "glink \<Rightarrow> u32 \<Rightarrow> (query, int) state" where
  "exchange_open env opcode = do {
     arrive env;
     s \<leftarrow> qget (\<lambda>s. s);
     ret \<leftarrow> (if q_error s \<noteq> 0 then State_Monad.return (q_error s)
       else if \<not> q_service_up s then State_Monad.return (- ENOTCONN)
       else do {
         left \<leftarrow> query_left env;
         State_Monad.return (if left = 0 then - ETIMEDOUT else 0)
       });
     if ret \<noteq> 0 then do {
       qset (q_error_update (\<lambda>_. ret));
       State_Monad.return ret
     }
     else do {
       qset (\<lambda>s. s\<lparr>q_done := 0, q_reply_error := - ETIMEDOUT, q_opcode := opcode, q_awaiting := True\<rparr>);
       State_Monad.return 0
     }
   }"

text \<open>The wait for the reply: the result of \<open>wait_for_completion_timeout\<close> where it is called.\<close>

definition exchange_wait :: "glink \<Rightarrow> int \<Rightarrow> (query, int) state" where
  "exchange_wait env ret = do {
     arrive env;
     left \<leftarrow> query_left env;
     if ret \<noteq> 0 then State_Monad.return ret
     else if left = 0 then State_Monad.return (- ETIMEDOUT)
     else do {
       arrive env;
       n \<leftarrow> qget q_done;
       if n = 0 then State_Monad.return (- ETIMEDOUT)
       else do {
         qset (q_done_update (\<lambda>n. n - 1));
         State_Monad.return 0
       }
     }
   }"

definition exchange_close :: "int \<Rightarrow> yoga_ucsi_sample \<Rightarrow> (query, int \<times> yoga_ucsi_sample) state" where
  "exchange_close ret sample = do {
     qset (q_awaiting_update (\<lambda>_. False));
     s \<leftarrow> qget (\<lambda>s. s);
     let ret = (if q_error s \<noteq> 0 then q_error s else ret);
     let ret = (if ret = 0 then q_reply_error s else ret);
     if ret \<noteq> 0 then do {
       qset (q_error_update (\<lambda>_. ret));
       State_Monad.return (ret, sample)
     }
     else State_Monad.return (0, q_reply s)
   }"

definition query_exchange ::
    "glink \<Rightarrow> u32 \<Rightarrow> u64 \<Rightarrow> yoga_ucsi_sample \<Rightarrow> (query, int \<times> yoga_ucsi_sample) state" where
  "query_exchange env opcode command sample =
     (if opcode \<noteq> 0x11 \<and> opcode \<noteq> 0x12 then State_Monad.return (- EPERM, sample)
      else if opcode = 0x12 \<and> \<not> uq_allowed command then State_Monad.return (- EPERM, sample)
      else do {
        ret \<leftarrow> exchange_open env opcode;
        if ret \<noteq> 0 then State_Monad.return (ret, sample)
        else do {
          arrive env;
          ret \<leftarrow> qevent (g_send env) (Q_send (the (query_request opcode command)));
          ret \<leftarrow> exchange_wait env ret;
          exchange_close ret sample
        }
      })"

definition query_write :: "glink \<Rightarrow> u64 \<Rightarrow> (query, int) state" where
  "query_write env cmd = do {
     (ret, _) \<leftarrow> query_exchange env 0x12 cmd no_sample;
     State_Monad.return ret
   }"

definition query_read :: "glink \<Rightarrow> yoga_ucsi_sample \<Rightarrow> (query, int \<times> yoga_ucsi_sample) state" where
  "query_read env sample = query_exchange env 0x11 0 sample"

definition query_pause :: "(query, unit) state" where
  "query_pause = qevent (\<lambda>_. ()) (\<lambda>_. Q_sleep 100)"

definition query_deadline :: "glink \<Rightarrow> (query, unit) state" where
  "query_deadline env = do {
     now \<leftarrow> jiffies env;
     qset (q_deadline_update (\<lambda>_. now + 5 * g_hz env))
   }"

definition query_io :: "glink \<Rightarrow> query uq_io" where
  "query_io env = \<lparr>uq_io_write = query_write env, uq_io_read = query_read env,
     uq_io_pause = query_pause, uq_io_deadline = query_deadline env\<rparr>"

section \<open>Queries\<close>

text \<open>The second component is what \<open>memcpy\<close> stores through \<open>data\<close>.\<close>

definition run_query :: "glink \<Rightarrow> u64 \<Rightarrow> int \<Rightarrow> int \<Rightarrow> bool \<Rightarrow> (query, int \<times> u8 list) state" where
  "run_query env cmd minimum maximum optional = do {
     (ret, reply) \<leftarrow> uq_command (query_io env) cmd no_sample;
     qset (\<lambda>s. s\<lparr>q_commands := q_commands s + 1\<rparr>);
     State_Monad.return
       (if ret = - EOPNOTSUPP \<and> optional then (0, [])
        else if ret < 0 then (ret, [])
        else if ret < minimum \<or> maximum < ret then (- EPROTO, [])
        else (ret, take (nat ret) (drop 16 (us_prefix reply))))
   }"

definition stored :: "u8 list \<Rightarrow> u8 list \<Rightarrow> u8 list" where
  "stored old bytes = bytes @ drop (length bytes) old"

text \<open>Connector \<open>i\<close> and the ones after it; \<open>n\<close> are left.\<close>

fun collect_caps :: "glink \<Rightarrow> nat \<Rightarrow> nat \<Rightarrow> (query, int) state" where
  "collect_caps env i 0 = State_Monad.return 0"
| "collect_caps env i (Suc n) = do {
     (ret, bytes) \<leftarrow> run_query env (port_command (of_nat (i + 1)) 7) 2 4 False;
     if ret < 0 then State_Monad.return ret
     else do {
       qset (\<lambda>s. s\<lparr>q_caps := (q_caps s)[i := stored (q_caps s ! i) bytes]\<rparr>);
       collect_caps env (i + 1) n
     }
   }"

definition collect_init :: "glink \<Rightarrow> (query, int) state" where
  "collect_init env = do {
     (ret, _) \<leftarrow> run_query env UQ_NOTIFY 0 0 False;
     if ret < 0 then State_Monad.return ret
     else do {
       (ret, bytes) \<leftarrow> run_query env 6 16 16 False;
       if ret < 0 then State_Monad.return ret
       else do {
         qset (\<lambda>s. s\<lparr>q_cap := stored (q_cap s) bytes\<rparr>);
         qset (\<lambda>s. s\<lparr>q_connectors := q_cap s ! 4\<rparr>);
         n \<leftarrow> qget q_connectors;
         if n = 0 \<or> 3 < n then State_Monad.return (- ERANGE)
         else do {
           qset (\<lambda>s. s\<lparr>q_features := the (get_unaligned_le16 (q_cap s) 5)\<rparr>);
           ret \<leftarrow> collect_caps env 0 (unat n);
           if ret < 0 then State_Monad.return ret
           else do {
             qset (q_initialized_update (\<lambda>_. True));
             State_Monad.return 0
           }
         }
       }
     }
   }"

fun collect_recipients :: "glink \<Rightarrow> nat \<Rightarrow> u64 list \<Rightarrow> (query, int) state" where
  "collect_recipients env i [] = State_Monad.return 0"
| "collect_recipients env i (recipient # rs) = do {
     (ret, _) \<leftarrow> run_query env (alternate_command (of_nat (i + 1)) recipient) 0 6 True;
     if ret < 0 then State_Monad.return ret else collect_recipients env i rs
   }"

text \<open>The accessory queries of one connector.\<close>

definition collect_partner :: "glink \<Rightarrow> nat \<Rightarrow> (query, int) state" where
  "collect_partner env i = do {
     features \<leftarrow> qget q_features;
     ret \<leftarrow> (if bit features 5 then do {
         (ret, bytes) \<leftarrow> run_query env (port_command (of_nat (i + 1)) 0x11) 5 8 True;
         if ret < 0 then State_Monad.return ret
         else do {
           qset (\<lambda>s. s\<lparr>q_cable := (q_cable s)[i := stored (q_cable s ! i) bytes],
             q_cable_len := (q_cable_len s)[i := of_int ret]\<rparr>);
           State_Monad.return 0
         }
       } else State_Monad.return 0);
     if ret < 0 then State_Monad.return ret
     else if \<not> bit features 2 then State_Monad.return 0
     else do {
       (ret, bytes) \<leftarrow> run_query env (port_command (of_nat (i + 1)) 0x0e) 1 1 True;
       if ret < 0 then State_Monad.return ret
       else do {
         qset (\<lambda>s. s\<lparr>q_cam := take i (q_cam s) @ stored (drop i (q_cam s)) bytes\<rparr>);
         collect_recipients env i [1, 2]
       }
     }
   }"

fun collect_status :: "glink \<Rightarrow> nat \<Rightarrow> nat \<Rightarrow> (query, int) state" where
  "collect_status env i 0 = State_Monad.return 0"
| "collect_status env i (Suc n) = do {
     (ret, bytes) \<leftarrow> run_query env (port_command (of_nat (i + 1)) 0x12) 9 16 False;
     if ret < 0 then State_Monad.return ret
     else do {
       qset (\<lambda>s. s\<lparr>q_status := (q_status s)[i := stored (q_status s ! i) bytes],
         q_status_len := (q_status_len s)[i := of_int ret]\<rparr>);
       row \<leftarrow> qget (\<lambda>s. q_status s ! i);
       let status = the (get_unaligned_le32 row 0);
       let partner = drop_bit 29 status AND 7;
       ret \<leftarrow> (if \<not> bit status 19 \<or> (partner \<noteq> 2 \<and> partner \<noteq> 4) then State_Monad.return 0
         else collect_partner env i);
       if ret < 0 then State_Monad.return ret else collect_status env (i + 1) n
     }
   }"

definition query_collect :: "glink \<Rightarrow> (query, int) state" where
  "query_collect env = do {
     initialized \<leftarrow> qget q_initialized;
     ret \<leftarrow> (if initialized then State_Monad.return 0 else collect_init env);
     if ret < 0 then State_Monad.return ret
     else do {
       qset (\<lambda>s. s\<lparr>q_status := replicate 3 (replicate 16 0), q_cable := replicate 3 (replicate 16 0),
         q_status_len := replicate 3 0, q_cable_len := replicate 3 0, q_cam := replicate 3 0xff\<rparr>);
       n \<leftarrow> qget q_connectors;
       collect_status env 0 (unat n)
     }
   }"

text \<open>\<open>query_drain\<close> with \<open>n\<close> rounds left.\<close>

fun drain_from :: "glink \<Rightarrow> nat \<Rightarrow> (query, int) state" where
  "drain_from env 0 = State_Monad.return 0"
| "drain_from env (Suc n) = do {
     connectors \<leftarrow> qget q_connectors;
     connector \<leftarrow> uq_pending (query_io env) (unat connectors);
     if connector \<le> 0 then State_Monad.return connector
     else do {
       events \<leftarrow> qget q_events;
       if 64 \<le> events then State_Monad.return (- ENOSPC)
       else do {
         (ret, reply) \<leftarrow> uq_command_kind (query_io env) (port_command (of_int connector) 0x12) no_sample (nat connector);
         qset (\<lambda>s. s\<lparr>q_commands := q_commands s + 1\<rparr>);
         if ret < 0 then State_Monad.return ret
         else do {
           qset (\<lambda>s. s\<lparr>q_events := q_events s + 1\<rparr>);
           drain_from env n
         }
       }
     }
   }"

definition query_drain :: "glink \<Rightarrow> (query, int) state" where
  "query_drain env = drain_from env 8"


section \<open>The policy worker and the attributes\<close>

definition query_fail :: "int \<Rightarrow> (query, unit) state" where
  "query_fail ret = qset (\<lambda>s. s\<lparr>q_error := if ret \<noteq> 0 \<and> q_error s = 0 then ret else q_error s,
     q_policy_active := False\<rparr>)"

text \<open>The group deadline of a run inside the policy window.\<close>

definition group_deadline :: "glink \<Rightarrow> u64 \<Rightarrow> (query, unit) state" where
  "group_deadline env seconds = do {
     now \<leftarrow> jiffies env;
     qset (q_group_deadline_update (\<lambda>_. now + seconds * g_hz env))
   }"

definition cap_group_deadline :: "(query, unit) state" where
  "cap_group_deadline = qset (\<lambda>s. if time_after (q_group_deadline s) (q_policy_deadline s)
     then s\<lparr>q_group_deadline := q_policy_deadline s\<rparr> else s)"

text \<open>One poll of the worker, from the error it reads; and the worker.\<close>

definition policy_poll :: "glink \<Rightarrow> int \<Rightarrow> (query, int) state" where
  "policy_poll env err = do {
     ret \<leftarrow> (if err \<noteq> 0 then State_Monad.return err
       else do {
         now \<leftarrow> jiffies env;
         s \<leftarrow> qget (\<lambda>s. s);
         State_Monad.return (if time_after_eq now (q_policy_deadline s) \<or> 300 \<le> q_polls s then - ETIMEDOUT else 0)
       });
     if ret \<noteq> 0 then State_Monad.return ret
     else do {
       qset (\<lambda>s. s\<lparr>q_polls := q_polls s + 1\<rparr>);
       group_deadline env 20;
       cap_group_deadline;
       query_drain env
     }
   }"

definition policy_worker :: "glink \<Rightarrow> (query, unit) state" where
  "policy_worker env = do {
     qset (q_scheduled_update (\<lambda>_. False));
     active \<leftarrow> qget q_policy_active;
     if \<not> active then State_Monad.return ()
     else do {
       arrive env;
       err \<leftarrow> qget q_error;
       ret \<leftarrow> policy_poll env err;
       if ret \<noteq> 0 then query_fail ret else qset (q_scheduled_update (\<lambda>_. True))
     }
   }"

definition policy_stop :: "(query, unit) state" where
  "policy_stop = do {
     query_fail 0;
     qset (q_scheduled_update (\<lambda>_. False))
   }"

text \<open>
  The attributes receive what \<open>kstrtobool\<close> makes of the written text: an error, or the value.  A
  successful write returns the count of bytes it was given, here 0.
\<close>

definition policy_enable :: "glink \<Rightarrow> (query, int) state" where
  "policy_enable env = do {
     arrive env;
     s \<leftarrow> qget (\<lambda>s. s);
     if q_error s \<noteq> 0 then State_Monad.return (q_error s)
     else if \<not> q_service_up s then State_Monad.return (- ENOTCONN)
     else if \<not> q_initialized s \<or> q_connectors s \<noteq> 3 \<or> q_features s \<noteq> 4
       then State_Monad.return (- EPROTONOSUPPORT)
     else if q_once s then State_Monad.return (- EPERM)
     else do {
       qset (\<lambda>s. s\<lparr>q_once := True, q_policy_attempted := True\<rparr>);
       now \<leftarrow> jiffies env;
       qset (q_policy_deadline_update (\<lambda>_. now + 300 * g_hz env));
       group_deadline env 20;
       (ret, _) \<leftarrow> run_query env UQ_NOTIFY_READY 0 0 False;
       ret \<leftarrow> (if ret = 0 then query_drain env else State_Monad.return ret);
       if ret \<noteq> 0 then do {
         query_fail ret;
         State_Monad.return ret
       }
       else do {
         qset (\<lambda>s. s\<lparr>q_policy_active := True, q_scheduled := True\<rparr>);
         State_Monad.return 0
       }
     }
   }"

definition policy_store :: "glink \<Rightarrow> int + bool \<Rightarrow> (query, int) state" where
  "policy_store env parsed =
     (case parsed of
        Inl ret \<Rightarrow> State_Monad.return ret
      | Inr False \<Rightarrow> do {
          policy_stop;
          State_Monad.return 0
        }
      | Inr True \<Rightarrow> do {
          complete \<leftarrow> qget (\<lambda>s. g_nhi_complete env (q_hist s));
          if \<not> complete then State_Monad.return (- EPERM) else policy_enable env
        })"

text \<open>The locked admission of \<open>query_store\<close>, then its body.\<close>

definition query_admit :: "glink \<Rightarrow> (query, int) state" where
  "query_admit env = do {
     arrive env;
     s \<leftarrow> qget (\<lambda>s. s);
     let ret = (if q_error s \<noteq> 0 then q_error s else if \<not> q_service_up s then - ENOTCONN
       else if 3 \<le> q_attempts s then - ENOSPC else 0);
     if ret \<noteq> 0 then State_Monad.return ret
     else do {
       qset (\<lambda>s. s\<lparr>q_attempts := q_attempts s + 1\<rparr>);
       State_Monad.return 0
     }
   }"

definition query_settle :: "glink \<Rightarrow> int \<Rightarrow> (query, int) state" where
  "query_settle env ret = do {
     arrive env;
     err \<leftarrow> qget q_error;
     let ret = (if err \<noteq> 0 then err else ret);
     if ret \<noteq> 0 then do {
       qset (q_error_update (\<lambda>_. ret));
       State_Monad.return ret
     }
     else State_Monad.return 0
   }"

definition query_round :: "glink \<Rightarrow> (query, int) state" where
  "query_round env = do {
     group_deadline env 60;
     s \<leftarrow> qget (\<lambda>s. s);
     if q_policy_attempted s \<and> \<not> q_policy_active s then State_Monad.return (- ESHUTDOWN)
     else do {
       ret \<leftarrow> (if q_policy_attempted s then do {
           cap_group_deadline;
           query_drain env
         } else State_Monad.return 0);
       if ret \<noteq> 0 then query_settle env ret
       else do {
         ret \<leftarrow> query_collect env;
         active \<leftarrow> qget q_policy_active;
         ret \<leftarrow> (if ret = 0 \<and> active then query_drain env else State_Monad.return ret);
         query_settle env ret
       }
     }
   }"

definition query_store :: "glink \<Rightarrow> int + bool \<Rightarrow> (query, int) state" where
  "query_store env parsed =
     (if parsed \<noteq> Inr True then State_Monad.return (- EINVAL)
      else do {
        complete \<leftarrow> qget (\<lambda>s. g_nhi_complete env (q_hist s));
        if \<not> complete then State_Monad.return (- EPERM)
        else do {
          ret \<leftarrow> query_admit env;
          if ret \<noteq> 0 then State_Monad.return ret else query_round env
        }
      })"

text \<open>
  \<open>query_probe\<close>: the board checks, then a zeroed object; \<open>setup\<close> is the result of the allocations and
  registrations that follow.
\<close>

definition query_zero :: "query_event list \<Rightarrow> bool \<Rightarrow> query" where
  "query_zero h once = \<lparr>q_reply = no_sample, q_done = 0, q_attempts = 0, q_commands = 0, q_notifications = 0,
     q_opcode = 0, q_deadline = 0, q_group_deadline = 0, q_error = 0, q_reply_error = 0, q_service_up = False,
     q_awaiting = False, q_initialized = False, q_policy_attempted = False, q_policy_active = False,
     q_polls = 0, q_events = 0, q_policy_deadline = 0, q_scheduled = False, q_connectors = 0,
     q_cap = replicate 16 0, q_caps = replicate 3 (replicate 4 0), q_status = replicate 3 (replicate 16 0),
     q_cable = replicate 3 (replicate 16 0), q_cam = replicate 3 0, q_status_len = replicate 3 0,
     q_cable_len = replicate 3 0, q_features = 0, q_once = once, q_hist = h\<rparr>"

definition query_probe :: "board \<Rightarrow> int \<Rightarrow> query \<Rightarrow> int \<times> query" where
  "query_probe b setup s =
     (if \<not> x1_diag_board_allowed b \<or> \<not> root_property b ''birk,usb4-retimer-test'' then (- EPERM, s)
      else if setup \<noteq> 0 then (setup, s)
      else (0, query_zero (q_hist s) (q_once s)))"

definition query_remove :: "(query, unit) state" where
  "query_remove = policy_stop"

text \<open>What can happen to the driver, in any order.\<close>

datatype query_op =
    Op_query "int + bool"
  | Op_policy "int + bool"
  | Op_worker
  | Op_arrive
  | Op_remove

definition query_do :: "glink \<Rightarrow> query_op \<Rightarrow> query \<Rightarrow> query" where
  "query_do env op s = (case op of
     Op_query parsed \<Rightarrow> snd (run_state (query_store env parsed) s)
   | Op_policy parsed \<Rightarrow> snd (run_state (policy_store env parsed) s)
   | Op_worker \<Rightarrow> snd (run_state (policy_worker env) s)
   | Op_arrive \<Rightarrow> snd (run_state (arrive env) s)
   | Op_remove \<Rightarrow> snd (run_state query_remove s))"

inductive query_reach :: "glink \<Rightarrow> query \<Rightarrow> query \<Rightarrow> bool" for env s where
  probed: "query_reach env s s"
| happens: "query_reach env s t \<Longrightarrow> op = Op_worker \<longrightarrow> q_scheduled t \<Longrightarrow> query_reach env s (query_do env op t)"

section \<open>What goes over the wire\<close>

definition read_message :: "u8 list" where
  "read_message = le32_bytes 32779 @ le32_bytes 1 @ le32_bytes 0x11"

definition write_message :: "u64 \<Rightarrow> u8 list" where
  "write_message cmd = le32_bytes 32779 @ le32_bytes 1 @ le32_bytes 0x12 @ replicate 8 0 @ le64_bytes cmd @ replicate 36 0"

definition permitted :: "u8 list \<Rightarrow> bool" where
  "permitted m \<longleftrightarrow> m = read_message \<or> (\<exists>cmd. uq_allowed cmd \<and> m = write_message cmd)"

lemma blank_request: "replicate 64 (0 :: u8) =
    replicate 4 0 @ replicate 4 0 @ replicate 4 0 @ replicate 8 0 @ replicate 8 0 @ replicate 36 0"
  by (simp add: replicate_add [symmetric])

lemma query_request_read: "query_request 0x11 c = Some read_message"
  by (simp add: query_request_def put_defs put_bytes_def read_message_def blank_request)

lemma query_request_write: "query_request 0x12 c = Some (write_message c)"
  by (simp add: query_request_def put_defs put_bytes_def write_message_def blank_request)

fun sends :: "query_event list \<Rightarrow> u8 list list" where
  "sends [] = []"
| "sends (Q_send m r # h) = m # sends h"
| "sends (_ # h) = sends h"

lemma sends_append [simp]: "sends (g @ h) = sends g @ sends h"
  by (induction g rule: sends.induct) simp_all

lemma le64_bytes_inject: "le64_bytes v = le64_bytes w \<Longrightarrow> v = w"
proof (rule bit_word_eqI)
  fix n
  assume eq: "le64_bytes v = le64_bytes w" and "n < LENGTH(64)"
  then have "n div 8 \<in> {0, 1, 2, 3, 4, 5, 6, 7}" by auto
  then have "(ucast (drop_bit (8 * (n div 8)) v) :: u8) = ucast (drop_bit (8 * (n div 8)) w)"
    using eq unfolding le64_bytes_def map_eq_conv by fastforce
  then have "bit (ucast (drop_bit (8 * (n div 8)) v) :: u8) (n mod 8) = bit (ucast (drop_bit (8 * (n div 8)) w) :: u8) (n mod 8)"
    by simp
  then show "bit v n = bit w n" by (simp add: bit_ucast_iff bit_drop_bit_eq)
qed

text \<open>The acknowledgements of connector events that were sent.\<close>

definition event_acks :: "query_event list \<Rightarrow> nat" where
  "event_acks h = length (filter (\<lambda>m. m = write_message UQ_ACK_EVENT) (sends h))"

abbreviation acks :: "query \<Rightarrow> nat" where
  "acks s \<equiv> event_acks (q_hist s)"

lemma message_is_ack:
  "read_message \<noteq> write_message c" "write_message c = write_message UQ_ACK_EVENT \<longleftrightarrow> c = UQ_ACK_EVENT"
proof -
  have "length read_message \<noteq> length (write_message c)" by (simp add: read_message_def write_message_def)
  then show "read_message \<noteq> write_message c" by metis
  show "write_message c = write_message UQ_ACK_EVENT \<longleftrightarrow> c = UQ_ACK_EVENT"
    by (auto simp: write_message_def dest: le64_bytes_inject)
qed

text \<open>
  \<open>obeys s s'\<close>: from \<open>s\<close> to \<open>s'\<close> only permitted messages were sent, and when \<open>s\<close> had failed, nothing
  was sent and the error is still the same.  \<open>mild\<close> adds that the counters of rounds, polls and events
  stayed, \<open>calm\<close> also that no event was acknowledged.
\<close>

definition obeys :: "query \<Rightarrow> query \<Rightarrow> bool" where
  "obeys s s' \<longleftrightarrow> (\<exists>new. q_hist s' = new @ q_hist s \<and> list_all permitted (sends new) \<and>
     (q_error s \<noteq> 0 \<longrightarrow> q_error s' = q_error s \<and> sends new = []))"

definition mild :: "query \<Rightarrow> query \<Rightarrow> bool" where
  "mild s s' \<longleftrightarrow> obeys s s' \<and> q_attempts s' = q_attempts s \<and> q_polls s' = q_polls s \<and> q_events s' = q_events s"

definition calm :: "query \<Rightarrow> query \<Rightarrow> bool" where
  "calm s s' \<longleftrightarrow> mild s s' \<and> acks s' \<le> acks s"

lemma obeysI:
  "q_hist s' = new @ q_hist s \<Longrightarrow> list_all permitted (sends new) \<Longrightarrow>
     (q_error s \<noteq> 0 \<Longrightarrow> q_error s' = q_error s \<and> sends new = []) \<Longrightarrow> obeys s s'"
  unfolding obeys_def by blast

lemma obeys_trans: "obeys s t \<Longrightarrow> obeys t u \<Longrightarrow> obeys s u"
proof -
  assume "obeys s t" and "obeys t u"
  then obtain n m where "q_hist t = n @ q_hist s" "list_all permitted (sends n)"
      "q_error s \<noteq> 0 \<longrightarrow> q_error t = q_error s \<and> sends n = []"
      "q_hist u = m @ q_hist t" "list_all permitted (sends m)"
      "q_error t \<noteq> 0 \<longrightarrow> q_error u = q_error t \<and> sends m = []"
    unfolding obeys_def by blast
  then show ?thesis by (intro obeysI [of _ "m @ n"]) auto
qed

lemma obeys_refl: "obeys s s"
  by (rule obeysI [of _ "[]"]) simp_all

interpretation obeys: history_order obeys
  by unfold_locales (rule obeys_refl, rule obeys_trans)

interpretation mild: history_order mild
  by unfold_locales (auto simp: mild_def obeys_refl intro: obeys_trans)

interpretation calm: history_order calm
  by unfold_locales (auto simp: calm_def mild.refl intro: mild.trans)

lemma calm_mild: "keeps calm m \<Longrightarrow> keeps mild m"
  by (simp add: keeps_def calm_def)

lemma calm_adds: "keeps calm m \<Longrightarrow> adds acks 0 m"
  by (simp add: keeps_def calm_def adds_def)

lemma calm_silent:
  assumes "q_hist s' = q_hist s" and "q_error s \<noteq> 0 \<Longrightarrow> q_error s' = q_error s"
    and "q_attempts s' = q_attempts s" and "q_polls s' = q_polls s" and "q_events s' = q_events s"
  shows "calm s s'"
  using assms by (simp add: calm_def mild_def) (rule obeysI [of _ "[]"], simp_all)

lemma run_qset [simp]: "run_state (qset f) s = ((), f s)"
  by (simp add: qset_def)

lemma run_qget [simp]: "run_state (qget f) s = (f s, s)"
  by (simp add: qget_def)

lemma run_qevent [simp]:
  "run_state (qevent ans ev) s = (ans (q_hist s), s\<lparr>q_hist := ev (ans (q_hist s)) # q_hist s\<rparr>)"
  by (simp add: qevent_def)

lemma keeps_qset: "(\<And>s. R s (f s)) \<Longrightarrow> keeps R (qset f)"
  by (simp add: keeps_def)

lemma keeps_qget: "keeps calm (qget f)" "keeps obeys (qget f)"
  by (simp_all add: keeps_def calm.refl obeys.refl)

lemma calm_event:
  assumes "\<And>a. sends [ev a] = []"
  shows "keeps calm (qevent ans ev)"
proof -
  have "obeys s (s\<lparr>q_hist := ev a # q_hist s\<rparr>)" for s a
    using assms [of a] by (intro obeysI [of _ "[ev a]"]) simp_all
  moreover have "event_acks (ev a # h) = event_acks h" for a h
    using assms [of a] sends_append [of "[ev a]" h] by (simp add: event_acks_def)
  ultimately show ?thesis by (simp add: keeps_def calm_def mild_def)
qed

lemma calm_jiffies: "keeps calm (jiffies env)"
  unfolding jiffies_def by (rule calm_event) simp

lemma callback_reply_total: "\<exists>err out. callback_reply p opcode reply = Some (err, out)"
proof -
  obtain ret out where "yoga_ucsi_decode (Some p) (length p) (Some reply) = Some (ret, Some out)"
    using ucsi_decode_total by blast
  moreover have "length p = 16 \<Longrightarrow> \<exists>v w. get_unaligned_le32 p 4 = Some v \<and> get_unaligned_le32 p 12 = Some w"
    using get_le32_Some [of 12 p] get_le32_Some [of 4 p] by simp
  ultimately show ?thesis unfolding callback_reply_def by (cases "length p = 16") auto
qed

lemma callback_cases:
  obtains s' where "query_callback p s = Some s'" and "calm s s'" and "q_hist s' = q_hist s"
proof (cases "length p < 12")
  case True
  then show ?thesis using that calm.refl by (simp add: query_callback_def)
next
  case False
  then obtain owner kind opcode where gets: "get_unaligned_le32 p 0 = Some owner"
      "get_unaligned_le32 p 4 = Some kind" "get_unaligned_le32 p 8 = Some opcode"
    using get_le32_Some [of 0 p] get_le32_Some [of 4 p] get_le32_Some [of 8 p] by auto
  obtain err out where r: "callback_reply p opcode (q_reply s) = Some (err, out)"
    using callback_reply_total by blast
  let ?n = "s\<lparr>q_notifications := q_notifications s + 1\<rparr>"
  let ?r = "s\<lparr>q_reply := out, q_reply_error := err, q_awaiting := False, q_done := q_done s + 1\<rparr>"
  have "calm s ?n" and "calm s ?r" by (simp_all add: calm_silent)
  have "query_callback p s = Some (if owner \<noteq> 32779 then s
      else if opcode = 0x13 then if length p = 24 \<and> kind = 2 then ?n else s
      else if opcode = q_opcode s \<and> q_awaiting s then ?r else s)"
    using False gets r by (auto simp: query_callback_def)
  then show ?thesis by (rule that) (simp_all add: calm.refl \<open>calm s ?n\<close> [simplified] \<open>calm s ?r\<close> [simplified] split: if_split)
qed

lemma calm_deliver: "calm s (deliver a s)"
proof (cases a)
  case (Message p)
  then show ?thesis using callback_cases [of p s] by (metis deliver.simps(1) option.sel)
next
  case (Service up)
  then show ?thesis by (auto simp: query_pdr_def Let_def intro: calm_silent)
qed

lemma calm_fold_deliver: "calm s (fold deliver as s)"
  by (induction as arbitrary: s) (auto intro: calm.refl calm.trans calm_deliver)

lemma calm_arrive: "keeps calm (arrive env)"
  unfolding arrive_def
  by (intro calm.keeps_bind calm_event keeps_qset calm_fold_deliver) simp

lemma calm_left: "keeps calm (query_left env)"
  unfolding query_left_def by (intro calm.keeps_rules calm_jiffies keeps_qget)

text \<open>A calm program in the middle of a triple.\<close>

lemma triple_calm: "keeps calm m \<Longrightarrow> triple (calm s0) m (\<lambda>_. calm s0)"
  unfolding triple_def keeps_def by (metis calm.trans snd_conv)

lemma open_triple: "triple (\<lambda>s. s = s0) (exchange_open env opcode) (\<lambda>ret s. calm s0 s \<and> (ret = 0 \<longrightarrow> q_error s0 = 0))"
proof (rule tripleI)
  fix s ret s'
  assume "s = s0" and run: "run_state (exchange_open env opcode) s = (ret, s')"
  obtain s1 where arr: "run_state (arrive env) s0 = ((), s1)" by (metis surj_pair old.unit.exhaust)
  have "calm s1 s' \<and> (ret = 0 \<longrightarrow> q_error s' = 0)"
  proof (cases "q_error s1 = 0")
    case False
    with run arr \<open>s = s0\<close> show ?thesis by (auto simp: exchange_open_def intro: calm_silent)
  next
    case True
    have later: "calm s1 (s1\<lparr>q_hist := Q_now t # q_hist s1\<rparr>)" for t
      using calm_jiffies [of "\<lparr>g_now = \<lambda>_. t, g_send = g_send env, g_arrive = g_arrive env,
        g_nhi_complete = g_nhi_complete env, g_hz = g_hz env\<rparr>"] by (simp add: keeps_def jiffies_def)
    have "calm s1 (s1\<lparr>q_hist := Q_now t # q_hist s1, q_error := e\<rparr>)" for t e
      using later [of t] True by (simp add: calm_def mild_def obeys_def)
    moreover have "calm s1 (s1\<lparr>q_hist := Q_now t # q_hist s1, q_done := 0, q_reply_error := - ETIMEDOUT,
        q_opcode := opcode, q_awaiting := True\<rparr>)" for t
      using later [of t] by (simp add: calm_def mild_def obeys_def)
    moreover have "calm s1 (s1\<lparr>q_error := e\<rparr>)" for e using True by (intro calm_silent) simp_all
    ultimately show ?thesis
      using run arr \<open>s = s0\<close> True
      by (auto simp: exchange_open_def query_left_def jiffies_def split: if_splits)
  qed
  moreover have "calm s0 s1" using keepsD [OF calm_arrive arr] .
  ultimately have c: "calm s0 s'" "ret = 0 \<longrightarrow> q_error s' = 0" using calm.trans by blast+
  moreover have "q_error s0 \<noteq> 0 \<longrightarrow> q_error s' = q_error s0" using c(1) by (auto simp: calm_def mild_def obeys_def)
  ultimately show "calm s0 s' \<and> (ret = 0 \<longrightarrow> q_error s0 = 0)" by auto
qed

lemma calm_wait: "keeps calm (exchange_wait env ret)"
  unfolding exchange_wait_def
  by (intro calm.keeps_rules calm_arrive calm_left keeps_qget keeps_qset calm_silent) simp_all

lemma calm_close: "keeps calm (exchange_close ret sample)"
  by (auto simp: keeps_def exchange_close_def Let_def intro: calm_silent)

text \<open>Sending one message, in an exchange that found no error.\<close>

definition after_send :: "u8 list \<Rightarrow> query \<Rightarrow> query \<Rightarrow> bool" where
  "after_send m s s' \<longleftrightarrow> mild s s' \<and> acks s' \<le> acks s + of_bool (m = write_message UQ_ACK_EVENT)"

lemma triple_send:
  assumes "permitted m"
  shows "triple (\<lambda>s. calm s0 s \<and> q_error s0 = 0) (qevent (g_send env) (Q_send m)) (\<lambda>_. after_send m s0)"
proof (rule tripleI)
  fix s ret s'
  assume pre: "calm s0 s \<and> q_error s0 = 0" and "run_state (qevent (g_send env) (Q_send m)) s = (ret, s')"
  then have s': "s' = s\<lparr>q_hist := Q_send m ret # q_hist s\<rparr>" by auto
  from pre obtain new where "q_hist s = new @ q_hist s0" "list_all permitted (sends new)"
    by (auto simp: calm_def mild_def obeys_def)
  then have "obeys s0 s'" using pre assms s' by (intro obeysI [of _ "Q_send m ret # new"]) simp_all
  with pre s' show "after_send m s0 s'" by (simp add: after_send_def calm_def mild_def event_acks_def)
qed

lemma triple_after: "keeps calm m \<Longrightarrow> triple (after_send w s0) m (\<lambda>_. after_send w s0)"
  unfolding after_send_def
  by (rule tripleI) (auto dest!: keepsD simp: calm_def intro: mild.trans)

definition request_of :: "u32 \<Rightarrow> u64 \<Rightarrow> u8 list" where
  "request_of opcode cmd = (if opcode = 0x11 then read_message else write_message cmd)"

lemma exchange_after: "keeps (after_send (request_of opcode cmd)) (query_exchange env opcode cmd sample)"
proof -
  let ?m = "request_of opcode cmd"
  have "triple (\<lambda>s. s = s0) (query_exchange env opcode cmd sample) (\<lambda>_. after_send ?m s0)" for s0
  proof (cases "opcode = 0x11 \<or> opcode = 0x12 \<and> uq_allowed cmd")
    case True
    have m: "permitted ?m" "the (query_request opcode cmd) = ?m"
      using True query_request_read query_request_write by (auto simp: permitted_def request_of_def)
    let ?rest = "do {
          arrive env;
          ret \<leftarrow> qevent (g_send env) (Q_send ?m);
          ret \<leftarrow> exchange_wait env ret;
          exchange_close ret sample
        }"
    have "triple (\<lambda>s. calm s0 s \<and> q_error s0 = 0) (arrive env) (\<lambda>_ s. calm s0 s \<and> q_error s0 = 0)"
      using triple_calm [OF calm_arrive [of env], of s0] unfolding triple_def by blast
    note rest = triple_bind [OF this triple_bind [OF triple_send [OF m(1)]
        triple_bind [OF triple_after [OF calm_wait] triple_after [OF calm_close]]]]
    have "query_exchange env opcode cmd sample = do {
        ret \<leftarrow> exchange_open env opcode;
        if ret \<noteq> 0 then State_Monad.return (ret, sample) else ?rest
      }" unfolding query_exchange_def m(2) using True by auto
    also have "triple (\<lambda>s. s = s0) \<dots> (\<lambda>_. after_send ?m s0)"
      by (rule triple_bind [OF open_triple], rule triple_if)
        (auto simp: after_send_def calm_def intro!: triple_return intro: triple_weaken [OF rest [unfolded after_send_def]])
    finally show ?thesis .
  next
    case False
    then show ?thesis by (auto simp: query_exchange_def after_send_def mild.refl intro!: triple_return)
  qed
  then show ?thesis unfolding keeps_def triple_def by (metis prod.collapse)
qed

lemma mild_exchange: "keeps mild (query_exchange env opcode cmd sample)"
  using exchange_after by (simp add: keeps_def after_send_def)

lemma acks_exchange: "adds acks (Suc 0) (query_exchange env opcode cmd sample)"
  unfolding adds_def
proof
  fix s
  have "after_send (request_of opcode cmd) s (snd (run_state (query_exchange env opcode cmd sample) s))"
    using exchange_after by (simp add: keeps_def)
  then show "acks (snd (run_state (query_exchange env opcode cmd sample) s)) \<le> acks s + Suc 0"
    by (cases "request_of opcode cmd = write_message UQ_ACK_EVENT") (simp_all add: after_send_def)
qed

lemma calm_exchange:
  assumes "opcode = 0x11 \<or> cmd \<noteq> UQ_ACK_EVENT"
  shows "keeps calm (query_exchange env opcode cmd sample)"
proof -
  from assms have "request_of opcode cmd \<noteq> write_message UQ_ACK_EVENT"
    by (auto simp: request_of_def message_is_ack)
  with exchange_after [of opcode cmd env sample] show ?thesis by (simp add: keeps_def after_send_def calm_def)
qed

lemma calm_deadline: "keeps calm (query_deadline env)"
  unfolding query_deadline_def
  by (intro calm.keeps_rules calm_jiffies keeps_qset calm_silent) simp_all

interpretation reader: uq_reader calm "query_io env" for env
proof
  show "keeps calm (uq_io_read (query_io env) sample)" for sample
    by (simp add: query_io_def query_read_def calm_exchange)
  show "keeps calm (uq_io_pause (query_io env))"
    by (simp add: query_io_def query_pause_def calm_event)
  show "keeps calm (uq_io_deadline (query_io env))"
    by (simp add: query_io_def calm_deadline)
qed

interpretation driver: uq_transport mild "query_io env" for env
proof
  show "keeps mild (uq_io_read (query_io env) sample)" for sample by (rule calm_mild [OF reader.keeps_read])
  show "keeps mild (uq_io_pause (query_io env))" by (rule calm_mild [OF reader.keeps_pause])
  show "keeps mild (uq_io_deadline (query_io env))" by (rule calm_mild [OF reader.keeps_deadline])
  show "keeps mild (uq_io_write (query_io env) cmd)" for cmd
    by (simp add: query_io_def query_write_def mild.keeps_rules mild_exchange)
qed

lemma calm_write: "cmd \<noteq> UQ_ACK_EVENT \<Longrightarrow> keeps calm (uq_io_write (query_io env) cmd)"
  by (simp add: query_io_def query_write_def calm.keeps_rules calm_exchange)

lemma acks_write: "adds acks (Suc 0) (uq_io_write (query_io env) cmd)"
  unfolding query_io_def query_write_def
  by (simp, rule adds_bind [OF acks_exchange, where k = 0, simplified], simp add: adds_return adds_case_prod)

text \<open>A command acknowledges at most one event.\<close>

lemma acks_command: "adds acks (Suc 0) (uq_command_kind (query_io env) cmd reply c)"
proof (cases "cmd = UQ_ACK_EVENT")
  case False
  have poll: "adds acks 0 (uq_poll (query_io env) sample b)" for sample b
    by (rule calm_adds [OF reader.keeps_uq_poll])
  have ack: "adds acks (Suc 0) (uq_acknowledge (query_io env) reply c sample)" for reply sample
    unfolding uq_acknowledge_def Let_def
    by (intro adds_quiet [OF calm_adds [OF reader.keeps_deadline]] adds_one [OF acks_write] adds_if adds_return
        adds_quiet [OF poll] adds_case_prod)
  have "adds acks (Suc 0) (uq_execute (query_io env) cmd reply c sample)" for sample
    unfolding uq_execute_def
    by (intro adds_quiet [OF calm_adds [OF calm_write [OF False]]] adds_if adds_return adds_quiet [OF poll]
        adds_case_prod ack)
  then show ?thesis
    unfolding uq_command_kind_def
    by (intro adds_if adds_return adds_quiet [OF calm_adds [OF reader.keeps_deadline]]
        adds_quiet [OF calm_adds [OF reader.keeps_uq_read]] adds_case_prod)
qed (simp add: uq_command_kind_def adds_return)

lemma calm_run_query: "keeps calm (run_query env cmd lo hi opt)"
  unfolding run_query_def
  by (intro calm.keeps_rules reader.keeps_uq_command calm_write keeps_qset calm_silent) simp_all

lemmas calm_steps = calm.keeps_rules calm_run_query keeps_qget keeps_qset calm_silent

lemma calm_caps: "keeps calm (collect_caps env i n)"
  by (induction n arbitrary: i) (auto intro!: calm_steps)

lemma calm_init: "keeps calm (collect_init env)"
  unfolding collect_init_def by (intro calm_steps calm_caps) simp_all

lemma calm_recipients: "keeps calm (collect_recipients env i rs)"
  by (induction rs) (auto intro!: calm_steps)

lemma calm_partner: "keeps calm (collect_partner env i)"
  unfolding collect_partner_def by (intro calm_steps calm_recipients) simp_all

lemma calm_status: "keeps calm (collect_status env i n)"
  by (induction n arbitrary: i) (auto simp: Let_def intro!: calm_steps calm_partner)

lemma calm_collect: "keeps calm (query_collect env)"
  unfolding query_collect_def by (intro calm_steps calm_init calm_status) simp_all

lemma calm_group: "keeps calm (group_deadline env n)"
  unfolding group_deadline_def by (intro calm_steps calm_jiffies) simp_all

lemma calm_cap: "keeps calm cap_group_deadline"
  unfolding cap_group_deadline_def by (intro keeps_qset calm_silent) simp_all

section \<open>Every operation, within its limits\<close>

definition limited :: "query \<Rightarrow> bool" where
  "limited s \<longleftrightarrow> q_attempts s \<le> 3 \<and> q_polls s \<le> 300 \<and> q_events s \<le> 64"

abbreviation good :: "query \<Rightarrow> query \<Rightarrow> bool" where
  "good s0 s \<equiv> obeys s0 s \<and> limited s"

definition within :: "query \<Rightarrow> query \<Rightarrow> bool" where
  "within s s' \<longleftrightarrow> (limited s \<longrightarrow> good s s')"

interpretation within: history_order within
  by unfold_locales (auto simp: within_def obeys_refl intro: obeys_trans)

lemma within_triple: "keeps within m \<longleftrightarrow> (\<forall>s0. triple (good s0) m (\<lambda>_. good s0))"
proof
  assume m: "keeps within m"
  have "good s0 s'" if "good s0 s" and "run_state m s = (a, s')" for s0 s a s'
    using keepsD [OF m that(2)] that(1) obeys_trans [of s0 s s'] by (simp add: within_def)
  then show "\<forall>s0. triple (good s0) m (\<lambda>_. good s0)" unfolding triple_def by blast
next
  assume m: "\<forall>s0. triple (good s0) m (\<lambda>_. good s0)"
  have "within s (snd (run_state m s))" for s
    using tripleD [OF m [THEN spec, of s], of s "fst (run_state m s)" "snd (run_state m s)"] obeys_refl
    by (simp add: within_def)
  then show "keeps within m" by (simp add: keeps_def)
qed

lemma calm_within: "keeps calm m \<Longrightarrow> keeps within m"
  by (simp add: keeps_def calm_def mild_def within_def limited_def)

text \<open>A mild program keeps the counters, so what was known of them is still known.\<close>

lemma triple_good:
  assumes "keeps mild m"
  shows "triple (\<lambda>s. good s0 s \<and> P (q_attempts s) (q_polls s) (q_events s)) m
    (\<lambda>_ s. good s0 s \<and> P (q_attempts s) (q_polls s) (q_events s))"
proof (rule tripleI)
  fix s a s'
  assume pre: "good s0 s \<and> P (q_attempts s) (q_polls s) (q_events s)" and run: "run_state m s = (a, s')"
  from keepsD [OF assms run] have "mild s s'" .
  with pre show "good s0 s' \<and> P (q_attempts s') (q_polls s') (q_events s')"
    unfolding mild_def limited_def using obeys_trans [of s0 s s'] by simp
qed

text \<open>Counting up where the guard has left room.\<close>

lemma good_count:
  assumes "\<And>s. q_hist (f s) = q_hist s \<and> q_error (f s) = q_error s"
    and "\<And>s. limited s \<Longrightarrow> P s \<Longrightarrow> limited (f s)"
  shows "triple (\<lambda>s. good s0 s \<and> P s) (qset f) (\<lambda>_. good s0)"
proof (rule tripleI)
  fix s a s'
  assume pre: "good s0 s \<and> P s" and run: "run_state (qset f) s = (a, s')"
  then have "s' = f s" by simp
  moreover have "obeys s (f s)" using assms(1) [of s] by (intro obeysI [of _ "[]"]) simp_all
  ultimately show "good s0 s'" using pre assms(2) [of s] obeys_trans [of s0 s "f s"] by simp
qed

lemma within_drain: "keeps within (query_drain env)"
proof -
  have "keeps within (drain_from env n)" for n
  proof (induction n)
    case (Suc n)
    let ?serve = "\<lambda>connector. do {
      (ret, reply) \<leftarrow> uq_command_kind (query_io env) (port_command (of_int connector) 0x12) no_sample (nat connector);
      qset (\<lambda>s. s\<lparr>q_commands := q_commands s + 1\<rparr>);
      if ret < 0 then State_Monad.return ret
      else do {
        qset (\<lambda>s. s\<lparr>q_events := q_events s + 1\<rparr>);
        drain_from env n
      }
    }"
    have serve: "triple (\<lambda>s. good s0 s \<and> q_events s < 64) (?serve connector) (\<lambda>_. good s0)" for s0 connector
    proof -
      have count: "triple (\<lambda>s. good s0 s \<and> q_events s < 64) (qset (\<lambda>s. s\<lparr>q_events := q_events s + 1\<rparr>)) (\<lambda>_. good s0)"
        by (rule good_count) (simp_all add: limited_def)
      have rest: "triple (good s0) (drain_from env n) (\<lambda>_. good s0)" using Suc within_triple by blast
      note more = triple_bind [OF count rest]
      show ?thesis
        by (rule triple_bind [OF triple_good [OF driver.keeps_uq_command_kind, where P = "\<lambda>_ _ e. e < 64"]],
            simp only: split_beta,
            rule triple_bind [OF triple_good [OF calm_mild [OF keeps_qset], where P = "\<lambda>_ _ e. e < 64"]])
          (auto intro!: calm_silent triple_if triple_return more [simplified])
    qed
    have tail: "keeps within (do {
        events \<leftarrow> qget q_events;
        if 64 \<le> events then State_Monad.return (- ENOSPC) else ?serve connector
      })" for connector
      unfolding within_triple
    proof (rule allI, rule triple_bind)
      fix s0
      show "triple (good s0) (qget q_events) (\<lambda>e s. good s0 s \<and> q_events s = e)" by (auto simp: triple_def)
      show "triple (\<lambda>s. good s0 s \<and> q_events s = e)
          (if 64 \<le> e then State_Monad.return (- ENOSPC) else ?serve connector) (\<lambda>_. good s0)" for e
        by (rule triple_if, rule triple_return, simp, rule triple_weaken [OF serve]) simp_all
    qed
    show ?case
      unfolding drain_from.simps
      by (rule within.keeps_bind [OF calm_within [OF keeps_qget(1)]],
          rule within.keeps_bind [OF calm_within [OF reader.keeps_uq_pending]],
          rule within.keeps_if, rule within.keeps_return, rule tail)
  qed (simp add: within.keeps_return)
  then show ?thesis by (simp add: query_drain_def)
qed

lemma calm_fail: "keeps calm (query_fail ret)"
  unfolding query_fail_def by (intro keeps_qset calm_silent) simp_all

lemma calm_stop: "keeps calm policy_stop"
  unfolding policy_stop_def by (intro calm_steps calm_fail) simp_all

lemma calm_settle: "keeps calm (query_settle env ret)"
proof -
  have "keeps calm (do {
      err \<leftarrow> qget q_error;
      let ret = (if err \<noteq> 0 then err else ret);
      if ret \<noteq> 0 then do {
        qset (q_error_update (\<lambda>_. ret));
        State_Monad.return ret
      }
      else State_Monad.return 0
    })"
    by (auto simp: keeps_def Let_def intro!: calm_silent)
  then show ?thesis unfolding query_settle_def by (rule calm.keeps_bind [OF calm_arrive])
qed

lemmas within_steps = within.keeps_rules within_drain calm_within keeps_qget calm_arrive calm_jiffies
  calm_run_query calm_collect calm_group calm_cap calm_fail calm_stop calm_settle keeps_qset calm_silent

lemma within_poll: "keeps within (policy_poll env err)"
  unfolding within_triple policy_poll_def
proof (rule allI, rule triple_bind [where R = "\<lambda>ret s. good s0 s \<and> (ret = 0 \<longrightarrow> q_polls s < 300)" for s0])
  fix s0
  have "keeps mild (jiffies env)" by (rule calm_mild [OF calm_jiffies])
  from triple_good [OF this, where P = "\<lambda>_ _ _. True"]
  have "triple (good s0) (jiffies env) (\<lambda>_. good s0)" by simp
  then have "triple (good s0) (do {
        now \<leftarrow> jiffies env;
        s \<leftarrow> qget (\<lambda>s. s);
        State_Monad.return (if time_after_eq now (q_policy_deadline s) \<or> 300 \<le> q_polls s then - ETIMEDOUT else 0)
      }) (\<lambda>ret s. good s0 s \<and> (ret = 0 \<longrightarrow> q_polls s < 300))"
    by (rule triple_bind) (auto simp: triple_def)
  then show "triple (good s0) (if err \<noteq> 0 then State_Monad.return err
      else do {
        now \<leftarrow> jiffies env;
        s \<leftarrow> qget (\<lambda>s. s);
        State_Monad.return (if time_after_eq now (q_policy_deadline s) \<or> 300 \<le> q_polls s then - ETIMEDOUT else 0)
      }) (\<lambda>ret s. good s0 s \<and> (ret = 0 \<longrightarrow> q_polls s < 300))"
    by (auto intro: triple_return)
next
  fix s0 and ret :: int
  have count: "triple (\<lambda>s. good s0 s \<and> q_polls s < 300) (qset (\<lambda>s. s\<lparr>q_polls := q_polls s + 1\<rparr>)) (\<lambda>_. good s0)"
    by (rule good_count) (simp_all add: limited_def)
  have "keeps within (do {
      group_deadline env 20;
      cap_group_deadline;
      query_drain env
    })" by (intro within_steps)
  then have "triple (good s0) (do {
      group_deadline env 20;
      cap_group_deadline;
      query_drain env
    }) (\<lambda>_. good s0)" unfolding within_triple by blast
  note more = triple_bind [OF count this]
  show "triple (\<lambda>s. good s0 s \<and> (ret = 0 \<longrightarrow> q_polls s < 300))
      (if ret \<noteq> 0 then State_Monad.return ret else do {
        qset (\<lambda>s. s\<lparr>q_polls := q_polls s + 1\<rparr>);
        group_deadline env 20;
        cap_group_deadline;
        query_drain env
      }) (\<lambda>_. good s0)"
    by (rule triple_if, rule triple_return, simp, rule triple_weaken [OF more]) simp_all
qed

lemma within_admit: "keeps within (query_admit env)"
proof -
  have "keeps within (do {
      s \<leftarrow> qget (\<lambda>s. s);
      let ret = (if q_error s \<noteq> 0 then q_error s else if \<not> q_service_up s then - ENOTCONN
        else if 3 \<le> q_attempts s then - ENOSPC else 0);
      if ret \<noteq> 0 then State_Monad.return ret
      else do {
        qset (\<lambda>s. s\<lparr>q_attempts := q_attempts s + 1\<rparr>);
        State_Monad.return 0
      }
    })"
    by (auto simp: keeps_def Let_def within_def limited_def obeys_refl intro!: obeysI [of _ "[]"])
  then show ?thesis unfolding query_admit_def by (rule within.keeps_bind [OF calm_within [OF calm_arrive]])
qed

lemma within_enable: "keeps within (policy_enable env)"
  unfolding policy_enable_def by (intro within_steps) simp_all

lemma within_round: "keeps within (query_round env)"
  unfolding query_round_def by (intro within_steps)

lemma within_do: "within s (query_do env op s)"
proof -
  have "keeps within (policy_worker env)"
    unfolding policy_worker_def by (intro within_steps within_poll) simp_all
  moreover have "keeps within (query_store env parsed)" for parsed
    unfolding query_store_def by (intro within.keeps_rules calm_within keeps_qget within_admit within_round)
  moreover have "keeps within (policy_store env parsed)" for parsed
  proof (cases parsed)
    case (Inr enable)
    have "keeps within (do { policy_stop; State_Monad.return (0 :: int) })"
      by (rule within.keeps_bind [OF calm_within [OF calm_stop] within.keeps_return])
    moreover have "keeps within (do {
        complete \<leftarrow> qget (\<lambda>s. g_nhi_complete env (q_hist s));
        if \<not> complete then State_Monad.return (- EPERM) else policy_enable env
      })"
      by (rule within.keeps_bind [OF calm_within [OF keeps_qget(1)]], rule within.keeps_if)
        (rule within.keeps_return, rule within_enable)
    ultimately show ?thesis using Inr by (cases enable) (simp_all add: policy_store_def)
  qed (simp add: policy_store_def within.keeps_return)
  ultimately show ?thesis
    using calm_within [OF calm_arrive] calm_within [OF calm_stop]
    by (cases op) (simp_all add: query_do_def query_remove_def keeps_def)
qed

lemma within_reach: "query_reach env s t \<Longrightarrow> within s t"
  by (induction rule: query_reach.induct) (blast intro: within.refl within.trans within_do)+

section \<open>What was sent is what was counted\<close>

text \<open>
  Without an error every acknowledged event is counted; a failure may leave one more, but then there was
  room for it.  \<open>settled ret\<close> is what holds when a part ends with \<open>ret\<close> and the error is still to be recorded.
\<close>

definition booked :: "query \<Rightarrow> bool" where
  "booked s \<longleftrightarrow> acks s \<le> q_events s \<and> q_events s \<le> 64"

definition settled :: "int \<Rightarrow> query \<Rightarrow> bool" where
  "settled ret s \<longleftrightarrow> acks s \<le> 64 \<and> (ret = 0 \<longrightarrow> booked s)"

definition books :: "query \<Rightarrow> bool" where
  "books s \<longleftrightarrow> acks s \<le> 64 \<and> (q_error s = 0 \<longrightarrow> booked s)"

lemma booked_settled: "booked s \<Longrightarrow> settled ret s"
  by (simp add: booked_def settled_def)

lemma booked_books: "booked s \<Longrightarrow> books s"
  by (simp add: booked_def books_def)

lemma calm_booked: "keeps calm m \<Longrightarrow> triple booked m (\<lambda>_. booked)"
  by (rule tripleI) (auto dest!: keepsD simp: booked_def calm_def mild_def)

lemma calm_settled: "keeps calm m \<Longrightarrow> triple (settled ret) m (\<lambda>_. settled ret)"
  by (rule tripleI) (auto dest!: keepsD simp: settled_def booked_def calm_def mild_def)

lemma booked_drain: "triple booked (drain_from env n) settled"
proof (induction n)
  case 0
  show ?case by (auto intro: triple_return booked_settled)
next
  case (Suc n)
  let ?kind = "\<lambda>c. uq_command_kind (query_io env) (port_command (of_int c) 0x12) no_sample (nat c)"
  let ?more = "\<lambda>s. acks s \<le> q_events s + 1 \<and> q_events s < 64"
  have kind: "triple (\<lambda>s. booked s \<and> q_events s < 64) (?kind c) (\<lambda>_. ?more)" for c
    by (rule tripleI)
      (use keepsD [OF driver.keeps_uq_command_kind] addsD [OF acks_command] in
        \<open>fastforce simp: booked_def mild_def\<close>)
  have rest: "triple ?more (do {
      qset (\<lambda>s. s\<lparr>q_commands := q_commands s + 1\<rparr>);
      if ret < 0 then State_Monad.return ret
      else do { qset (\<lambda>s. s\<lparr>q_events := q_events s + 1\<rparr>); drain_from env n }
    }) settled" for ret
  proof (rule triple_bind [where R = "\<lambda>_. ?more"])
    show "triple ?more (qset (\<lambda>s. s\<lparr>q_commands := q_commands s + 1\<rparr>)) (\<lambda>_. ?more)" by (simp add: triple_def)
    have "triple ?more (qset (\<lambda>s. s\<lparr>q_events := q_events s + 1\<rparr>)) (\<lambda>_. booked)"
      by (auto simp: triple_def booked_def)
    note go = triple_bind [OF this Suc.IH]
    show "triple ?more (if ret < 0 then State_Monad.return ret
        else do { qset (\<lambda>s. s\<lparr>q_events := q_events s + 1\<rparr>); drain_from env n }) settled"
      by (rule triple_if, rule triple_return, simp add: settled_def, rule go)
  qed
  have serve: "triple booked (do {
      events \<leftarrow> qget q_events;
      if 64 \<le> events then State_Monad.return (- ENOSPC)
      else do {
        (ret, reply) \<leftarrow> ?kind c;
        qset (\<lambda>s. s\<lparr>q_commands := q_commands s + 1\<rparr>);
        if ret < 0 then State_Monad.return ret
        else do { qset (\<lambda>s. s\<lparr>q_events := q_events s + 1\<rparr>); drain_from env n }
      }
    }) settled" for c
  proof (rule triple_bind [where R = "\<lambda>e s. booked s \<and> q_events s = e"], simp add: triple_def, rule triple_if)
    fix e :: nat
    assume room: "\<not> 64 \<le> e"
    show "triple (\<lambda>s. booked s \<and> q_events s = e) (do {
        (ret, reply) \<leftarrow> ?kind c;
        qset (\<lambda>s. s\<lparr>q_commands := q_commands s + 1\<rparr>);
        if ret < 0 then State_Monad.return ret
        else do { qset (\<lambda>s. s\<lparr>q_events := q_events s + 1\<rparr>); drain_from env n }
      }) settled"
      unfolding split_beta by (rule triple_weaken [OF triple_bind [OF kind rest]]) (use room in simp_all)
  qed (auto intro: triple_return booked_settled)
  show ?case
    unfolding drain_from.simps
    by (rule triple_bind [OF calm_booked [OF keeps_qget(1)]],
        rule triple_bind [OF calm_booked [OF reader.keeps_uq_pending]], rule triple_if)
      (auto intro: triple_return booked_settled serve)
qed

lemma fail_books: "ret \<noteq> 0 \<Longrightarrow> triple (settled ret) (query_fail ret) (\<lambda>_. books)"
  by (auto simp: triple_def query_fail_def settled_def books_def)

lemma settle_books: "triple (settled ret) (query_settle env ret) (\<lambda>_. books)"
  unfolding query_settle_def
  by (rule triple_bind [OF calm_settled [OF calm_arrive]])
    (auto simp: triple_def Let_def settled_def books_def booked_def)

lemma books_steps: "keeps calm m \<Longrightarrow> (\<And>a. triple booked (f a) Q) \<Longrightarrow> triple booked (State_Monad.bind m f) Q"
  by (rule triple_bind [OF calm_booked])

lemma poll_settled: "triple booked (policy_poll env err) settled"
proof -
  have now: "keeps calm (if err \<noteq> 0 then State_Monad.return err
      else do {
        now \<leftarrow> jiffies env;
        s \<leftarrow> qget (\<lambda>s. s);
        State_Monad.return (if time_after_eq now (q_policy_deadline s) \<or> 300 \<le> q_polls s then - ETIMEDOUT else 0)
      })" by (intro calm_steps calm_jiffies)
  have count: "triple booked (qset (\<lambda>s. s\<lparr>q_polls := q_polls s + 1\<rparr>)) (\<lambda>_. booked)"
    by (simp add: triple_def booked_def)
  show ?thesis
    unfolding policy_poll_def query_drain_def
    by (rule books_steps [OF now], rule triple_if, rule triple_return, erule booked_settled,
        rule triple_bind [OF count], rule books_steps [OF calm_group], rule books_steps [OF calm_cap], rule booked_drain)
qed

lemma worker_books: "triple booked (policy_worker env) (\<lambda>_. books)"
proof -
  have flag: "keeps calm (qset (q_scheduled_update f))" for f by (intro keeps_qset calm_silent) simp_all
  have last: "triple (settled ret) (if ret \<noteq> 0 then query_fail ret else qset (q_scheduled_update (\<lambda>_. True))) (\<lambda>_. books)"
    for ret by (rule triple_if, rule fail_books, simp) (simp add: triple_def settled_def books_def booked_def)
  show ?thesis
    unfolding policy_worker_def
    by (rule books_steps [OF flag], rule books_steps [OF keeps_qget(1)], rule triple_if, rule triple_return, erule booked_books,
        rule books_steps [OF calm_arrive], rule books_steps [OF keeps_qget(1)], rule triple_bind [OF poll_settled last])
qed

lemma enable_books: "triple booked (policy_enable env) (\<lambda>_. books)"
proof -
  have flag: "keeps calm (qset (\<lambda>s. s\<lparr>q_once := True, q_policy_attempted := True\<rparr>))"
      "keeps calm (qset (q_policy_deadline_update (\<lambda>_. d)))" for d
    by (intro keeps_qset calm_silent; simp)+
  have drain: "triple booked (if ret = 0 then query_drain env else State_Monad.return ret) settled" for ret
    unfolding query_drain_def by (rule triple_if, rule booked_drain, rule triple_return, erule booked_settled)
  have last: "triple (settled ret) (if ret \<noteq> 0 then do { query_fail ret; State_Monad.return ret }
      else do { qset (\<lambda>s. s\<lparr>q_policy_active := True, q_scheduled := True\<rparr>); State_Monad.return 0 }) (\<lambda>_. books)" for ret
    by (rule triple_if, rule triple_bind [OF fail_books], simp, rule triple_return, assumption)
      (auto simp: triple_def settled_def books_def booked_def)
  show ?thesis
    unfolding policy_enable_def split_beta
    by (rule books_steps [OF calm_arrive], rule books_steps [OF keeps_qget(1)]) (intro triple_if
        triple_return books_steps [OF flag(1)] books_steps [OF flag(2)] books_steps [OF calm_jiffies]
        books_steps [OF calm_group] books_steps [OF calm_run_query] triple_bind [OF drain last] booked_books)
qed

lemma round_books: "triple booked (query_round env) (\<lambda>_. books)"
proof -
  have drain: "triple booked (if b then do { cap_group_deadline; query_drain env } else State_Monad.return 0) settled" for b
    unfolding query_drain_def
    by (rule triple_if, rule books_steps [OF calm_cap], rule booked_drain, rule triple_return, erule booked_settled)
  have again: "triple booked (if b then query_drain env else State_Monad.return ret) settled" for b ret
    unfolding query_drain_def by (rule triple_if, rule booked_drain, rule triple_return, erule booked_settled)
  have more: "triple booked (do {
      ret \<leftarrow> query_collect env;
      active \<leftarrow> qget q_policy_active;
      ret \<leftarrow> (if ret = 0 \<and> active then query_drain env else State_Monad.return ret);
      query_settle env ret
    }) (\<lambda>_. books)"
    by (rule books_steps [OF calm_collect], rule books_steps [OF keeps_qget(1)], rule triple_bind [OF again settle_books])
  have last: "triple (settled ret) (if ret \<noteq> 0 then query_settle env ret else do {
      ret \<leftarrow> query_collect env;
      active \<leftarrow> qget q_policy_active;
      ret \<leftarrow> (if ret = 0 \<and> active then query_drain env else State_Monad.return ret);
      query_settle env ret
    }) (\<lambda>_. books)" for ret
    by (rule triple_if, rule settle_books, rule triple_weaken [OF more]) (simp_all add: settled_def)
  show ?thesis
    unfolding query_round_def
    by (rule books_steps [OF calm_group], rule books_steps [OF keeps_qget(1)], rule triple_if, rule triple_return,
        erule booked_books, rule triple_bind [OF drain last])
qed

lemma admit_booked: "triple booked (query_admit env) (\<lambda>_. booked)"
  unfolding query_admit_def
  by (rule books_steps [OF calm_arrive]) (auto simp: triple_def Let_def booked_def)

lemma do_books:
  assumes "books s" and "limited s"
  shows "books (query_do env op s)"
proof (cases "q_error s = 0")
  case True
  have calm: "triple booked m (\<lambda>_. books)" if "keeps calm m" for m :: "(query, 'a) state"
    using calm_booked [OF that] booked_books unfolding triple_def by blast
  have store: "triple booked (query_store env parsed) (\<lambda>_. books)" for parsed
    unfolding query_store_def
    by (rule triple_if, rule triple_return, erule booked_books, rule books_steps [OF keeps_qget(1)],
        rule triple_if, rule triple_return, erule booked_books, rule triple_bind [OF admit_booked],
        rule triple_if, rule triple_return, erule booked_books, rule round_books)
  have "triple booked (do {
      complete \<leftarrow> qget (\<lambda>s. g_nhi_complete env (q_hist s));
      if \<not> complete then State_Monad.return (- EPERM) else policy_enable env
    }) (\<lambda>_. books)"
    by (rule books_steps [OF keeps_qget(1)], rule triple_if, rule triple_return, erule booked_books, rule enable_books)
  moreover have "keeps calm (do { policy_stop; State_Monad.return (0 :: int) })" by (intro calm_steps calm_stop)
  ultimately have policy: "triple booked (policy_store env parsed) (\<lambda>_. books)" for parsed
    using calm by (auto simp: policy_store_def calm.keeps_return split: sum.split bool.split)
  have "booked s" using assms(1) True by (simp add: books_def)
  then show ?thesis
    using tripleD [OF store] tripleD [OF policy] tripleD [OF worker_books] tripleD [OF calm [OF calm_arrive]]
      tripleD [OF calm [OF calm_stop]] unfolding query_do_def query_remove_def
    by (cases op) (metis query_op.simps prod.collapse)+
next
  case False
  then have "obeys s (query_do env op s)" using within_do [of s env op] assms(2) by (simp add: within_def)
  with False have "q_error (query_do env op s) \<noteq> 0" and "acks (query_do env op s) = acks s"
    by (auto simp: obeys_def event_acks_def)
  with assms(1) show ?thesis by (simp add: books_def)
qed

section \<open>Rounds and polls\<close>

text \<open>
  \<open>level\<close>: the counters of rounds and polls stayed; \<open>mute\<close>: and nothing was sent.
\<close>

definition level :: "query \<Rightarrow> query \<Rightarrow> bool" where
  "level s s' \<longleftrightarrow> q_attempts s' = q_attempts s \<and> q_polls s' = q_polls s"

definition mute :: "query \<Rightarrow> query \<Rightarrow> bool" where
  "mute s s' \<longleftrightarrow> level s s' \<and> sends (q_hist s') = sends (q_hist s)"

interpretation level: history_order level
  by unfold_locales (simp_all add: level_def)

interpretation mute: history_order mute
  by unfold_locales (auto simp: mute_def level_def)

lemma mild_level: "keeps mild m \<Longrightarrow> keeps level m"
  by (simp add: keeps_def mild_def level_def)

lemmas calm_level = mild_level [OF calm_mild]

lemma level_drain: "keeps level (drain_from env n)"
proof (induction n)
  case (Suc n)
  have set: "keeps level (qset (\<lambda>s. s\<lparr>q_commands := q_commands s + 1\<rparr>))"
      "keeps level (qset (\<lambda>s. s\<lparr>q_events := q_events s + 1\<rparr>))"
    by (simp_all add: keeps_def level_def)
  show ?case
    unfolding drain_from.simps
    by (intro level.keeps_rules calm_level [OF keeps_qget(1)] calm_level [OF reader.keeps_uq_pending]
        mild_level [OF driver.keeps_uq_command_kind] set Suc)
qed (simp add: level.keeps_return)

lemmas level_steps = level.keeps_rules level_drain calm_level [OF keeps_qget(1)] calm_level [OF calm_arrive]
  calm_level [OF calm_jiffies] calm_level [OF calm_run_query] calm_level [OF calm_collect]
  calm_level [OF calm_group] calm_level [OF calm_cap] calm_level [OF calm_fail] calm_level [OF calm_stop]
  calm_level [OF calm_settle]

lemma level_round: "keeps level (query_round env)"
  unfolding query_round_def query_drain_def by (intro level_steps)

lemma level_policy: "keeps level (policy_store env parsed)"
proof -
  have set: "keeps level (qset (\<lambda>s. s\<lparr>q_once := True, q_policy_attempted := True\<rparr>))"
      "keeps level (qset (q_policy_deadline_update (\<lambda>_. d)))"
      "keeps level (qset (\<lambda>s. s\<lparr>q_policy_active := True, q_scheduled := True\<rparr>))" for d
    by (simp_all add: keeps_def level_def)
  have enable: "keeps level (policy_enable env)"
    unfolding policy_enable_def query_drain_def by (intro level_steps set)
  have "keeps level (do {
      complete \<leftarrow> qget (\<lambda>s. g_nhi_complete env (q_hist s));
      if \<not> complete then State_Monad.return (- EPERM) else policy_enable env
    })" by (intro level_steps enable)
  moreover have "keeps level (do { policy_stop; State_Monad.return (0 :: int) })" by (intro level_steps)
  ultimately show ?thesis
    by (auto simp: policy_store_def level.keeps_return split: sum.split bool.split)
qed

lemma mute_qget: "keeps mute (qget f)"
  by (simp add: keeps_def mute.refl)

lemma mute_event: "(\<And>a. sends [ev a] = []) \<Longrightarrow> keeps mute (qevent ans ev)"
  using sends_append [of "[ev _]"] by (simp add: keeps_def mute_def level_def)

lemma deliver_hist: "q_hist (deliver a s) = q_hist s"
proof (cases a)
  case (Message p)
  then show ?thesis using callback_cases [of p s] by (metis deliver.simps(1) option.sel)
qed (simp add: query_pdr_def Let_def)

lemma mute_arrive: "keeps mute (arrive env)"
proof -
  have "mute s (deliver a s)" for a s
    using calm_deliver [of s a] by (simp add: calm_def mild_def mute_def level_def deliver_hist)
  then have "mute s (fold deliver as s)" for as s
    by (induction as arbitrary: s) (auto intro: mute.refl mute.trans)
  then show ?thesis
    unfolding arrive_def by (intro mute.keeps_bind mute_event keeps_qset) simp
qed

lemma mute_jiffies: "keeps mute (jiffies env)"
  unfolding jiffies_def by (rule mute_event) simp

text \<open>What a run of the worker and a write of the query attribute do with the counters.\<close>

definition polled :: "query \<Rightarrow> query \<Rightarrow> bool" where
  "polled s s' \<longleftrightarrow> mute s s' \<or> q_attempts s' = q_attempts s \<and> q_polls s' = q_polls s + 1"

definition admitted :: "query \<Rightarrow> query \<Rightarrow> bool" where
  "admitted s s' \<longleftrightarrow> mute s s' \<or> q_polls s' = q_polls s \<and> q_attempts s' = q_attempts s + 1"

lemma triple_mute: "keeps mute m \<Longrightarrow> triple (mute s0) m (\<lambda>_. mute s0)"
  by (rule tripleI) (blast dest: keepsD intro: mute.trans)

lemma triple_polled: "keeps mute m \<Longrightarrow> triple (polled s0) m (\<lambda>_. polled s0)"
  by (rule tripleI) (auto dest!: keepsD simp: polled_def mute_def level_def)

lemma poll_polled: "triple (mute s0) (policy_poll env err) (\<lambda>_. polled s0)"
proof -
  have now: "keeps mute (if err \<noteq> 0 then State_Monad.return err
      else do {
        now \<leftarrow> jiffies env;
        s \<leftarrow> qget (\<lambda>s. s);
        State_Monad.return (if time_after_eq now (q_policy_deadline s) \<or> 300 \<le> q_polls s then - ETIMEDOUT else 0)
      })" by (intro mute.keeps_rules mute_jiffies mute_qget)
  let ?more = "\<lambda>s. q_attempts s = q_attempts s0 \<and> q_polls s = q_polls s0 + 1"
  have count: "triple (mute s0) (qset (\<lambda>s. s\<lparr>q_polls := q_polls s + 1\<rparr>)) (\<lambda>_. ?more)"
    by (simp add: triple_def mute_def level_def)
  have "keeps level (do { group_deadline env 20; cap_group_deadline; drain_from env 8 })" by (intro level_steps)
  then have "triple ?more (do { group_deadline env 20; cap_group_deadline; drain_from env 8 }) (\<lambda>_. polled s0)"
    by (intro tripleI) (auto dest!: keepsD simp: polled_def level_def)
  from triple_bind [OF count this] show ?thesis
    unfolding policy_poll_def query_drain_def
    by (intro triple_bind [OF triple_mute [OF now]] triple_if triple_return) (simp_all add: polled_def)
qed

lemma worker_polled: "triple (mute s0) (policy_worker env) (\<lambda>_. polled s0)"
proof -
  have set: "keeps mute (qset (q_scheduled_update f))" "keeps mute (query_fail ret)" for f ret
    by (simp_all add: keeps_def query_fail_def mute_def level_def)
  have last: "keeps mute (if ret \<noteq> 0 then query_fail ret else qset (q_scheduled_update (\<lambda>_. True)))" for ret
    by (intro mute.keeps_rules set)
  show ?thesis
    unfolding policy_worker_def
    by (intro triple_bind [OF triple_mute [OF set(1)]] triple_bind [OF triple_mute [OF mute_qget]] triple_if triple_return
        triple_bind [OF triple_mute [OF mute_arrive]] triple_bind [OF poll_polled triple_polled [OF last]])
      (simp add: polled_def)
qed

lemma store_admitted: "triple (mute s0) (query_store env parsed) (\<lambda>_. admitted s0)"
proof -
  let ?more = "\<lambda>s. q_polls s = q_polls s0 \<and> q_attempts s = q_attempts s0 + 1"
  have admit: "triple (mute s0) (query_admit env) (\<lambda>ret s. if ret = 0 then ?more s else mute s0 s)"
    unfolding query_admit_def
    by (rule triple_bind [OF triple_mute [OF mute_arrive]]) (auto simp: triple_def Let_def mute_def level_def)
  have "triple ?more (query_round env) (\<lambda>_. admitted s0)"
    by (intro tripleI) (auto dest!: keepsD [OF level_round] simp: admitted_def level_def)
  then have last: "triple (\<lambda>s. if ret = 0 then ?more s else mute s0 s)
      (if ret \<noteq> 0 then State_Monad.return ret else query_round env) (\<lambda>_. admitted s0)" for ret
    by (auto simp: admitted_def intro: triple_return)
  show ?thesis
    unfolding query_store_def
    by (intro triple_if triple_return triple_bind [OF triple_mute [OF mute_qget]] triple_bind [OF admit last])
      (simp_all add: admitted_def)
qed

text \<open>How many operations of a kind sent something.\<close>

fun sending :: "glink \<Rightarrow> (query_op \<Rightarrow> bool) \<Rightarrow> query_op list \<Rightarrow> query \<Rightarrow> nat" where
  "sending env P [] s = 0"
| "sending env P (op # ops) s =
     of_bool (P op \<and> sends (q_hist (query_do env op s)) \<noteq> sends (q_hist s)) + sending env P ops (query_do env op s)"

abbreviation is_query :: "query_op \<Rightarrow> bool" where
  "is_query op \<equiv> \<exists>parsed. op = Op_query parsed"

lemma do_counts:
  "of_bool (is_query op \<and> sends (q_hist (query_do env op s)) \<noteq> sends (q_hist s)) + q_attempts s \<le> q_attempts (query_do env op s)"
  "of_bool (op = Op_worker \<and> sends (q_hist (query_do env op s)) \<noteq> sends (q_hist s)) + q_polls s \<le> q_polls (query_do env op s)"
proof -
  have store: "admitted s (snd (run_state (query_store env parsed) s))" for parsed
    using tripleD [OF store_admitted mute.refl] by (metis prod.collapse)
  have worker: "polled s (snd (run_state (policy_worker env) s))"
    using tripleD [OF worker_polled mute.refl] by (metis prod.collapse)
  have level: "level s (snd (run_state (policy_store env parsed) s))"
      "level s (snd (run_state (arrive env) s))" "level s (snd (run_state query_remove s))" for parsed
    using level_policy calm_level [OF calm_arrive] calm_level [OF calm_stop]
    by (simp_all add: keeps_def query_remove_def)
  have step: "case op of Op_query _ \<Rightarrow> admitted s (query_do env op s) | Op_worker \<Rightarrow> polled s (query_do env op s)
      | _ \<Rightarrow> level s (query_do env op s)"
    by (cases op) (simp_all add: query_do_def store worker level)
  note defs = admitted_def polled_def mute_def level_def
  from step show "of_bool (is_query op \<and> sends (q_hist (query_do env op s)) \<noteq> sends (q_hist s)) + q_attempts s
      \<le> q_attempts (query_do env op s)" by (cases op) (auto simp: defs)
  from step show "of_bool (op = Op_worker \<and> sends (q_hist (query_do env op s)) \<noteq> sends (q_hist s)) + q_polls s
      \<le> q_polls (query_do env op s)" by (cases op) (auto simp: defs)
qed

lemma sending_counts:
  "sending env is_query ops s + q_attempts s \<le> q_attempts (fold (query_do env) ops s)"
  "sending env (\<lambda>op. op = Op_worker) ops s + q_polls s \<le> q_polls (fold (query_do env) ops s)"
proof (induction ops arbitrary: s)
  case (Cons op ops)
  { case 1 show ?case using Cons.IH(1) [of "query_do env op s"] do_counts(1) [of op env s] by simp }
  { case 2 show ?case using Cons.IH(2) [of "query_do env op s"] do_counts(2) [of op env s] by simp }
qed simp_all

lemma fold_books:
  assumes "books s" and "limited s"
  shows "books (fold (query_do env) ops s) \<and> good s (fold (query_do env) ops s)"
  using assms
proof (induction ops arbitrary: s)
  case (Cons op ops)
  have "good s (query_do env op s)" using within_do [of s env op] Cons.prems(2) by (simp add: within_def)
  with Cons.IH [of "query_do env op s"] do_books [OF Cons.prems] show ?case by (auto intro: obeys_trans)
qed (simp add: obeys_refl)

text \<open>
  C16. Whatever the embedded controller sends, whatever the transport answers and in whatever order the
  attributes are written, the worker runs and the service comes and goes, the driver only ever sends the
  12-byte read request and 64-byte writes of a listed command, none of them a reset, a cancel, a role or a
  mode change.  Counted on the messages themselves, at most 3 writes of the query attribute and at most 300
  runs of the worker send anything, and at most 64 acknowledgements of a connector event go out.
\<close>

theorem query_wire_safe:
  "let s = fold (query_do env) ops (query_zero [] once) in
    list_all (\<lambda>m. m = read_message \<or> (\<exists>cmd. uq_allowed cmd \<and> m = write_message cmd \<and>
      cmd AND 0xff \<in> {0x04, 0x05, 0x06, 0x07, 0x0c, 0x0e, 0x11, 0x12})) (sends (q_hist s)) \<and>
    sending env (\<lambda>op. \<exists>parsed. op = Op_query parsed) ops (query_zero [] once) \<le> 3 \<and>
    sending env (\<lambda>op. op = Op_worker) ops (query_zero [] once) \<le> 300 \<and>
    length (filter (\<lambda>m. m = write_message UQ_ACK_EVENT) (sends (q_hist s))) \<le> 64"
proof -
  define s where "s = fold (query_do env) ops (query_zero [] once)"
  have "books (query_zero [] once)" and "limited (query_zero [] once)"
    by (simp_all add: books_def booked_def event_acks_def limited_def query_zero_def)
  from fold_books [OF this] have "books s" and good: "good (query_zero [] once) s" unfolding s_def by blast+
  then have acks: "length (filter (\<lambda>m. m = write_message UQ_ACK_EVENT) (sends (q_hist s))) \<le> 64"
    by (simp add: books_def event_acks_def)
  have "permitted m \<Longrightarrow> m = read_message \<or> (\<exists>cmd. uq_allowed cmd \<and> m = write_message cmd \<and>
      cmd AND 0xff \<in> {0x04, 0x05, 0x06, 0x07, 0x0c, 0x0e, 0x11, 0x12})" for m
    unfolding permitted_def using uq_allowed_opcode by blast
  moreover have "list_all permitted (sends (q_hist s))" and "q_attempts s \<le> 3" "q_polls s \<le> 300"
    using good by (auto simp: obeys_def limited_def query_zero_def)
  ultimately show ?thesis
    using acks sending_counts [of env ops "query_zero [] once"]
    unfolding Let_def s_def [symmetric] by (simp add: list_all_iff s_def del: insert_iff)
qed

text \<open>
  C17. A failure is terminal: once the driver has recorded an error, no later operation changes it or
  sends anything.
\<close>

theorem query_failure_final:
  assumes "query_reach env s t" and "q_error s \<noteq> 0" and "q_attempts s \<le> 3" and "q_polls s \<le> 300" and "q_events s \<le> 64"
  shows "q_error t = q_error s \<and> sends (q_hist t) = sends (q_hist s)"
  using within_reach [OF assms(1)] assms(2-) by (auto simp: within_def limited_def obeys_def)

text \<open>A transport on which the service is up, no reply ever comes and the clock stands still.\<close>

definition deaf :: glink where
  "deaf = \<lparr>g_now = (\<lambda>_. 0), g_send = (\<lambda>_. 0), g_arrive = (\<lambda>h. if h = [] then [Service True] else []),
     g_nhi_complete = (\<lambda>_. True), g_hz = 250\<rparr>"

theorem query_wire_safe_witness:
  "sends (q_hist (query_do deaf (Op_query (Inr True)) (query_zero [] False))) = [read_message] \<and>
   q_error (query_do deaf (Op_query (Inr True)) (query_zero [] False)) = - ETIMEDOUT \<and>
   sending deaf (\<lambda>op. \<exists>parsed. op = Op_query parsed) [Op_query (Inr True)] (query_zero [] False) = 1 \<and>
   sending deaf (\<lambda>op. \<exists>parsed. op = Op_query parsed) (replicate 9 (Op_query (Inr True))) (query_zero [] False) \<le> 3"
proof -
  have run: "sends (q_hist (query_do deaf (Op_query (Inr True)) (query_zero [] False))) = [read_message] \<and>
      q_error (query_do deaf (Op_query (Inr True)) (query_zero [] False)) = - ETIMEDOUT"
    by code_simp
  moreover have "sends (q_hist (query_zero [] False)) = []" by (simp add: query_zero_def)
  ultimately show ?thesis
    using query_wire_safe [of deaf "replicate 9 (Op_query (Inr True))" False] by (simp add: Let_def del: replicate.simps)
qed

theorem query_failure_final_witness:
  "q_error (query_do deaf (Op_query (Inr True)) (query_zero [] False\<lparr>q_error := - EIO, q_service_up := True\<rparr>)) = - EIO \<and>
   sends (q_hist (query_do deaf (Op_query (Inr True)) (query_zero [] False\<lparr>q_error := - EIO, q_service_up := True\<rparr>))) = []"
proof -
  let ?s = "query_zero [] False\<lparr>q_error := - EIO, q_service_up := True\<rparr>"
  have "query_reach deaf ?s (query_do deaf (Op_query (Inr True)) ?s)"
    by (rule happens [OF probed]) simp
  from query_failure_final [OF this] show ?thesis by (simp add: query_zero_def)
qed

end
