(* ===== verification/X1_Fw.thy ===== *)
theory X1_Fw
  imports X1_Prelude
begin

text \<open>
  MCU firmware records (\<open>snapshot/module/qcom-usb4-fw.c\<close>).  An image is a sequence of records:
  a little-endian byte offset, a little-endian word count and that many little-endian words.
  \<open>qcom_usb4_fw_validate\<close> walks the image once without side effects,
  \<open>qcom_usb4_fw_upload\<close> walks it again and hands every word to a callback.

  The reference is \<open>fw_encode\<close>, the layout of a list of records, and \<open>fw_writes\<close>, the writes
  such a list asks for.  The image length stands for the C code's \<open>size\<close>; a read outside the
  image is \<^const>\<open>None\<close>.
\<close>

section \<open>The code\<close>

function fw_validate_from :: "u8 list \<Rightarrow> nat \<Rightarrow> nat \<Rightarrow> int option" where
  "fw_validate_from data ram_size pos =
     (if pos < length data then
        if length data - pos < 8 then Some (- EINVAL)
        else case (get_unaligned_le32 data pos, get_unaligned_le32 data (pos + 4)) of
          (Some offset, Some words) \<Rightarrow>
            (let pos' = pos + 8; bytes = unat words * 4 in
             if unat words > (length data - pos') div 4 then Some (- EINVAL)
             else if unat offset mod 4 \<noteq> 0 then Some (- EINVAL)
             else if bytes > unat (- 1 - offset) then Some (- EOVERFLOW)
             else if unat offset > ram_size \<or> bytes > ram_size - unat offset then Some (- EFBIG)
             else fw_validate_from data ram_size (pos' + bytes))
        | _ \<Rightarrow> None
      else Some 0)"
  by pat_completeness auto
termination
  by (relation "measure (\<lambda>(data, ram_size, pos). length data - pos)") auto

declare fw_validate_from.simps [simp del]

definition qcom_usb4_fw_validate :: "u8 list option \<Rightarrow> nat \<Rightarrow> int option" where
  "qcom_usb4_fw_validate data ram_size =
     (case data of
        None \<Rightarrow> Some (- EINVAL)
      | Some d \<Rightarrow> if length d = 0 then Some (- EINVAL) else fw_validate_from d ram_size 0)"

text \<open>
  The inner loop of the upload, \<open>while (words--)\<close>, then the outer loop.  The callback is a
  program of its own, so that a caller can pass any transport.
\<close>

fun fw_upload_words ::
    "(u32 \<Rightarrow> u32 \<Rightarrow> ('s, int) state) \<Rightarrow> u8 list \<Rightarrow> nat \<Rightarrow> u32 \<Rightarrow> nat \<Rightarrow> 's \<Rightarrow> int option \<times> 's" where
  "fw_upload_words write_word data 0 offset pos s = (Some 0, s)"
| "fw_upload_words write_word data (Suc words) offset pos s =
     (case get_unaligned_le32 data pos of
        None \<Rightarrow> (None, s)
      | Some v \<Rightarrow>
          (case run_state (write_word offset v) s of
             (ret, s') \<Rightarrow> if ret \<noteq> 0 then (Some ret, s')
                         else fw_upload_words write_word data words (offset + 4) (pos + 4) s'))"

function fw_upload_from ::
    "(u32 \<Rightarrow> u32 \<Rightarrow> ('s, int) state) \<Rightarrow> u8 list \<Rightarrow> nat \<Rightarrow> 's \<Rightarrow> int option \<times> 's" where
  "fw_upload_from write_word data pos s =
     (if pos < length data then
        case (get_unaligned_le32 data pos, get_unaligned_le32 data (pos + 4)) of
          (Some offset, Some words) \<Rightarrow>
            (case fw_upload_words write_word data (unat words) offset (pos + 8) s of
               (Some ret, s') \<Rightarrow>
                 if ret \<noteq> 0 then (Some ret, s')
                 else fw_upload_from write_word data (pos + 8 + unat words * 4) s'
             | (None, s') \<Rightarrow> (None, s'))
        | _ \<Rightarrow> (None, s)
      else (Some 0, s))"
  by pat_completeness auto
termination
  by (relation "measure (\<lambda>(write_word, data, pos, s). length data - pos)") auto

declare fw_upload_from.simps [simp del]

definition qcom_usb4_fw_upload ::
    "(u32 \<Rightarrow> u32 \<Rightarrow> ('s, int) state) option \<Rightarrow> u8 list option \<Rightarrow> nat \<Rightarrow> ('s, int option) state" where
  "qcom_usb4_fw_upload write_word data ram_size =
     (case write_word of
        None \<Rightarrow> State_Monad.return (Some (- EINVAL))
      | Some cb \<Rightarrow>
          (case qcom_usb4_fw_validate data ram_size of
             None \<Rightarrow> State_Monad.return None
           | Some ret \<Rightarrow>
               if ret \<noteq> 0 then State_Monad.return (Some ret)
               else (case data of
                       None \<Rightarrow> State_Monad.return None
                     | Some d \<Rightarrow> State (fw_upload_from cb d 0))))"

section \<open>The reference\<close>

type_synonym fw_record = "u32 \<times> u32 list"

definition words_bytes :: "u32 list \<Rightarrow> u8 list" where
  "words_bytes ws = concat (map le32_bytes ws)"

definition record_bytes :: "fw_record \<Rightarrow> u8 list" where
  "record_bytes r = le32_bytes (fst r) @ le32_bytes (of_nat (length (snd r))) @ words_bytes (snd r)"

definition fw_encode :: "fw_record list \<Rightarrow> u8 list" where
  "fw_encode rs = concat (map record_bytes rs)"

text \<open>A record fits: its count is a \<open>u32\<close>, its offset is a word offset, and the words end
  inside both the 32-bit offset space and the MCU's RAM.\<close>

definition record_fits :: "nat \<Rightarrow> fw_record \<Rightarrow> bool" where
  "record_fits ram_size r \<longleftrightarrow>
     4 dvd unat (fst r) \<and> unat (fst r) + 4 * length (snd r) < 2 ^ 32 \<and>
     unat (fst r) + 4 * length (snd r) \<le> ram_size"

definition record_writes :: "fw_record \<Rightarrow> (u32 \<times> u32) list" where
  "record_writes r = map (\<lambda>i. (fst r + of_nat (4 * i), snd r ! i)) [0..<length (snd r)]"

definition fw_writes :: "fw_record list \<Rightarrow> (u32 \<times> u32) list" where
  "fw_writes rs = concat (map record_writes rs)"

section \<open>Lemmas\<close>

lemma length_words_bytes [simp]: "length (words_bytes ws) = 4 * length ws"
  by (induction ws) (auto simp: words_bytes_def)

lemma words_bytes_simps [simp]:
  "words_bytes [] = []" "words_bytes (w # ws) = le32_bytes w @ words_bytes ws"
  by (simp_all add: words_bytes_def)

lemma length_record_bytes [simp]: "length (record_bytes r) = 8 + 4 * length (snd r)"
  by (simp add: record_bytes_def)

lemma fw_encode_simps [simp]:
  "fw_encode [] = []" "fw_encode (r # rs) = record_bytes r @ fw_encode rs"
  by (simp_all add: fw_encode_def)

lemma fw_encode_append: "fw_encode (rs @ ts) = fw_encode rs @ fw_encode ts"
  by (induction rs) simp_all

lemma fw_encode_Nil_iff: "fw_encode rs = [] \<longleftrightarrow> rs = []"
  by (cases rs) (auto simp: record_bytes_def le32_bytes_def)

lemma get_le32_at:
  "get_unaligned_le32 (xs @ le32_bytes v @ ys) (length xs) = Some v"
  by (simp add: get_le32_skip get_le32_front)

lemma get_le32_take:
  assumes "get_unaligned_le32 bs off = Some v"
  shows "drop off bs = le32_bytes v @ drop (off + 4) bs"
proof -
  from assms have len: "off + 4 \<le> length bs"
    and v: "v = be32_of (bs ! (off + 3)) (bs ! (off + 2)) (bs ! (off + 1)) (bs ! off)"
    by (auto simp: get_unaligned_le32_def split: if_splits)
  have "drop off bs = [bs ! off, bs ! (off + 1), bs ! (off + 2), bs ! (off + 3)] @ drop (off + 4) bs"
    using len by (simp add: Cons_nth_drop_Suc numeral_eq_Suc)
  then show ?thesis by (simp add: v le32_bytes_def)
qed

text \<open>Any aligned run of bytes is the layout of a list of words.\<close>

lemma words_bytes_exists:
  "length bs = 4 * n \<Longrightarrow> \<exists>ws. length ws = n \<and> bs = words_bytes ws"
proof (induction n arbitrary: bs)
  case 0
  then show ?case by simp
next
  case (Suc n)
  then obtain v where "get_unaligned_le32 bs 0 = Some v"
    using get_le32_Some [of 0 bs] by auto
  then have bs: "bs = le32_bytes v @ drop 4 bs" using get_le32_take [of bs 0 v] by simp
  from Suc obtain ws where "length ws = n" "drop 4 bs = words_bytes ws" by force
  with bs show ?case by (intro exI [of _ "v # ws"]) simp
qed

lemma unat_max_minus: "unat (- 1 - (w :: u32)) = 2 ^ 32 - 1 - unat w"
  using unat_sub_if' [of "- 1" w] unat_u32_less [of w]
  by (simp add: unsigned_minus_1_eq_mask mask_eq_exp_minus_1)

lemma fw_validate_from_total: "\<exists>ret. fw_validate_from data ram_size pos = Some ret"
proof (induction data ram_size pos rule: fw_validate_from.induct)
  case (1 data ram_size pos)
  show ?case
  proof (cases "pos < length data \<and> \<not> length data - pos < 8")
    case False
    then show ?thesis by (subst fw_validate_from.simps) auto
  next
    case True
    then obtain v w where "get_unaligned_le32 data pos = Some v"
      "get_unaligned_le32 data (pos + 4) = Some w"
      using get_le32_Some [of pos data] get_le32_Some [of "pos + 4" data] by force
    with True "1" show ?thesis by (subst fw_validate_from.simps) (auto simp: Let_def)
  qed
qed

lemma fw_validate_from_sound:
  "fw_validate_from data ram_size pos = Some 0 \<Longrightarrow> pos \<le> length data \<Longrightarrow>
   \<exists>rs. drop pos data = fw_encode rs \<and> (\<forall>r \<in> set rs. record_fits ram_size r)"
proof (induction data ram_size pos rule: fw_validate_from.induct)
  case (1 data ram_size pos)
  show ?case
  proof (cases "pos < length data")
    case False
    with "1.prems" show ?thesis by (intro exI [of _ "[]"]) simp
  next
    case True
    with "1.prems" obtain offset words where
      g: "get_unaligned_le32 data pos = Some offset" "get_unaligned_le32 data (pos + 4) = Some words"
      and room: "\<not> length data - pos < 8" "\<not> unat words > (length data - (pos + 8)) div 4"
      and align: "unat offset mod 4 = 0"
      and no_wrap: "\<not> unat words * 4 > unat (- 1 - offset)"
      and in_ram: "\<not> (unat offset > ram_size \<or> unat words * 4 > ram_size - unat offset)"
      and rec: "fw_validate_from data ram_size (pos + 8 + unat words * 4) = Some 0"
      by (subst (asm) (1) fw_validate_from.simps)
        (auto simp: Let_def split: if_splits option.splits)
    have len: "pos + 8 + unat words * 4 \<le> length data" using room by linarith
    with "1.IH" True g room align no_wrap in_ram rec obtain rs where
      rs: "drop (pos + 8 + unat words * 4) data = fw_encode rs"
        "\<forall>r \<in> set rs. record_fits ram_size r" by fastforce
    obtain ws where ws: "length ws = unat words"
      "take (unat words * 4) (drop (pos + 8) data) = words_bytes ws"
      using words_bytes_exists [of "take (unat words * 4) (drop (pos + 8) data)" "unat words"] len
      by auto
    have "drop pos data = le32_bytes offset @ le32_bytes words @ drop (pos + 8) data"
      using get_le32_take [OF g(1)] get_le32_take [OF g(2)] by (simp add: add.commute)
    also have "drop (pos + 8) data = words_bytes ws @ fw_encode rs"
      using ws(2) rs(1) append_take_drop_id [of "unat words * 4" "drop (pos + 8) data"]
      by (simp add: add.commute)
    finally have "drop pos data = fw_encode ((offset, ws) # rs)"
      using ws(1) by (simp add: record_bytes_def)
    moreover have "record_fits ram_size (offset, ws)"
      using align no_wrap in_ram ws(1) unat_u32_less [of offset]
      unfolding record_fits_def unat_max_minus dvd_eq_mod_eq_0 by auto
    ultimately show ?thesis using rs(2) by (intro exI [of _ "(offset, ws) # rs"]) simp
  qed
qed

lemma record_count: "record_fits ram_size r \<Longrightarrow> unat (of_nat (length (snd r)) :: u32) = length (snd r)"
  by (simp add: record_fits_def unat_of_nat)

lemma fw_validate_from_complete:
  "(\<forall>r \<in> set rs. record_fits ram_size r) \<Longrightarrow>
   fw_validate_from (pre @ fw_encode rs) ram_size (length pre) = Some 0"
proof (induction rs arbitrary: pre)
  case Nil
  then show ?case by (subst fw_validate_from.simps) simp
next
  case (Cons r rs)
  from Cons.prems have r: "record_fits ram_size r" by simp
  have "fw_validate_from (pre @ fw_encode (r # rs)) ram_size (length (pre @ record_bytes r)) = Some 0"
    using Cons.IH [of "pre @ record_bytes r"] Cons.prems by simp
  moreover have "get_unaligned_le32 (pre @ fw_encode (r # rs)) (length pre) = Some (fst r)"
    "get_unaligned_le32 (pre @ fw_encode (r # rs)) (length pre + 4) = Some (of_nat (length (snd r)))"
    by (simp_all add: record_bytes_def byte_simps)
  ultimately show ?case
    using r record_count [OF r] unat_u32_less [of "fst r"]
    by (subst fw_validate_from.simps)
      (auto simp: Let_def record_fits_def unat_max_minus dvd_eq_mod_eq_0 algebra_simps)
qed

lemma record_writes_Cons:
  "record_writes (off, w # ws) = (off, w) # record_writes (off + 4, ws)"
  by (simp add: record_writes_def upt_conv_Cons map_Suc_upt [symmetric] algebra_simps
      del: upt_Suc)

lemma fw_upload_words_eq:
  "fw_upload_words cb (pre @ words_bytes ws @ suf) (length ws) off (length pre) s =
   apfst Some (run_state (run_ok (map (\<lambda>(o', v). cb o' v) (record_writes (off, ws)))) s)"
proof (induction ws arbitrary: off pre s)
  case Nil
  then show ?case by (simp add: record_writes_def)
next
  case (Cons w ws)
  have "get_unaligned_le32 (pre @ words_bytes (w # ws) @ suf) (length pre) = Some w"
    by (simp add: byte_simps)
  moreover have "fw_upload_words cb (pre @ words_bytes (w # ws) @ suf) (length ws) (off + 4)
      (length pre + 4) s' =
    apfst Some (run_state (run_ok (map (\<lambda>(o', v). cb o' v) (record_writes (off + 4, ws)))) s')" for s'
    using Cons.IH [of "pre @ le32_bytes w" "off + 4" s'] by simp
  ultimately show ?case by (simp add: record_writes_Cons split: prod.splits)
qed

lemma fw_upload_from_eq:
  "(\<forall>r \<in> set rs. record_fits ram_size r) \<Longrightarrow>
   fw_upload_from cb (pre @ fw_encode rs) (length pre) s =
   apfst Some (run_state (run_ok (map (\<lambda>(o', v). cb o' v) (fw_writes rs))) s)"
proof (induction rs arbitrary: pre s)
  case Nil
  then show ?case by (subst fw_upload_from.simps) (simp add: fw_writes_def)
next
  case (Cons r rs)
  from Cons.prems have r: "record_fits ram_size r" by simp
  let ?data = "pre @ fw_encode (r # rs)"
  have g: "get_unaligned_le32 ?data (length pre) = Some (fst r)"
    "get_unaligned_le32 ?data (length pre + 4) = Some (of_nat (length (snd r)))"
    by (simp_all add: record_bytes_def byte_simps)
  have words: "fw_upload_words cb ?data (length (snd r)) (fst r) (length pre + 8) s =
    apfst Some (run_state (run_ok (map (\<lambda>(o', v). cb o' v) (record_writes r))) s)"
    using fw_upload_words_eq [of cb "pre @ le32_bytes (fst r) @ le32_bytes (of_nat (length (snd r)))"
        "snd r" "fw_encode rs" "fst r" s]
    by (simp add: record_bytes_def algebra_simps)
  have rest: "fw_upload_from cb ?data (length pre + 8 + length (snd r) * 4) s' =
    apfst Some (run_state (run_ok (map (\<lambda>(o', v). cb o' v) (fw_writes rs))) s')" for s'
    using Cons.IH [of "pre @ record_bytes r" s'] Cons.prems by (simp add: algebra_simps)
  show ?case
    using g words rest record_count [OF r]
    by (subst fw_upload_from.simps)
      (auto simp: fw_writes_def run_ok_append split: prod.splits)
qed

text \<open>Every write of a fitting record is word aligned and lies wholly inside the RAM.\<close>

lemma record_writes_fit:
  assumes "record_fits ram_size r" and "(off, v) \<in> set (record_writes r)"
  shows "4 dvd unat off \<and> unat off + 4 \<le> ram_size"
proof -
  from assms(2) obtain i where i: "i < length (snd r)" "off = fst r + of_nat (4 * i)"
    by (auto simp: record_writes_def)
  with assms(1) have lt: "unat (fst r) + 4 * i + 4 \<le> ram_size" "unat (fst r) + 4 * i < 2 ^ 32"
    by (auto simp: record_fits_def)
  then have "unat (of_nat (4 * i) :: u32) = 4 * i"
    unfolding unat_of_nat by (simp add: take_bit_nat_eq_self_iff)
  with i lt have "unat off = unat (fst r) + 4 * i"
    by (simp add: unat_word_ariths)
  with assms(1) lt show ?thesis by (auto simp: record_fits_def)
qed

lemma fw_validate_accepts:
  assumes "rs \<noteq> []" and "list_all (record_fits ram_size) rs"
  shows "qcom_usb4_fw_validate (Some (fw_encode rs)) ram_size = Some 0"
  using assms fw_validate_from_complete [of rs ram_size "[]"] fw_encode_Nil_iff [of rs]
  by (auto simp: qcom_usb4_fw_validate_def list_all_iff)

lemma fw_validate_records:
  assumes ok: "qcom_usb4_fw_validate (Some data) ram_size = Some 0"
  obtains rs where "rs \<noteq> []" and "data = fw_encode rs" and "list_all (record_fits ram_size) rs"
proof -
  from ok have ne: "data \<noteq> []" and "fw_validate_from data ram_size 0 = Some 0"
    by (auto simp: qcom_usb4_fw_validate_def split: if_splits)
  with fw_validate_from_sound [of data ram_size 0] obtain rs
    where "data = fw_encode rs" "\<forall>r \<in> set rs. record_fits ram_size r" by auto
  with ne that [of rs] show ?thesis by (auto simp: list_all_iff fw_encode_Nil_iff)
qed

lemma fw_validate_total: "\<exists>ret. qcom_usb4_fw_validate data ram_size = Some ret"
  using fw_validate_from_total by (auto simp: qcom_usb4_fw_validate_def split: option.splits)

lemma fw_upload_runs:
  assumes "rs \<noteq> []" and "list_all (record_fits ram_size) rs"
  shows "run_state (qcom_usb4_fw_upload (Some cb) (Some (fw_encode rs)) ram_size) s =
    apfst Some (run_state (run_ok (map (\<lambda>(off, v). cb off v) (fw_writes rs))) s)"
  using fw_validate_accepts [OF assms] assms(2) fw_upload_from_eq [of rs ram_size cb "[]" s]
  by (simp add: qcom_usb4_fw_upload_def list_all_iff)

lemma fw_writes_fit:
  "list_all (record_fits ram_size) rs \<Longrightarrow> (off, v) \<in> set (fw_writes rs) \<Longrightarrow>
     4 dvd unat off \<and> unat off + 4 \<le> ram_size"
  by (auto simp: fw_writes_def list_all_iff dest: record_writes_fit)

text \<open>A traversal keeps whatever every single callback keeps, for any data at all.\<close>

lemma fw_upload_words_keeps:
  assumes R: "history_order R" and cb: "\<And>off v. keeps R (cb off v)"
  shows "R s (snd (fw_upload_words cb data n off pos s))"
proof (induction n arbitrary: off pos s)
  case 0
  show ?case using history_order.refl [OF R] by simp
next
  case (Suc n)
  show ?case
  proof (cases "get_unaligned_le32 data pos")
    case None
    then show ?thesis using history_order.refl [OF R] by simp
  next
    case (Some v)
    obtain r s1 where r: "run_state (cb off v) s = (r, s1)" by (cases "run_state (cb off v) s")
    from keepsD [OF cb r] have "R s s1" .
    with Some r history_order.trans [OF R this Suc.IH] show ?thesis by simp
  qed
qed

lemma fw_upload_from_keeps:
  assumes R: "history_order R" and cb: "\<And>off v. keeps R (cb off v)"
  shows "R s (snd (fw_upload_from cb data pos s))"
proof (induction "length data - pos" arbitrary: pos s rule: less_induct)
  case less
  note refl = history_order.refl [OF R] and trans = history_order.trans [OF R]
  show ?case
  proof (cases "pos < length data \<and> get_unaligned_le32 data pos \<noteq> None \<and> get_unaligned_le32 data (pos + 4) \<noteq> None")
    case False
    then show ?thesis by (subst fw_upload_from.simps) (auto simp: refl split: option.splits)
  next
    case True
    then obtain offset words where
      g: "get_unaligned_le32 data pos = Some offset" "get_unaligned_le32 data (pos + 4) = Some words" by auto
    obtain r s1 where w: "fw_upload_words cb data (unat words) offset (pos + 8) s = (r, s1)"
      by (cases "fw_upload_words cb data (unat words) offset (pos + 8) s")
    then have s1: "R s s1"
      using fw_upload_words_keeps [of R cb s data "unat words" offset "pos + 8", OF R cb] by simp
    show ?thesis
    proof (cases "r = Some 0")
      case True
      from g(1) have "length data - (pos + 8 + unat words * 4) < length data - pos"
        by (auto simp: get_unaligned_le32_def split: if_splits)
      from trans [OF s1 less [OF this]] True g w show ?thesis
        by (subst fw_upload_from.simps) (use \<open>pos < length data \<and> _ \<and> _\<close> in simp)
    next
      case False
      with s1 g w show ?thesis
        by (subst fw_upload_from.simps) (auto simp: refl split: option.splits)
    qed
  qed
qed

section \<open>Properties\<close>

text \<open>
  C23.  The validator accepts an image exactly when the image is the layout of a nonempty list
  of records that all fit the MCU's RAM, and it never reads outside the image.
\<close>

theorem fw_validate_iff:
  "qcom_usb4_fw_validate (Some data) ram_size \<noteq> None \<and>
   (qcom_usb4_fw_validate (Some data) ram_size = Some 0 \<longleftrightarrow>
    (\<exists>rs. rs \<noteq> [] \<and> data = fw_encode rs \<and> list_all (record_fits ram_size) rs))"
  using fw_validate_total [of "Some data" ram_size]
  by (auto intro: fw_validate_accepts elim: fw_validate_records)

text \<open>
  C24.  An image the validator refuses is never partly uploaded: the upload returns the
  validator's error and makes no callback.  An accepted image is uploaded word by word in
  record order, exactly as a run of the callback over the writes of its records, stopping at
  the first callback failure; every write is word aligned and inside the RAM.
\<close>

theorem fw_upload_exact:
  "(qcom_usb4_fw_validate (Some data) ram_size = Some ret \<longrightarrow> ret \<noteq> 0 \<longrightarrow>
      run_state (qcom_usb4_fw_upload (Some cb) (Some data) ram_size) s = (Some ret, s)) \<and>
   (qcom_usb4_fw_validate (Some data) ram_size = Some 0 \<longrightarrow>
      (\<exists>rs. data = fw_encode rs \<and>
         run_state (qcom_usb4_fw_upload (Some cb) (Some data) ram_size) s =
           apfst Some (run_state (run_ok (map (\<lambda>(off, v). cb off v) (fw_writes rs))) s) \<and>
         (\<forall>(off, v) \<in> set (fw_writes rs). 4 dvd unat off \<and> unat off + 4 \<le> ram_size)))"
proof (intro conjI impI)
  assume "qcom_usb4_fw_validate (Some data) ram_size = Some ret" "ret \<noteq> 0"
  then show "run_state (qcom_usb4_fw_upload (Some cb) (Some data) ram_size) s = (Some ret, s)"
    by (simp add: qcom_usb4_fw_upload_def)
next
  assume ok: "qcom_usb4_fw_validate (Some data) ram_size = Some 0"
  then obtain rs where
    rs: "data = fw_encode rs" "rs \<noteq> []" "list_all (record_fits ram_size) rs" by (metis fw_validate_records)
  from fw_upload_runs [OF rs(2,3)]
  have "run_state (qcom_usb4_fw_upload (Some cb) (Some data) ram_size) s =
      apfst Some (run_state (run_ok (map (\<lambda>(off, v). cb off v) (fw_writes rs))) s)"
    by (simp add: rs(1))
  moreover have "\<forall>(off, v) \<in> set (fw_writes rs). 4 dvd unat off \<and> unat off + 4 \<le> ram_size"
    using fw_writes_fit [OF rs(3)] by blast
  ultimately show "\<exists>rs. data = fw_encode rs \<and>
         run_state (qcom_usb4_fw_upload (Some cb) (Some data) ram_size) s =
           apfst Some (run_state (run_ok (map (\<lambda>(off, v). cb off v) (fw_writes rs))) s) \<and>
         (\<forall>(off, v) \<in> set (fw_writes rs). 4 dvd unat off \<and> unat off + 4 \<le> ram_size)"
    using rs(1) by blast
qed

text \<open>A one-record image: offset 4, one word.\<close>

theorem fw_upload_exact_witness:
  "qcom_usb4_fw_validate (Some [4, 0, 0, 0, 1, 0, 0, 0, 5, 0, 0, 0]) 64 = Some 0 \<and>
   (\<exists>rs. [4, 0, 0, 0, 1, 0, 0, 0, 5, 0, 0, 0] = fw_encode rs \<and>
      run_state (qcom_usb4_fw_upload (Some (\<lambda>off v. perform (\<lambda>_. 0) (\<lambda>_. (off, v))))
          (Some [4, 0, 0, 0, 1, 0, 0, 0, 5, 0, 0, 0]) 64) [] =
        apfst Some (run_state (run_ok (map (\<lambda>(off, v). perform (\<lambda>_. 0) (\<lambda>_. (off, v)))
          (fw_writes rs))) []))"
proof -
  have ok: "qcom_usb4_fw_validate (Some [4, 0, 0, 0, 1, 0, 0, 0, 5, 0, 0, 0]) 64 = Some 0"
    by (simp add: qcom_usb4_fw_validate_def fw_validate_from.simps get_unaligned_le32_def
        be32_of_def unat_max_minus)
  with fw_upload_exact [of "[4, 0, 0, 0, 1, 0, 0, 0, 5, 0, 0, 0]" 64 0
      "\<lambda>off v. perform (\<lambda>_. 0) (\<lambda>_. (off, v))" "[]"]
  show ?thesis by auto
qed

end
