(* ===== verification/X1_Drom.thy ===== *)
theory X1_Drom
  imports X1_Prelude
begin

text \<open>
  The device ROM the host hands to the router's MCU: \<open>snapshot/module/qcom-usb4-drom.c\<close> builds
  it from the SoC serial number and the router index, \<open>snapshot/module/qcom-usb4-x1-drom.c\<close>
  patches three bytes and recomputes the checksum.  \<open>crc32c\<close> is the kernel's library function
  and stays a parameter; the 8-bit CRC over the unique ID is the source's own and is modelled
  bit by bit.
\<close>

section \<open>The code\<close>

definition QCOM_USB4_DROM_SIZE :: nat where
  "QCOM_USB4_DROM_SIZE = 116"

definition qcom_usb4_drom_data :: "u8 list" where
  "qcom_usb4_drom_data = [
     0x01, 0x67, 0x00, 0x28, 0x03, 0x00, 0x00, 0x00, 0x00, 0x05, 0x86, 0x00,
     0x00, 0x00, 0x05, 0x87, 0x00, 0x00, 0x00, 0x1e, 0x01, 0x51, 0x75, 0x61,
     0x6c, 0x63, 0x6f, 0x6d, 0x6d, 0x20, 0x54, 0x65, 0x63, 0x68, 0x6e, 0x6f,
     0x6c, 0x6f, 0x67, 0x69, 0x65, 0x73, 0x2c, 0x20, 0x49, 0x6e, 0x63, 0x2e,
     0x00, 0x11, 0x02, 0x53, 0x6e, 0x61, 0x70, 0x64, 0x72, 0x61, 0x67, 0x6f,
     0x6e, 0x20, 0x30, 0x31, 0x42, 0x00, 0x0f, 0x09, 0x10, 0x04, 0xc6, 0x05,
     0x38, 0x09, 0x00, 0x00, 0xeb, 0x34, 0x00, 0x00, 0x00, 0x08, 0x82, 0x80,
     0x03, 0x00, 0x00, 0x00, 0x00, 0x08, 0x83, 0x90, 0x02, 0x00, 0x00, 0x00,
     0x00, 0x03, 0x84, 0x00, 0x03, 0x08, 0x06]"

text \<open>One round of the inner loop, the inner loop, and the loop over the eight bytes.\<close>

definition uid_crc_bit :: "u8 \<Rightarrow> u8" where
  "uid_crc_bit crc = push_bit 1 crc XOR (if crc AND 0x80 \<noteq> 0 then 0x07 else 0)"

definition uid_crc_byte :: "u8 \<Rightarrow> u8 \<Rightarrow> u8" where
  "uid_crc_byte b crc = (uid_crc_bit ^^ 8) (crc XOR b)"

definition qcom_usb4_uid_crc :: "u8 list \<Rightarrow> u8" where
  "qcom_usb4_uid_crc data = fold uid_crc_byte (take 8 data) 0xff"

definition drom_uid :: "u32 \<Rightarrow> u8 \<Rightarrow> u64" where
  "drom_uid serial router = push_bit 48 0x5c6 OR push_bit 4 (ucast serial) OR ucast router"

text \<open>
  The buffer's length stands for \<open>size\<close>.  The result is the status and the buffer; an access
  outside the buffer would be \<^const>\<open>None\<close>.
\<close>

definition qcom_usb4_drom_build ::
    "(u32 \<Rightarrow> u8 list \<Rightarrow> u32) \<Rightarrow> u8 list option \<Rightarrow> u32 \<Rightarrow> u8 \<Rightarrow> (int \<times> u8 list option) option" where
  "qcom_usb4_drom_build crc32c buf serial router =
     (case buf of
        None \<Rightarrow> Some (- EINVAL, None)
      | Some data \<Rightarrow>
          if length data < QCOM_USB4_DROM_SIZE \<or> router > 2 then Some (- EINVAL, Some data)
          else do {
            data \<leftarrow> put_unaligned_le64 (drom_uid serial router) data 1;
            data \<leftarrow> put_bytes data 0 [qcom_usb4_uid_crc (drop 1 data)];
            data \<leftarrow> put_bytes data 13 qcom_usb4_drom_data;
            let crc = NOT (crc32c (NOT 0) (take (length qcom_usb4_drom_data) (drop 13 data)));
            data \<leftarrow> put_unaligned_le32 crc data 9;
            Some (0, Some data)
          })"

definition qcom_usb4_x1_drom_build ::
    "(u32 \<Rightarrow> u8 list \<Rightarrow> u32) \<Rightarrow> u8 list option \<Rightarrow> u32 \<Rightarrow> u8 \<Rightarrow> (int \<times> u8 list option) option" where
  "qcom_usb4_x1_drom_build crc32c buf serial router =
     (case qcom_usb4_drom_build crc32c buf serial router of
        Some (ret, Some data) \<Rightarrow>
          if ret \<noteq> 0 then Some (ret, Some data)
          else do {
            data \<leftarrow> put_bytes data 0x4d [0x41];
            data \<leftarrow> put_bytes data 0x59 [0x33];
            data \<leftarrow> put_bytes data 0x5a [0x28];
            data \<leftarrow> put_unaligned_le32
              (NOT (crc32c (NOT 0) (take (QCOM_USB4_DROM_SIZE - 13) (drop 13 data)))) data 9;
            Some (0, Some data)
          }
      | r \<Rightarrow> r)"

section \<open>The reference layout\<close>

definition x1_drom_data :: "u8 list" where
  "x1_drom_data = qcom_usb4_drom_data[64 := 0x41, 76 := 0x33, 77 := 0x28]"

definition drom_layout :: "(u32 \<Rightarrow> u8 list \<Rightarrow> u32) \<Rightarrow> u64 \<Rightarrow> u8 list \<Rightarrow> u8 list" where
  "drom_layout crc32c uid payload =
     [qcom_usb4_uid_crc (le64_bytes uid)] @ le64_bytes uid @
     le32_bytes (NOT (crc32c (NOT 0) payload)) @ payload"

section \<open>Lemmas\<close>

lemma length_drom_data [simp]:
  "length qcom_usb4_drom_data = 103" "length x1_drom_data = 103"
  by (simp_all add: qcom_usb4_drom_data_def x1_drom_data_def)

lemma length_drom_layout: "length (drom_layout crc32c uid payload) = 13 + length payload"
  by (simp add: drom_layout_def)

lemma uid_crc_bit_inj: "uid_crc_bit x = uid_crc_bit y \<Longrightarrow> x = y"
proof -
  assume eq: "uid_crc_bit x = uid_crc_bit y"
  have low: "bit (uid_crc_bit z) 0 \<longleftrightarrow> bit z 7" for z
    using and_exp_eq_0_iff_not_bit [of z 7] by (simp add: uid_crc_bit_def bit_xor_iff bit_0 even_xor_iff)
  have "bit x 7 = bit y 7" using low [of x] low [of y] eq by simp
  then have top: "(x AND 0x80 \<noteq> 0) = (y AND 0x80 \<noteq> 0)"
    using and_exp_eq_0_iff_not_bit [of x 7] and_exp_eq_0_iff_not_bit [of y 7] by simp
  from eq have shifted: "push_bit 1 x = push_bit 1 y"
    unfolding uid_crc_bit_def top xor_cancel .
  show "x = y"
  proof (rule bit_word_eqI)
    fix n assume n: "n < LENGTH(8)"
    show "bit x n = bit y n"
    proof (cases "n = 7")
      case True
      then show ?thesis using \<open>bit x 7 = bit y 7\<close> by simp
    next
      case False
      with n have "bit (push_bit 1 x) (Suc n) = bit x n" "bit (push_bit 1 y) (Suc n) = bit y n"
        unfolding bit_push_bit_iff by simp_all
      with shifted show ?thesis by simp
    qed
  qed
qed

lemma uid_crc_bits_inj: "(uid_crc_bit ^^ n) x = (uid_crc_bit ^^ n) y \<Longrightarrow> x = y"
  by (induction n arbitrary: x y) (auto dest: uid_crc_bit_inj)

lemma uid_crc_byte_inj_crc: "uid_crc_byte b c = uid_crc_byte b d \<Longrightarrow> c = d"
  unfolding uid_crc_byte_def by (drule uid_crc_bits_inj) (simp add: xor_cancel)

lemma uid_crc_byte_inj_data: "uid_crc_byte a c = uid_crc_byte b c \<Longrightarrow> a = b"
  unfolding uid_crc_byte_def
  by (drule uid_crc_bits_inj) (simp add: xor.commute [of c] xor_cancel)

lemma fold_uid_crc_inj: "fold uid_crc_byte bs c = fold uid_crc_byte bs d \<Longrightarrow> c = d"
proof (induction bs arbitrary: c d)
  case (Cons b bs)
  then have "uid_crc_byte b c = uid_crc_byte b d" by simp
  then show ?case by (rule uid_crc_byte_inj_crc)
qed simp

text \<open>The unique ID carries the vendor, the whole serial number and the router index.\<close>

lemma drom_uid_fields:
  assumes "router \<le> 2"
  shows "drop_bit 48 (drom_uid serial router) = 0x5c6"
    and "ucast (drop_bit 4 (drom_uid serial router)) = serial"
    and "ucast (take_bit 4 (drom_uid serial router)) = router"
proof -
  have "unat router < 2 ^ 2" using assms by (simp add: word_le_nat_alt)
  note r = bit_unat_le [OF this]
  define vendor :: u64 where "vendor = 0x5c6"
  have "unat vendor < 2 ^ 16" by (simp add: vendor_def)
  note v = bit_unat_le [OF this]
  have uid: "drom_uid serial router = push_bit 48 vendor OR push_bit 4 (ucast serial) OR ucast router"
    by (simp add: drom_uid_def vendor_def)
  have "drop_bit 48 (drom_uid serial router) = vendor"
    unfolding uid by (rule bit_word_eqI) (auto simp: bit_simps dest: bit_imp_le_length v r)
  then show "drop_bit 48 (drom_uid serial router) = 0x5c6" by (simp add: vendor_def)
  show "ucast (drop_bit 4 (drom_uid serial router)) = serial"
    unfolding uid by (rule bit_word_eqI) (auto simp: bit_simps dest: bit_imp_le_length v r)
  show "ucast (take_bit 4 (drom_uid serial router)) = router"
    unfolding uid by (rule bit_word_eqI) (auto simp: bit_simps dest: bit_imp_le_length v r)
qed

lemma uid_crc_single_byte:
  assumes "i < 8" and "length bs = 8" and "b \<noteq> bs ! i"
  shows "qcom_usb4_uid_crc (bs[i := b]) \<noteq> qcom_usb4_uid_crc bs"
proof
  assume eq: "qcom_usb4_uid_crc (bs[i := b]) = qcom_usb4_uid_crc bs"
  have split: "bs = take i bs @ bs ! i # drop (Suc i) bs"
    "bs[i := b] = take i bs @ b # drop (Suc i) bs"
    using assms by (simp_all add: id_take_nth_drop upd_conv_take_nth_drop)
  let ?c = "fold uid_crc_byte (take i bs) 0xff"
  have "fold uid_crc_byte (drop (Suc i) bs) (uid_crc_byte b ?c) =
      fold uid_crc_byte (drop (Suc i) bs) (uid_crc_byte (bs ! i) ?c)"
  proof -
    have "fold uid_crc_byte (take i bs @ b # drop (Suc i) bs) 0xff =
        fold uid_crc_byte (take i bs @ bs ! i # drop (Suc i) bs) 0xff"
      using eq assms split by (simp add: qcom_usb4_uid_crc_def)
    then show ?thesis by simp
  qed
  then have "b = bs ! i"
    by (blast dest: fold_uid_crc_inj uid_crc_byte_inj_data)
  with assms show False by simp
qed

lemma drom_build_eq:
  assumes "\<not> (length data < 116 \<or> router > 2)"
  shows "qcom_usb4_drom_build crc32c (Some data) serial router =
    Some (0, Some (drom_layout crc32c (drom_uid serial router) qcom_usb4_drom_data @ drop 116 data))"
proof -
  obtain b data' where "data = b # data'" "\<not> length data' < 115"
    using assms by (cases data) auto
  then show ?thesis
    using assms
    by (simp add: qcom_usb4_drom_build_def put_defs put_bytes_def QCOM_USB4_DROM_SIZE_def
        drom_layout_def qcom_usb4_uid_crc_def min_def)
qed

lemma x1_drom_build_eq:
  "qcom_usb4_x1_drom_build crc32c (Some data) serial router =
     (if length data < 116 \<or> router > 2 then Some (- EINVAL, Some data)
      else Some (0, Some (drom_layout crc32c (drom_uid serial router) x1_drom_data @ drop 116 data)))"
proof (cases "length data < 116 \<or> router > 2")
  case True
  then show ?thesis
    by (auto simp: qcom_usb4_x1_drom_build_def qcom_usb4_drom_build_def QCOM_USB4_DROM_SIZE_def)
next
  case False
  then show ?thesis
    using drom_build_eq [OF False, of crc32c serial]
    by (simp add: qcom_usb4_x1_drom_build_def put_defs put_bytes_def QCOM_USB4_DROM_SIZE_def
        drom_layout_def x1_drom_data_def qcom_usb4_drom_data_def min_def)
qed

section \<open>Properties\<close>

text \<open>
  C25.  The X1 descriptor.  A buffer that is too small or a router index above 2 is refused and
  the buffer is left as it was; otherwise the first 116 bytes are exactly the unique ID's CRC,
  the unique ID, the inverted \<open>crc32c\<close> of the patched payload and that payload, the bytes behind
  them are untouched, and no access leaves the buffer.
\<close>

theorem x1_drom_build_layout:
  "qcom_usb4_x1_drom_build crc32c (Some data) serial router =
     (if length data < 116 \<or> router > 2 then Some (- EINVAL, Some data)
      else Some (0, Some (drom_layout crc32c (drom_uid serial router) x1_drom_data @ drop 116 data)))"
  by (rule x1_drom_build_eq)

text \<open>
  C26.  The unique ID identifies the board and the router: different serial numbers or router
  indices give different IDs.  Its 8-bit CRC detects every change of a single byte.
\<close>

theorem drom_uid_unique_and_protected:
  assumes "router \<le> 2" and "router' \<le> 2"
  shows "(drom_uid serial router = drom_uid serial' router' \<longleftrightarrow> serial = serial' \<and> router = router') \<and>
    (\<forall>i < 8. \<forall>b. b \<noteq> le64_bytes (drom_uid serial router) ! i \<longrightarrow>
       qcom_usb4_uid_crc ((le64_bytes (drom_uid serial router))[i := b]) \<noteq>
       qcom_usb4_uid_crc (le64_bytes (drom_uid serial router)))"
proof -
  have "drom_uid serial router = drom_uid serial' router' \<Longrightarrow> serial = serial' \<and> router = router'"
    using drom_uid_fields(2,3) [OF assms(1), of serial] drom_uid_fields(2,3) [OF assms(2), of serial']
    by simp
  then show ?thesis
    using uid_crc_single_byte [of _ "le64_bytes (drom_uid serial router)"] by auto
qed

theorem drom_uid_unique_and_protected_witness:
  "(1 :: u8) \<le> 2 \<and> (2 :: u8) \<le> 2 \<and> drom_uid 5 1 \<noteq> drom_uid 5 2 \<and>
   qcom_usb4_uid_crc ((le64_bytes (drom_uid 5 1))[0 := 0xff]) \<noteq>
   qcom_usb4_uid_crc (le64_bytes (drom_uid 5 1))"
proof -
  have le: "(1 :: u8) \<le> 2" "(2 :: u8) \<le> 2" by simp_all
  have "(0xff :: u8) \<noteq> le64_bytes (drom_uid 5 1) ! 0"
    by (simp add: le64_bytes_def drom_uid_def)
  with le drom_uid_unique_and_protected [OF le, of 5 5] show ?thesis by simp
qed

end
