(* ===== verification/X1_Mcu.thy ===== *)
theory X1_Mcu
  imports X1_Fw X1_Drom
begin

text \<open>
  The MCU of the USB4 router: register layout, upload of firmware and DROM, the run/ready
  handshake and the command mailbox (\<open>snapshot/module/qcom-usb4-mcu.c\<close> and \<open>.h\<close>).

  Every register access is an event at an offset from the mapping's base.  What a read returns is
  a function of the offset and of the whole history.  \<open>readl_poll_timeout\<close> is the kernel's: it
  reads until its condition holds or the time is up, and returns 0 or \<open>-ETIMEDOUT\<close> according to
  the condition on the last value; the model keeps that value as one event.  A history may also
  hold calls of other providers, of any type \<open>'p\<close>: the MCU helper makes none.
\<close>

section \<open>Registers\<close>

datatype 'p mmio_event = Readl nat u32 | Writel nat u32 | Poll nat u32 | Call 'p

record 'p mmio_env =
  rd :: "'p mmio_event list \<Rightarrow> nat \<Rightarrow> u32"
  polled :: "'p mmio_event list \<Rightarrow> nat \<Rightarrow> u32"

definition readl :: "'p mmio_env \<Rightarrow> nat \<Rightarrow> ('p mmio_event, u32) io" where
  "readl env off = perform (\<lambda>h. rd env h off) (Readl off)"

definition writel :: "u32 \<Rightarrow> nat \<Rightarrow> ('p mmio_event, unit) io" where
  "writel v off = emit (Writel off v)"

definition readl_poll_timeout :: "'p mmio_env \<Rightarrow> nat \<Rightarrow> (u32 \<Rightarrow> bool) \<Rightarrow> ('p mmio_event, int) io" where
  "readl_poll_timeout env off cond = do {
     v \<leftarrow> perform (\<lambda>h. polled env h off) (Poll off);
     State_Monad.return (if cond v then 0 else - ETIMEDOUT)
   }"

definition QCOM_USB4_MCU_STATUS :: nat where "QCOM_USB4_MCU_STATUS = 0x18"
definition QCOM_USB4_MCU_HOST_CONTROL :: nat where "QCOM_USB4_MCU_HOST_CONTROL = 0x8018"
definition QCOM_USB4_MCU_UID_HIGH :: nat where "QCOM_USB4_MCU_UID_HIGH = 0x801c"
definition QCOM_USB4_MCU_UID_LOW :: nat where "QCOM_USB4_MCU_UID_LOW = 0x8020"
definition QCOM_USB4_MCU_READY :: u32 where "QCOM_USB4_MCU_READY = 0x1000000"
definition QCOM_USB4_MCU_RUN :: u32 where "QCOM_USB4_MCU_RUN = 1"
definition QCOM_USB4_MCU_SHARED_MIN_SIZE :: nat where "QCOM_USB4_MCU_SHARED_MIN_SIZE = 12"
definition QCOM_USB4_MCU_COMMAND_RELATIVE :: nat where "QCOM_USB4_MCU_COMMAND_RELATIVE = 0xc"
definition QCOM_USB4_MCU_MAX_COMMAND_TIMEOUT_US :: nat where
  "QCOM_USB4_MCU_MAX_COMMAND_TIMEOUT_US = 1000000"

lemmas mcu_consts = QCOM_USB4_MCU_STATUS_def QCOM_USB4_MCU_HOST_CONTROL_def QCOM_USB4_MCU_UID_HIGH_def
  QCOM_USB4_MCU_UID_LOW_def QCOM_USB4_MCU_READY_def QCOM_USB4_MCU_RUN_def
  QCOM_USB4_MCU_SHARED_MIN_SIZE_def QCOM_USB4_MCU_COMMAND_RELATIVE_def
  QCOM_USB4_MCU_MAX_COMMAND_TIMEOUT_US_def

section \<open>The code\<close>

datatype qcom_usb4_mcu_layout = QCOM_USB4_MCU_LEGACY | QCOM_USB4_MCU_V2

text \<open>\<open>mcu_base\<close> is the address of the mapping, 0 for NULL.\<close>

record qcom_usb4_mcu =
  mcu_base :: u64
  ram_size :: nat
  ram_offset :: u32
  control_offset :: u32
  shared_offset_reg :: u32
  drom_offset :: u32

definition mcu_zero :: qcom_usb4_mcu where
  "mcu_zero = \<lparr>mcu_base = 0, ram_size = 0, ram_offset = 0, control_offset = 0, shared_offset_reg = 0,
     drom_offset = 0\<rparr>"

definition layout_regs :: "qcom_usb4_mcu_layout \<Rightarrow> u32 \<times> u32 \<times> u32" where
  "layout_regs layout =
     (case layout of
        QCOM_USB4_MCU_LEGACY \<Rightarrow> (0x13000, 0x22000, 0x22010)
      | QCOM_USB4_MCU_V2 \<Rightarrow> (0x1e000, 0x14000, 0x14010))"

text \<open>A value of \<open>layout\<close> outside the enumeration is \<^const>\<open>None\<close>; sizes are \<open>size_t\<close> values.\<close>

definition qcom_usb4_mcu_init ::
    "qcom_usb4_mcu option \<Rightarrow> u64 \<Rightarrow> nat \<Rightarrow> nat \<Rightarrow> qcom_usb4_mcu_layout option \<Rightarrow> int \<times> qcom_usb4_mcu option" where
  "qcom_usb4_mcu_init mcu base mapping_size rsize layout =
     (case mcu of
        None \<Rightarrow> (- EINVAL, None)
      | Some _ \<Rightarrow>
          if base = 0 \<or> base mod 4 \<noteq> 0 \<or> rsize < QCOM_USB4_MCU_SHARED_MIN_SIZE
          then (- EINVAL, Some mcu_zero)
          else (case layout of
             None \<Rightarrow> (- EINVAL, Some mcu_zero)
           | Some l \<Rightarrow>
               let (ram, control, shared) = layout_regs l in
               if mapping_size < unat shared + 4 \<or> unat ram > mapping_size \<or>
                  rsize > mapping_size - unat ram \<or>
                  (ram \<le> control \<and> rsize > unat control - unat ram)
               then (- EINVAL, Some mcu_zero)
               else (0, Some \<lparr>mcu_base = base, ram_size = rsize, ram_offset = ram,
                       control_offset = control, shared_offset_reg = shared,
                       drom_offset = (if l = QCOM_USB4_MCU_V2 then 0xff20 else 0xdf20)\<rparr>)))"

definition mcu_usable :: "qcom_usb4_mcu option \<Rightarrow> qcom_usb4_mcu option" where
  "mcu_usable mcu = (case mcu of None \<Rightarrow> None | Some m \<Rightarrow> if mcu_base m = 0 then None else Some m)"

definition qcom_usb4_mcu_write_word :: "qcom_usb4_mcu \<Rightarrow> u32 \<Rightarrow> u32 \<Rightarrow> ('p mmio_event, int) io" where
  "qcom_usb4_mcu_write_word mcu off value = do {
     writel value (unat (ram_offset mcu) + unat off);
     State_Monad.return 0
   }"

text \<open>
  The buffer is the caller's uninitialised array of \<open>QCOM_USB4_DROM_SIZE\<close> bytes.  The outer
  option of the result is the descriptor builder's: \<^const>\<open>None\<close> for an access outside the buffer.
\<close>

definition qcom_usb4_mcu_prepare_drom ::
    "(u32 \<Rightarrow> u8 list \<Rightarrow> u32) \<Rightarrow> qcom_usb4_mcu option \<Rightarrow> u8 list \<Rightarrow> u32 \<Rightarrow> u8 \<Rightarrow> (int \<times> u8 list option) option" where
  "qcom_usb4_mcu_prepare_drom crc mcu drom serial router =
     (case mcu_usable mcu of
        None \<Rightarrow> Some (- EINVAL, Some drom)
      | Some m \<Rightarrow>
          if unat (drom_offset m) > ram_size m \<or> QCOM_USB4_DROM_SIZE > ram_size m - unat (drom_offset m)
          then Some (- EFBIG, Some drom)
          else qcom_usb4_drom_build crc (Some drom) serial router)"

definition qcom_usb4_mcu_upload ::
    "'p mmio_env \<Rightarrow> qcom_usb4_mcu option \<Rightarrow> u8 list option \<Rightarrow> ('p mmio_event, int option) io" where
  "qcom_usb4_mcu_upload env mcu data =
     (case mcu_usable mcu of
        None \<Rightarrow> State_Monad.return (Some (- EINVAL))
      | Some m \<Rightarrow>
          (case qcom_usb4_fw_validate data (ram_size m) of
             None \<Rightarrow> State_Monad.return None
           | Some ret \<Rightarrow>
               if ret \<noteq> 0 then State_Monad.return (Some ret)
               else do {
                 v \<leftarrow> readl env (unat (control_offset m));
                 if v AND QCOM_USB4_MCU_RUN \<noteq> 0 then State_Monad.return (Some (- EBUSY))
                 else do {
                   writel 0 (unat (control_offset m));
                   ret \<leftarrow> qcom_usb4_fw_upload (Some (qcom_usb4_mcu_write_word m)) data (ram_size m);
                   if ret = Some 0 then do {
                     readl env (unat (control_offset m));
                     State_Monad.return ret
                   }
                   else State_Monad.return ret
                 }
               }))"

text \<open>The words of the descriptor, with \<open>UID_HIGH\<close> and \<open>UID_LOW\<close> first.\<close>

definition drom_words :: "u8 list \<Rightarrow> u32 list option" where
  "drom_words drom = those (map (get_unaligned_le32 drom)
     (5 # 1 # map (\<lambda>i. 4 * i) [0..<QCOM_USB4_DROM_SIZE div 4]))"

definition drom_stores :: "qcom_usb4_mcu \<Rightarrow> u32 list \<Rightarrow> (nat \<times> u32) list" where
  "drom_stores m ws = zip
     (QCOM_USB4_MCU_UID_HIGH # QCOM_USB4_MCU_UID_LOW #
      map (\<lambda>i. unat (ram_offset m) + unat (drom_offset m + of_nat (4 * i))) [0..<QCOM_USB4_DROM_SIZE div 4])
     ws"

fun writel_list :: "(nat \<times> u32) list \<Rightarrow> ('p mmio_event, unit) io" where
  "writel_list [] = State_Monad.return ()"
| "writel_list ((off, v) # ps) = do { writel v off; writel_list ps }"

definition qcom_usb4_mcu_store_drom ::
    "'p mmio_env \<Rightarrow> qcom_usb4_mcu \<Rightarrow> u8 list \<Rightarrow> ('p mmio_event, unit option) io" where
  "qcom_usb4_mcu_store_drom env m drom =
     (case drom_words drom of
        None \<Rightarrow> State_Monad.return None
      | Some ws \<Rightarrow> do {
          writel_list (drom_stores m ws);
          readl env (unat (control_offset m));
          State_Monad.return (Some ())
        })"

definition qcom_usb4_mcu_write_drom ::
    "'p mmio_env \<Rightarrow> (u32 \<Rightarrow> u8 list \<Rightarrow> u32) \<Rightarrow> qcom_usb4_mcu option \<Rightarrow> u8 list \<Rightarrow> u32 \<Rightarrow> u8 \<Rightarrow>
     ('p mmio_event, int option) io" where
  "qcom_usb4_mcu_write_drom env crc mcu drom0 serial router =
     (case (qcom_usb4_mcu_prepare_drom crc mcu drom0 serial router, mcu) of
        (Some (ret, Some drom), Some m) \<Rightarrow>
          if ret \<noteq> 0 then State_Monad.return (Some ret)
          else do {
            v \<leftarrow> readl env (unat (control_offset m));
            if v AND QCOM_USB4_MCU_RUN \<noteq> 0 then State_Monad.return (Some (- EBUSY))
            else do {
              r \<leftarrow> qcom_usb4_mcu_store_drom env m drom;
              State_Monad.return (map_option (\<lambda>_. 0) r)
            }
          }
      | (Some (ret, _), _) \<Rightarrow> State_Monad.return (Some ret)
      | (None, _) \<Rightarrow> State_Monad.return None)"

definition qcom_usb4_mcu_load ::
    "'p mmio_env \<Rightarrow> (u32 \<Rightarrow> u8 list \<Rightarrow> u32) \<Rightarrow> qcom_usb4_mcu option \<Rightarrow> u8 list option \<Rightarrow> u8 list \<Rightarrow> u32 \<Rightarrow> u8 \<Rightarrow>
     ('p mmio_event, int option) io" where
  "qcom_usb4_mcu_load env crc mcu data drom0 serial router =
     (case (qcom_usb4_mcu_prepare_drom crc mcu drom0 serial router, mcu) of
        (Some (ret, Some drom), Some m) \<Rightarrow>
          if ret \<noteq> 0 then State_Monad.return (Some ret)
          else do {
            ret \<leftarrow> qcom_usb4_mcu_upload env mcu data;
            if ret \<noteq> Some 0 then State_Monad.return ret
            else do {
              r \<leftarrow> qcom_usb4_mcu_store_drom env m drom;
              State_Monad.return (map_option (\<lambda>_. 0) r)
            }
          }
      | (Some (ret, _), _) \<Rightarrow> State_Monad.return (Some ret)
      | (None, _) \<Rightarrow> State_Monad.return None)"

definition qcom_usb4_mcu_update :: "'p mmio_env \<Rightarrow> nat \<Rightarrow> u32 \<Rightarrow> u32 \<Rightarrow> ('p mmio_event, unit) io" where
  "qcom_usb4_mcu_update env off msk value = do {
     reg \<leftarrow> readl env off;
     writel ((reg AND NOT msk) OR (value AND msk)) off
   }"

definition qcom_usb4_mcu_stop :: "'p mmio_env \<Rightarrow> qcom_usb4_mcu option \<Rightarrow> ('p mmio_event, unit) io" where
  "qcom_usb4_mcu_stop env mcu =
     (case mcu_usable mcu of
        None \<Rightarrow> State_Monad.return ()
      | Some m \<Rightarrow> do {
          qcom_usb4_mcu_update env (unat (control_offset m)) QCOM_USB4_MCU_RUN 0;
          qcom_usb4_mcu_update env QCOM_USB4_MCU_HOST_CONTROL QCOM_USB4_MCU_READY 0;
          readl env QCOM_USB4_MCU_HOST_CONTROL;
          State_Monad.return ()
        })"

text \<open>The result is the status and the value left in \<open>*shared_offset\<close>.\<close>

definition qcom_usb4_mcu_start ::
    "'p mmio_env \<Rightarrow> qcom_usb4_mcu option \<Rightarrow> u32 option \<Rightarrow> ('p mmio_event, int \<times> u32 option) io" where
  "qcom_usb4_mcu_start env mcu shared_offset =
     (if shared_offset = None then State_Monad.return (- EINVAL, None)
      else case mcu_usable mcu of
        None \<Rightarrow> State_Monad.return (- EINVAL, Some 0)
      | Some m \<Rightarrow> do {
          v \<leftarrow> readl env (unat (control_offset m));
          if v AND QCOM_USB4_MCU_RUN \<noteq> 0 then State_Monad.return (- EBUSY, Some 0)
          else do {
            qcom_usb4_mcu_update env QCOM_USB4_MCU_HOST_CONTROL QCOM_USB4_MCU_READY 0;
            qcom_usb4_mcu_update env (unat (control_offset m)) QCOM_USB4_MCU_RUN QCOM_USB4_MCU_RUN;
            ret \<leftarrow> readl_poll_timeout env QCOM_USB4_MCU_STATUS (\<lambda>status. status AND QCOM_USB4_MCU_READY \<noteq> 0);
            if ret \<noteq> 0 then do {
              qcom_usb4_mcu_stop env mcu;
              State_Monad.return (ret, Some 0)
            }
            else do {
              offset \<leftarrow> readl env (unat (shared_offset_reg m));
              if unat offset mod 4 \<noteq> 0 \<or> (ucast offset :: u64) > of_nat (ram_size m) - of_nat QCOM_USB4_MCU_SHARED_MIN_SIZE then do {
                qcom_usb4_mcu_stop env mcu;
                State_Monad.return (- EPROTO, Some 0)
              }
              else State_Monad.return (0, Some offset)
            }
          }
        })"

definition qcom_usb4_mcu_command ::
    "'p mmio_env \<Rightarrow> qcom_usb4_mcu option \<Rightarrow> u32 \<Rightarrow> nat \<Rightarrow> ('p mmio_event, int) io" where
  "qcom_usb4_mcu_command env mcu command timeout_us =
     (case mcu_usable mcu of
        None \<Rightarrow> State_Monad.return (- EINVAL)
      | Some m \<Rightarrow>
          if command = 0 \<or> timeout_us = 0 \<or> timeout_us > QCOM_USB4_MCU_MAX_COMMAND_TIMEOUT_US
          then State_Monad.return (- EINVAL)
          else do {
            v \<leftarrow> readl env (unat (control_offset m));
            if v AND QCOM_USB4_MCU_RUN = 0 then State_Monad.return (- EHOSTDOWN)
            else do {
              v \<leftarrow> readl env QCOM_USB4_MCU_STATUS;
              if v AND QCOM_USB4_MCU_READY = 0 then State_Monad.return (- EAGAIN)
              else do {
                let mailbox = unat (control_offset m) + QCOM_USB4_MCU_COMMAND_RELATIVE;
                v \<leftarrow> readl env mailbox;
                if v \<noteq> 0 then State_Monad.return (- EBUSY)
                else do {
                  writel command mailbox;
                  readl_poll_timeout env mailbox (\<lambda>value. value = 0)
                }
              }
            }
          })"

section \<open>Lemmas\<close>

text \<open>The register writes of a history, oldest first.\<close>

fun writes_of :: "'p mmio_event list \<Rightarrow> (nat \<times> u32) list" where
  "writes_of [] = []"
| "writes_of (Writel off v # h) = writes_of h @ [(off, v)]"
| "writes_of (e # h) = writes_of h"

lemma writes_of_append: "writes_of (ds @ h) = writes_of h @ writes_of ds"
  by (induction ds rule: writes_of.induct) simp_all

lemma mmio_runs [simp]:
  "run_state (readl env off) h = (rd env h off, Readl off (rd env h off) # h)"
  "run_state (writel v off) h = ((), Writel off v # h)"
  by (simp_all add: readl_def writel_def)

lemma poll_run [simp]:
  "run_state (readl_poll_timeout env off cond) h =
     (if cond (polled env h off) then 0 else - ETIMEDOUT, Poll off (polled env h off) # h)"
  by (simp add: readl_poll_timeout_def)

lemma writel_list_run: "run_state (writel_list ps) h = ((), rev (map (\<lambda>(off, v). Writel off v) ps) @ h)"
  by (induction ps arbitrary: h) auto

lemma writes_of_rev: "writes_of (rev (map (\<lambda>(off, v). Writel off v) ps)) = ps"
  by (induction ps rule: rev_induct) auto

lemma write_words_run:
  "run_state (run_ok (map (\<lambda>(off, v). qcom_usb4_mcu_write_word m off v) ws)) h =
     (0, rev (map (\<lambda>(off, v). Writel off v) (map (\<lambda>(off, v). (unat (ram_offset m) + unat off, v)) ws)) @ h)"
  by (induction ws arbitrary: h) (auto simp: qcom_usb4_mcu_write_word_def)

lemma fw_validate_from_sign: "fw_validate_from data rsize pos = Some ret \<Longrightarrow> ret \<le> 0"
proof (induction data rsize pos rule: fw_validate_from.induct)
  case (1 data rsize pos)
  from 1(2) show ?case
    by (subst (asm) fw_validate_from.simps)
      (auto simp: Let_def split: if_splits option.splits prod.splits dest!: 1(1))
qed

lemma fw_validate_sign: "qcom_usb4_fw_validate data rsize = Some ret \<Longrightarrow> ret \<le> 0"
  by (auto simp: qcom_usb4_fw_validate_def split: option.splits if_splits dest: fw_validate_from_sign)

text \<open>Upload: everything or nothing.\<close>

lemma mcu_upload_cases:
  assumes "mcu_base m \<noteq> 0"
  obtains (refused) e h' where "run_state (qcom_usb4_mcu_upload env (Some m) data) h = (Some e, h')"
      "e < 0" "writes_of h' = writes_of h"
      "\<And>rs. data = Some (fw_encode rs) \<Longrightarrow> rs \<noteq> [] \<Longrightarrow> list_all (record_fits (ram_size m)) rs \<Longrightarrow>
         rd env h (unat (control_offset m)) AND QCOM_USB4_MCU_RUN \<noteq> 0 \<and> e = - EBUSY"
  | (uploaded) rs h' where "data = Some (fw_encode rs)" "rs \<noteq> []" "list_all (record_fits (ram_size m)) rs"
      "run_state (qcom_usb4_mcu_upload env (Some m) data) h = (Some 0, h')"
      "writes_of h' = writes_of h @ (unat (control_offset m), 0) #
         map (\<lambda>(off, v). (unat (ram_offset m) + unat off, v)) (fw_writes rs)"
      "rd env h (unat (control_offset m)) AND QCOM_USB4_MCU_RUN = 0"
proof -
  obtain ret where v: "qcom_usb4_fw_validate data (ram_size m) = Some ret"
    using fw_validate_total by blast
  note sign = fw_validate_sign [OF v]
  let ?c = "unat (control_offset m)"
  show thesis
  proof (cases "ret = 0 \<and> rd env h ?c AND QCOM_USB4_MCU_RUN = 0")
    case False
    then show thesis
    proof (cases "ret = 0")
      case True
      with False v assms show thesis
        by (intro refused [of "- EBUSY" "Readl ?c (rd env h ?c) # h"])
          (simp_all add: qcom_usb4_mcu_upload_def mcu_usable_def)
    next
      case False
      have "False" if "data = Some (fw_encode rs)" "rs \<noteq> []" "list_all (record_fits (ram_size m)) rs" for rs
        using fw_validate_accepts [OF that(2,3)] v False that(1) by simp
      with v sign assms False show thesis
        by (intro refused [of ret h]) (auto simp: qcom_usb4_mcu_upload_def mcu_usable_def)
    qed
  next
    case True
    with v obtain d where d: "data = Some d" by (cases data) (auto simp: qcom_usb4_fw_validate_def)
    with v True obtain rs where rs: "rs \<noteq> []" "d = fw_encode rs" "list_all (record_fits (ram_size m)) rs"
      by (metis fw_validate_records)
    define ws where "ws = map (\<lambda>(off, v). (unat (ram_offset m) + unat off, v)) (fw_writes rs)"
    define h1 where "h1 = rev (map (\<lambda>(off, v). Writel off v) ws) @ Writel ?c 0 # Readl ?c (rd env h ?c) # h"
    have "run_state (qcom_usb4_mcu_upload env (Some m) data) h = (Some 0, Readl ?c (rd env h1 ?c) # h1)"
      using True v d assms
      by (simp add: qcom_usb4_mcu_upload_def mcu_usable_def rs(2) fw_upload_runs [OF rs(1,3)] write_words_run
          h1_def ws_def)
    moreover have "writes_of (Readl ?c (rd env h1 ?c) # h1) = writes_of h @ (?c, 0) # ws"
      by (simp add: h1_def writes_of_append writes_of_rev)
    ultimately show thesis
      using d True by (intro uploaded [of rs "Readl ?c (rd env h1 ?c) # h1"]) (simp_all add: rs ws_def)
  qed
qed

text \<open>
  Which registers a program may write: \<open>ext_writes P h h'\<close> says that \<open>h'\<close> extends \<open>h\<close> and that
  every write added satisfies \<open>P\<close>.
\<close>

definition ext_writes :: "(nat \<Rightarrow> u32 \<Rightarrow> bool) \<Rightarrow> 'p mmio_event list \<Rightarrow> 'p mmio_event list \<Rightarrow> bool" where
  "ext_writes P h h' \<longleftrightarrow> (\<exists>ds. h' = ds @ h \<and> (\<forall>(off, v) \<in> set (writes_of ds). P off v))"

interpretation mmio: history_order "ext_writes P" for P
proof unfold_locales
  fix h1 h2 h3 :: "'p mmio_event list"
  show "ext_writes P h1 h1" by (simp add: ext_writes_def)
  assume "ext_writes P h1 h2" "ext_writes P h2 h3"
  then obtain ds es where "h2 = ds @ h1" "h3 = es @ h2" "\<forall>(off, v) \<in> set (writes_of ds). P off v"
    "\<forall>(off, v) \<in> set (writes_of es). P off v" unfolding ext_writes_def by blast
  then show "ext_writes P h1 h3"
    unfolding ext_writes_def by (intro exI [of _ "es @ ds"]) (auto simp: writes_of_append)
qed

lemma keeps_mmio:
  "keeps (ext_writes P) (readl env off)"
  "keeps (ext_writes P) (readl_poll_timeout env off cond)"
  "P off v \<Longrightarrow> keeps (ext_writes P) (writel v off)"
  by (auto simp: keeps_def ext_writes_def intro: exI [of _ "[_]"])

lemmas mmio_keeps = mmio.keeps_rules keeps_mmio

lemma keeps_writel_list:
  "(\<And>off v. (off, v) \<in> set ps \<Longrightarrow> P off v) \<Longrightarrow> keeps (ext_writes P) (writel_list ps)"
  by (induction ps) (auto intro!: mmio_keeps)

lemma keeps_mcu_upload:
  assumes ctl: "P (unat (control_offset m)) 0"
    and ram: "\<And>off v. unat (off :: u32) + 4 \<le> ram_size m \<Longrightarrow> P (unat (ram_offset m) + unat off) v"
  shows "keeps (ext_writes P) (qcom_usb4_mcu_upload env (Some m) data)"
proof -
  have words: "keeps (ext_writes P) (qcom_usb4_fw_upload (Some (qcom_usb4_mcu_write_word m)) data (ram_size m))"
    if v: "qcom_usb4_fw_validate data (ram_size m) = Some 0"
  proof -
    from v obtain d where d: "data = Some d" by (cases data) (auto simp: qcom_usb4_fw_validate_def)
    with v obtain rs where rs: "data = Some (fw_encode rs)" "rs \<noteq> []" "list_all (record_fits (ram_size m)) rs"
      by (metis fw_validate_records)
    have "P (unat (ram_offset m) + unat off) v" if "(off, v) \<in> set (fw_writes rs)" for off v
      using fw_writes_fit [OF rs(3) that] ram by blast
    then have "keeps (ext_writes P) (run_ok (map (\<lambda>(off, v). qcom_usb4_mcu_write_word m off v) (fw_writes rs)))"
      by (intro mmio.keeps_run_ok) (auto simp: qcom_usb4_mcu_write_word_def intro!: mmio_keeps)
    then show ?thesis
      by (simp add: keeps_def rs(1) fw_upload_runs [OF rs(2,3)])
  qed
  show ?thesis
    unfolding qcom_usb4_mcu_upload_def
    by (auto simp: mcu_usable_def intro!: mmio_keeps words ctl split: option.splits)
qed

lemma keeps_mcu_command:
  "P (unat (control_offset m) + 12) cmd \<Longrightarrow> keeps (ext_writes P) (qcom_usb4_mcu_command env (Some m) cmd us)"
  unfolding qcom_usb4_mcu_command_def Let_def QCOM_USB4_MCU_COMMAND_RELATIVE_def
  by (auto simp: mcu_usable_def intro!: mmio_keeps split: option.splits)

lemma those_map_Some: "(\<And>x. x \<in> set xs \<Longrightarrow> \<exists>y. f x = Some y) \<Longrightarrow> \<exists>ys. those (map f xs) = Some ys"
  by (induction xs) fastforce+

lemma those_length: "those xs = Some ys \<Longrightarrow> length ys = length xs"
  by (induction xs arbitrary: ys) (auto split: option.splits)

lemma drom_words_total: "length drom = 116 \<Longrightarrow> \<exists>ws. drom_words drom = Some ws"
  unfolding drom_words_def by (rule those_map_Some) (auto simp: QCOM_USB4_DROM_SIZE_def intro: get_le32_Some)

text \<open>The descriptor the MCU gets.\<close>

abbreviation mcu_drom :: "(u32 \<Rightarrow> u8 list \<Rightarrow> u32) \<Rightarrow> u32 \<Rightarrow> u8 \<Rightarrow> u8 list" where
  "mcu_drom crc serial router \<equiv> drom_layout crc (drom_uid serial router) qcom_usb4_drom_data"

lemma prepare_drom_cases:
  assumes "mcu_base m \<noteq> 0" and "length drom = 116"
  shows "qcom_usb4_mcu_prepare_drom crc (Some m) drom serial router =
    Some (if unat (drom_offset m) + 116 \<le> ram_size m
          then if router \<le> 2 then (0, Some (mcu_drom crc serial router)) else (- EINVAL, Some drom)
          else (- EFBIG, Some drom))"
proof -
  have "qcom_usb4_drom_build crc (Some drom) serial router =
      Some (if router \<le> 2 then (0, Some (mcu_drom crc serial router)) else (- EINVAL, Some drom))"
    using drom_build_eq [of drom router crc serial] assms(2)
    by (cases "router \<le> 2") (auto simp: not_le qcom_usb4_drom_build_def QCOM_USB4_DROM_SIZE_def)
  with assms show ?thesis
    by (auto simp: qcom_usb4_mcu_prepare_drom_def mcu_usable_def QCOM_USB4_DROM_SIZE_def)
qed

lemma store_drom_run:
  assumes "drom_words drom = Some ws"
  shows "\<exists>h'. run_state (qcom_usb4_mcu_store_drom env m drom) h = (Some (), h') \<and>
    writes_of h' = writes_of h @ drom_stores m ws"
  using assms by (simp add: qcom_usb4_mcu_store_drom_def writel_list_run writes_of_append writes_of_rev)

lemma drom_stores_inside:
  assumes "unat (drom_offset m) + 116 \<le> ram_size m" and "unat (drom_offset m) + 116 < 2 ^ 32"
    and "(off, v) \<in> set (drom_stores m ws)"
  shows "off = QCOM_USB4_MCU_UID_HIGH \<or> off = QCOM_USB4_MCU_UID_LOW \<or>
    (unat (ram_offset m) \<le> off \<and> off + 4 \<le> unat (ram_offset m) + ram_size m)"
proof -
  have "unat (drom_offset m + of_nat (4 * i)) = unat (drom_offset m) + 4 * i" if "i < 29" for i
  proof -
    have "unat (of_nat (4 * i) :: u32) = 4 * i"
      using that unfolding unat_of_nat by (simp add: take_bit_nat_eq_self_iff)
    with that assms(2) show ?thesis by (simp add: unat_word_ariths)
  qed
  with assms(1,3) show ?thesis
    by (auto simp: drom_stores_def QCOM_USB4_DROM_SIZE_def dest!: set_zip_leftD)
qed

section \<open>Properties\<close>

text \<open>The images a load accepts.\<close>

definition loadable :: "qcom_usb4_mcu \<Rightarrow> u8 list option \<Rightarrow> u8 \<Rightarrow> bool" where
  "loadable m data router \<longleftrightarrow> unat (drom_offset m) + 116 \<le> ram_size m \<and> router \<le> 2 \<and>
     (\<exists>rs. data = Some (fw_encode rs) \<and> rs \<noteq> [] \<and> list_all (record_fits (ram_size m)) rs)"

text \<open>
  C13. Loading the MCU is all or nothing.  It succeeds exactly with a valid, fitting image, a valid
  router number, room for the descriptor and a stopped MCU, that is, when the control register reads with
  RUN clear; the register writes are then exactly: zero to the control register, the image's words in
  record order, the two UID words and the descriptor.  Every other call returns a negative error and
  writes nothing at all; for a running MCU and otherwise good arguments the error is \<open>-EBUSY\<close>.  No buffer
  access is out of range, and every write except control and UID falls inside the MCU's RAM.
\<close>

theorem mcu_load_all_or_nothing:
  assumes "mcu_base m \<noteq> 0" and "length drom0 = 116" and "ram_size m + 116 < 2 ^ 32"
    and "run_state (qcom_usb4_mcu_load env crc (Some m) data drom0 serial router) h = (ret, h')"
  shows "(ret = Some 0 \<longleftrightarrow> loadable m data router \<and> rd env h (unat (control_offset m)) AND QCOM_USB4_MCU_RUN = 0) \<and>
    (ret \<noteq> Some 0 \<longrightarrow> (\<exists>e. ret = Some e \<and> e < 0 \<and> (loadable m data router \<longrightarrow> e = - EBUSY)) \<and> writes_of h' = writes_of h) \<and>
    (ret = Some 0 \<longrightarrow> (\<exists>rs ws. data = Some (fw_encode rs) \<and> list_all (record_fits (ram_size m)) rs \<and>
       drom_words (mcu_drom crc serial router) = Some ws \<and>
       writes_of h' = writes_of h @ (unat (control_offset m), 0) #
         map (\<lambda>(off, v). (unat (ram_offset m) + unat off, v)) (fw_writes rs) @ drom_stores m ws \<and>
       (\<forall>(off, v) \<in> set (map (\<lambda>(off, v). (unat (ram_offset m) + unat off, v)) (fw_writes rs) @ drom_stores m ws).
          off = QCOM_USB4_MCU_UID_HIGH \<or> off = QCOM_USB4_MCU_UID_LOW \<or>
          (unat (ram_offset m) \<le> off \<and> off + 4 \<le> unat (ram_offset m) + ram_size m))))"
proof (cases "unat (drom_offset m) + 116 \<le> ram_size m \<and> router \<le> 2")
  case False
  with assms(4) show ?thesis
    by (auto simp: qcom_usb4_mcu_load_def loadable_def prepare_drom_cases [OF assms(1,2)] split: if_splits)
next
  case True
  note room = True
  obtain ws where ws: "drom_words (mcu_drom crc serial router) = Some ws"
    using drom_words_total [of "mcu_drom crc serial router"] by (auto simp: length_drom_layout)
  from assms(1) show ?thesis
  proof (cases rule: mcu_upload_cases [where env = env and data = data and h = h])
    case (refused e h1)
    with room assms(4) have "ret = Some e" "h' = h1"
      by (auto simp: qcom_usb4_mcu_load_def prepare_drom_cases [OF assms(1,2)])
    moreover have "rd env h (unat (control_offset m)) AND QCOM_USB4_MCU_RUN \<noteq> 0 \<and> e = - EBUSY" if "loadable m data router"
      using that refused(4) by (auto simp: loadable_def)
    ultimately show ?thesis using refused(2,3) by auto
  next
    case (uploaded rs h1)
    obtain h2 where h2: "run_state (qcom_usb4_mcu_store_drom env m (mcu_drom crc serial router)) h1 = (Some (), h2)"
      "writes_of h2 = writes_of h1 @ drom_stores m ws" using store_drom_run [OF ws] by blast
    from room assms(4) uploaded(4) h2(1) have r: "ret = Some 0" "h' = h2"
      by (auto simp: qcom_usb4_mcu_load_def prepare_drom_cases [OF assms(1,2)])
    have "off = QCOM_USB4_MCU_UID_HIGH \<or> off = QCOM_USB4_MCU_UID_LOW \<or>
        (unat (ram_offset m) \<le> off \<and> off + 4 \<le> unat (ram_offset m) + ram_size m)"
      if "(off, v) \<in> set (map (\<lambda>(off, v). (unat (ram_offset m) + unat off, v)) (fw_writes rs) @ drom_stores m ws)"
      for off v
      using that room assms(3) drom_stores_inside [of m off v ws]
      by (auto dest!: fw_writes_fit [OF uploaded(3)])
    moreover have "loadable m data router" using room uploaded(1-3) by (auto simp: loadable_def)
    ultimately show ?thesis using r ws uploaded(1-3,5,6) h2(2) by auto
  qed
qed

definition sample_mcu :: qcom_usb4_mcu where
  "sample_mcu = \<lparr>mcu_base = 0x1000, ram_size = 0x10000, ram_offset = 0x1e000, control_offset = 0x14000,
     shared_offset_reg = 0x14010, drom_offset = 0xff20\<rparr>"

definition quiet_env :: "unit mmio_env" where
  "quiet_env = \<lparr>rd = \<lambda>_ _. 0, polled = \<lambda>_ _. 0\<rparr>"

definition sample_image :: "u8 list" where
  "sample_image = [4, 0, 0, 0, 1, 0, 0, 0, 5, 0, 0, 0]"

lemma sample_loadable: "loadable sample_mcu (Some sample_image) 1"
proof -
  have "sample_image = fw_encode [(4, [5])]" "list_all (record_fits (ram_size sample_mcu)) [(4, [5])]"
    by (simp_all add: sample_image_def sample_mcu_def fw_encode_def record_fits_def record_bytes_def words_bytes_def
        le32_bytes_def)
  then show ?thesis unfolding loadable_def by (intro conjI exI [of _ "[(4, [5])]"]) (simp_all add: sample_mcu_def)
qed

text \<open>The same image on a stopped and on a running MCU.\<close>

theorem mcu_load_all_or_nothing_witness:
  "mcu_base sample_mcu \<noteq> 0 \<and> ram_size sample_mcu + 116 < 2 ^ 32 \<and> loadable sample_mcu (Some sample_image) 1 \<and>
   fst (run_state (qcom_usb4_mcu_load quiet_env (\<lambda>_ _. 0) (Some sample_mcu) (Some sample_image) (replicate 116 0) 7 1) []) = Some 0 \<and>
   fst (run_state (qcom_usb4_mcu_load (quiet_env\<lparr>rd := \<lambda>_ _. 1\<rparr>) (\<lambda>_ _. 0) (Some sample_mcu) (Some sample_image)
     (replicate 116 0) 7 1) []) = Some (- EBUSY)"
proof -
  have m: "mcu_base sample_mcu \<noteq> 0" "ram_size sample_mcu + 116 < 2 ^ 32"
    by (simp_all add: sample_mcu_def)
  note load = mcu_load_all_or_nothing [OF m(1) _ m(2) surjective_pairing, of "replicate 116 0"]
  show ?thesis
    using m sample_loadable load [of quiet_env "\<lambda>_ _. 0" "Some sample_image" 7 1 "[]"]
      load [of "quiet_env\<lparr>rd := \<lambda>_ _. 1\<rparr>" "\<lambda>_ _. 0" "Some sample_image" 7 1 "[]"]
    by (auto simp: quiet_env_def mcu_consts)
qed

text \<open>
  Initialisation accepts a mapping only if the MCU's RAM lies wholly inside it, together with the
  registers used, and apart from the control registers up to the shared register and from the
  UID registers, for both layouts; so uploads cannot reach control.  A refused call leaves the
  descriptor zeroed, and every later operation on it refuses without touching a register.
\<close>

lemma mcu_init_separates:
  "case qcom_usb4_mcu_init (Some z) base mapping_size rsize layout of
     (ret, Some m) \<Rightarrow>
       if ret = 0 then
         mcu_base m \<noteq> 0 \<and> 12 \<le> ram_size m \<and> unat (ram_offset m) + ram_size m \<le> mapping_size \<and>
         unat (shared_offset_reg m) + 4 \<le> mapping_size \<and>
         unat (control_offset m) + QCOM_USB4_MCU_COMMAND_RELATIVE < unat (shared_offset_reg m) \<and>
         (unat (ram_offset m) + ram_size m \<le> unat (control_offset m) \<or>
          unat (shared_offset_reg m) + 4 \<le> unat (ram_offset m)) \<and>
         QCOM_USB4_MCU_UID_LOW + 4 \<le> unat (ram_offset m) \<and>
         QCOM_USB4_MCU_UID_LOW + 4 \<le> unat (control_offset m)
       else ret = - EINVAL \<and>
         run_state (qcom_usb4_mcu_upload env (Some m) data) h = (Some (- EINVAL), h) \<and>
         run_state (qcom_usb4_mcu_start env (Some m) (Some x)) h = ((- EINVAL, Some 0), h) \<and>
         run_state (qcom_usb4_mcu_command env (Some m) cmd us) h = (- EINVAL, h) \<and>
         run_state (qcom_usb4_mcu_stop env (Some m)) h = ((), h)
   | _ \<Rightarrow> False"
proof -
  have zero: "mcu_usable (Some mcu_zero) = None" by (simp add: mcu_usable_def mcu_zero_def)
  show ?thesis
    by (cases layout; auto simp: qcom_usb4_mcu_init_def layout_regs_def mcu_consts zero
        qcom_usb4_mcu_upload_def qcom_usb4_mcu_start_def qcom_usb4_mcu_command_def qcom_usb4_mcu_stop_def
        split: qcom_usb4_mcu_layout.splits)
qed

text \<open>
  C34. Starting the MCU.  A running MCU, one whose control register reads with RUN set, is left alone:
  \<open>-EBUSY\<close> and no write.  A stopped one is started, and success hands out a word-aligned shared offset whose
  first 12 bytes lie in RAM, after the RUN bit was set.  Whenever the start fails after RUN was set, the
  last two register writes clear RUN in control and READY in host control.  After every failure the
  shared offset handed out is zero.
\<close>

theorem mcu_start_safe:
  assumes "mcu_base m \<noteq> 0" and "12 \<le> ram_size m" and "ram_size m < 2 ^ 64"
    and "run_state (qcom_usb4_mcu_start env (Some m) (Some x)) h = ((ret, shared), h')"
  shows "if rd env h (unat (control_offset m)) AND QCOM_USB4_MCU_RUN \<noteq> 0
    then ret = - EBUSY \<and> shared = Some 0 \<and> writes_of h' = writes_of h
    else (ret = 0 \<and> (\<exists>off v w. shared = Some off \<and> unat off mod 4 = 0 \<and> unat off + 12 \<le> ram_size m \<and>
        writes_of h' = writes_of h @
          [(QCOM_USB4_MCU_HOST_CONTROL, v), (unat (control_offset m), w)] \<and>
        v AND QCOM_USB4_MCU_READY = 0 \<and> w AND QCOM_USB4_MCU_RUN \<noteq> 0)) \<or>
      ((ret = - ETIMEDOUT \<or> ret = - EPROTO) \<and> shared = Some 0 \<and>
        (\<exists>u v w z. writes_of h' = writes_of h @ [(QCOM_USB4_MCU_HOST_CONTROL, u), (unat (control_offset m), z),
           (unat (control_offset m), v), (QCOM_USB4_MCU_HOST_CONTROL, w)] \<and> z AND QCOM_USB4_MCU_RUN \<noteq> 0 \<and>
           v AND QCOM_USB4_MCU_RUN = 0 \<and> w AND QCOM_USB4_MCU_READY = 0))"
proof -
  have clear: "(w AND NOT k) AND k = 0" for w k :: u32
    by (simp add: and.assoc)
  have set: "((w AND NOT k) OR k) AND k = k" for w k :: u32
    by (simp add: bit.conj_disj_distrib2 clear)
  have k: "(0 :: u32) AND k = 0" "QCOM_USB4_MCU_RUN \<noteq> 0" for k by (simp_all add: mcu_consts)
  have fits: "unat off + 12 \<le> ram_size m"
    if "\<not> of_nat (ram_size m) - of_nat QCOM_USB4_MCU_SHARED_MIN_SIZE < (ucast off :: u64)" for off :: u32
  proof -
    have "unat (of_nat (ram_size m) :: u64) = ram_size m"
      using assms(3) unfolding unat_of_nat by (simp add: take_bit_nat_eq_self_iff)
    then have "unat (of_nat (ram_size m) - 12 :: u64) = ram_size m - 12"
      using assms(2) by (simp add: unat_sub_if')
    moreover have "unat (ucast off :: u64) = unat off"
      using unat_u32_less [of off] by (simp add: unsigned_ucast_eq take_bit_nat_eq_self_iff)
    ultimately show ?thesis
      using that assms(2) by (simp add: QCOM_USB4_MCU_SHARED_MIN_SIZE_def not_less word_le_nat_alt)
  qed
  show ?thesis
    using assms
    by (auto simp: qcom_usb4_mcu_start_def qcom_usb4_mcu_stop_def qcom_usb4_mcu_update_def mcu_usable_def
        clear set k dest!: fits split: if_splits)
qed

theorem mcu_start_safe_witness:
  "fst (run_state (qcom_usb4_mcu_start quiet_env (Some sample_mcu) (Some 1)) []) = (- ETIMEDOUT, Some 0) \<and>
   (\<exists>ws v w. writes_of (snd (run_state (qcom_usb4_mcu_start quiet_env (Some sample_mcu) (Some 1)) [])) =
      ws @ [(unat (control_offset sample_mcu), v), (QCOM_USB4_MCU_HOST_CONTROL, w)] \<and>
      v AND QCOM_USB4_MCU_RUN = 0 \<and> w AND QCOM_USB4_MCU_READY = 0) \<and>
   fst (run_state (qcom_usb4_mcu_start (quiet_env\<lparr>rd := \<lambda>_ _. 1\<rparr>) (Some sample_mcu) (Some 1)) []) = (- EBUSY, Some 0)"
proof -
  have m: "mcu_base sample_mcu \<noteq> 0" "12 \<le> ram_size sample_mcu" "ram_size sample_mcu < 2 ^ 64"
    by (simp_all add: sample_mcu_def)
  have t: "fst (run_state (qcom_usb4_mcu_start quiet_env (Some sample_mcu) (Some 1)) []) = (- ETIMEDOUT, Some 0)"
    by (simp add: qcom_usb4_mcu_start_def qcom_usb4_mcu_update_def qcom_usb4_mcu_stop_def mcu_usable_def
        quiet_env_def sample_mcu_def mcu_consts)
  obtain h' where run: "run_state (qcom_usb4_mcu_start quiet_env (Some sample_mcu) (Some 1)) [] = ((- ETIMEDOUT, Some 0), h')"
    using t by (metis prod.collapse)
  have stopped: "rd quiet_env [] (unat (control_offset sample_mcu)) AND QCOM_USB4_MCU_RUN = 0"
    and running: "rd (quiet_env\<lparr>rd := \<lambda>_ _. 1\<rparr>) [] (unat (control_offset sample_mcu)) AND QCOM_USB4_MCU_RUN \<noteq> 0"
    by (simp_all add: quiet_env_def mcu_consts)
  obtain ret shared h2 where
    run2: "run_state (qcom_usb4_mcu_start (quiet_env\<lparr>rd := \<lambda>_ _. 1\<rparr>) (Some sample_mcu) (Some 1)) [] = ((ret, shared), h2)"
    by (metis surj_pair)
  from mcu_start_safe [OF m run] stopped obtain u v w z where
    "writes_of h' = [(QCOM_USB4_MCU_HOST_CONTROL, u), (unat (control_offset sample_mcu), z)] @
      [(unat (control_offset sample_mcu), v), (QCOM_USB4_MCU_HOST_CONTROL, w)]"
    "v AND QCOM_USB4_MCU_RUN = 0" "w AND QCOM_USB4_MCU_READY = 0" by auto
  with t run run2 mcu_start_safe [OF m run2] running show ?thesis by auto
qed

lemma mcu_command_cases:
  assumes "run_state (qcom_usb4_mcu_command env (Some m) cmd us) h = (ret, h')"
  shows "(\<exists>c st v. h' = [Poll (unat (control_offset m) + 12) v, Writel (unat (control_offset m) + 12) cmd,
             Readl (unat (control_offset m) + 12) 0, Readl QCOM_USB4_MCU_STATUS st,
             Readl (unat (control_offset m)) c] @ h \<and>
           cmd \<noteq> 0 \<and> us \<le> 1000000 \<and> c AND QCOM_USB4_MCU_RUN \<noteq> 0 \<and> st AND QCOM_USB4_MCU_READY \<noteq> 0 \<and>
           ret = (if v = 0 then 0 else - ETIMEDOUT)) \<or>
    (ret \<in> {- EINVAL, - EHOSTDOWN, - EAGAIN, - EBUSY} \<and> writes_of h' = writes_of h)"
  using assms
  by (auto simp: qcom_usb4_mcu_command_def mcu_usable_def Let_def QCOM_USB4_MCU_COMMAND_RELATIVE_def
      QCOM_USB4_MCU_MAX_COMMAND_TIMEOUT_US_def split: if_splits)

text \<open>
  A command is written to the mailbox at most once per call, and only when it is nonzero and the
  MCU was seen running, ready and with an empty mailbox; the call succeeds exactly when the mailbox
  was seen cleared afterwards.  Every other call writes nothing.
\<close>

lemma mcu_command_once:
  assumes "run_state (qcom_usb4_mcu_command env (Some m) cmd us) h = (ret, h')"
  shows "(\<exists>c st v. h' = [Poll (unat (control_offset m) + 12) v, Writel (unat (control_offset m) + 12) cmd,
             Readl (unat (control_offset m) + 12) 0, Readl QCOM_USB4_MCU_STATUS st,
             Readl (unat (control_offset m)) c] @ h \<and>
           cmd \<noteq> 0 \<and> us \<le> 1000000 \<and> c AND QCOM_USB4_MCU_RUN \<noteq> 0 \<and> st AND QCOM_USB4_MCU_READY \<noteq> 0 \<and>
           ret = (if v = 0 then 0 else - ETIMEDOUT)) \<or>
    (ret \<in> {- EINVAL, - EHOSTDOWN, - EAGAIN, - EBUSY} \<and> writes_of h' = writes_of h)"
  using assms by (rule mcu_command_cases)

end
