(* ===== verification/X1_Startup.thy ===== *)
theory X1_Startup
  imports X1_Fw X1_Drom
begin

text \<open>
  The X1 cold-start sequence (\<open>snapshot/module/qcom-usb4-x1-startup.c\<close> and \<open>.h\<close>): a table of 46
  operations that one attempt works through in order, with the caller's five callbacks.

  The callbacks are programs over a state of their own, so that the sequence composes with the
  front end that supplies them.  For the properties each callback also leaves an event in a trace;
  nothing is assumed about what the callbacks do or return.  A NULL operations structure or a NULL
  callback in it is \<^const>\<open>None\<close>.
\<close>

section \<open>Data\<close>

datatype (plugins only: code size) x1_step =
    X1_NONE | X1_VALIDATE | X1_OWNER
  | X1_PHY_PREPARE
  | X1_RX_PREPARE | X1_TXB_PREPARE | X1_TXA_PREPARE
  | X1_RX_CLOCK_REFERENCE | X1_MISC_RESET_ASSERT | X1_MISC_ASSERT_DELAY
  | X1_EXTRA_RESET_ASSERT | X1_DP_RESET_ASSERT | X1_RESET_ASSERT_DELAY
  | X1_DP_RESET_CLEAR | X1_EXTRA_RESET_CLEAR | X1_RESET_RELEASE_DELAY
  | X1_MISC_RESET_CLEAR | X1_SYS_READY | X1_RX_CLOCK_PHY | X1_CLEAR_1200C
  | X1_RX_ACTIVE | X1_TXB_ACTIVE | X1_TXA_ACTIVE
  | X1_SET_81000 | X1_PIPE_RESET_ASSERT | X1_PIPE_ASSERT_DELAY
  | X1_PIPE_ASSERT_SETTLE | X1_SET_81018 | X1_PIPE_RESET_CLEAR
  | X1_PIPE_RELEASE_DELAY | X1_PIPE_RELEASE_SETTLE | X1_CLEAR_81000
  | X1_UPLOAD | X1_SYS_MEMORY_FORCE | X1_TCSR_ROUTE | X1_PIPE_HWCG_OFF
  | X1_SET_81004 | X1_TIMER_HIGH | X1_TIMER_LOW | X1_TIMER_8148
  | X1_TIMER_8144 | X1_DROM | X1_PHY_COMPOSITE
  | X1_ADAPTER_23 | X1_ADAPTER_22 | X1_ADAPTER_21
  | X1_CLEAR_D064_6 | X1_MCU_START | X1_PRESET

text \<open>The firmware pointer and size are one buffer.\<close>

record x1_config =
  cfg_firmware :: "u8 list option"
  cfg_serial :: u32
  cfg_router :: u32
  cfg_phy_rx_eq :: u32
  cfg_mcu_preset :: u32
  cfg_reset_release_us :: u32

datatype x1_phase = X1_NEW | X1_RUNNING | X1_FAILED | X1_COMPLETE

record x1_state =
  st_phase :: x1_phase
  st_active :: x1_step
  st_completed :: x1_step
  st_error :: int

record 's x1_ops =
  op_owner :: "x1_config \<Rightarrow> ('s, int) state"
  op_do :: "x1_step \<Rightarrow> x1_config \<Rightarrow> ('s, int) state"
  op_read :: "u32 \<Rightarrow> ('s, int \<times> u32) state"
  op_update :: "u32 \<Rightarrow> u32 \<Rightarrow> u32 \<Rightarrow> ('s, int) state"
  op_delay :: "u32 \<Rightarrow> ('s, unit) state"

datatype kind = PROVIDER | UPDATE | DELAY | RELEASE_DELAY | CLEAR_1200C

record operation =
  o_step :: x1_step
  o_kind :: kind
  o_offset :: u32
  o_mask :: u32
  o_value :: u32
  o_name :: string

section \<open>The table\<close>

definition opP :: "x1_step \<Rightarrow> string \<Rightarrow> operation" where
  "opP s n = \<lparr>o_step = s, o_kind = PROVIDER, o_offset = 0, o_mask = 0, o_value = 0, o_name = n\<rparr>"

definition opU :: "x1_step \<Rightarrow> string \<Rightarrow> u32 \<Rightarrow> u32 \<Rightarrow> u32 \<Rightarrow> operation" where
  "opU s n off m v = \<lparr>o_step = s, o_kind = UPDATE, o_offset = off, o_mask = m, o_value = v, o_name = n\<rparr>"

definition opD :: "x1_step \<Rightarrow> string \<Rightarrow> u32 \<Rightarrow> operation" where
  "opD s n us = \<lparr>o_step = s, o_kind = DELAY, o_offset = 0, o_mask = 0, o_value = us, o_name = n\<rparr>"

definition operations :: "operation list" where
  "operations = [
     opP X1_PHY_PREPARE ''PHY_PREPARE'',
     opP X1_RX_PREPARE ''RX_PREPARE'', opP X1_TXB_PREPARE ''TXB_PREPARE'', opP X1_TXA_PREPARE ''TXA_PREPARE'',
     opP X1_RX_CLOCK_REFERENCE ''RX_CLOCK_REFERENCE'',
     opP X1_MISC_RESET_ASSERT ''MISC_RESET_ASSERT'', opD X1_MISC_ASSERT_DELAY ''MISC_ASSERT_DELAY'' 100,
     opP X1_EXTRA_RESET_ASSERT ''EXTRA_RESET_ASSERT'', opP X1_DP_RESET_ASSERT ''DP_RESET_ASSERT'',
     opD X1_RESET_ASSERT_DELAY ''RESET_ASSERT_DELAY'' 1,
     opP X1_DP_RESET_CLEAR ''DP_RESET_CLEAR'', opP X1_EXTRA_RESET_CLEAR ''EXTRA_RESET_CLEAR'',
     \<lparr>o_step = X1_RESET_RELEASE_DELAY, o_kind = RELEASE_DELAY, o_offset = 0, o_mask = 0, o_value = 0,
      o_name = ''RESET_RELEASE_DELAY''\<rparr>,
     opP X1_MISC_RESET_CLEAR ''MISC_RESET_CLEAR'', opP X1_SYS_READY ''SYS_READY'',
     opP X1_RX_CLOCK_PHY ''RX_CLOCK_PHY'',
     \<lparr>o_step = X1_CLEAR_1200C, o_kind = CLEAR_1200C, o_offset = 0, o_mask = 0, o_value = 0,
      o_name = ''CLEAR_1200C''\<rparr>,
     opP X1_RX_ACTIVE ''RX_ACTIVE'', opP X1_TXB_ACTIVE ''TXB_ACTIVE'', opP X1_TXA_ACTIVE ''TXA_ACTIVE'',
     opU X1_SET_81000 ''SET_81000'' 0x81000 1 1, opP X1_PIPE_RESET_ASSERT ''PIPE_RESET_ASSERT'',
     opD X1_PIPE_ASSERT_DELAY ''PIPE_ASSERT_DELAY'' 1000, opD X1_PIPE_ASSERT_SETTLE ''PIPE_ASSERT_SETTLE'' 100,
     opU X1_SET_81018 ''SET_81018'' 0x81018 1 1, opP X1_PIPE_RESET_CLEAR ''PIPE_RESET_CLEAR'',
     opD X1_PIPE_RELEASE_DELAY ''PIPE_RELEASE_DELAY'' 1000,
     opD X1_PIPE_RELEASE_SETTLE ''PIPE_RELEASE_SETTLE'' 100,
     opU X1_CLEAR_81000 ''CLEAR_81000'' 0x81000 1 0, opP X1_UPLOAD ''UPLOAD'',
     opP X1_SYS_MEMORY_FORCE ''SYS_MEMORY_FORCE'',
     opP X1_TCSR_ROUTE ''TCSR_ROUTE'', opP X1_PIPE_HWCG_OFF ''PIPE_HWCG_OFF'',
     opU X1_SET_81004 ''SET_81004'' 0x81004 1 1,
     opU X1_TIMER_HIGH ''TIMER_HIGH'' 0x80c8 0xffff0000 0x00040000,
     opU X1_TIMER_LOW ''TIMER_LOW'' 0x80c8 0xffff 0,
     opU X1_TIMER_8148 ''TIMER_8148'' 0x8148 0xffffffff 250000,
     opU X1_TIMER_8144 ''TIMER_8144'' 0x8144 0xffffffff 4000,
     opP X1_DROM ''DROM'', opP X1_PHY_COMPOSITE ''PHY_COMPOSITE'',
     opU X1_ADAPTER_23 ''ADAPTER_23'' 0xd000 0x800000 0,
     opU X1_ADAPTER_22 ''ADAPTER_22'' 0xd000 0x400000 0,
     opU X1_ADAPTER_21 ''ADAPTER_21'' 0xd000 0x200000 0,
     opU X1_CLEAR_D064_6 ''CLEAR_D064_6'' 0xd064 0x40 0,
     opP X1_MCU_START ''MCU_START'', opP X1_PRESET ''PRESET'']"

definition x1_step_name :: "x1_step \<Rightarrow> string" where
  "x1_step_name step =
     (if step = X1_NONE then ''none''
      else if step = X1_VALIDATE then ''validate''
      else if step = X1_OWNER then ''owner''
      else case List.find (\<lambda>op. o_step op = step) operations of
        Some op \<Rightarrow> o_name op
      | None \<Rightarrow> ''invalid'')"

section \<open>The code\<close>

text \<open>
  \<open>drom0\<close> is the uninitialised local buffer; the result is \<^const>\<open>None\<close> if a buffer access is out
  of range.
\<close>

definition x1_validate ::
    "(u32 \<Rightarrow> u8 list \<Rightarrow> u32) \<Rightarrow> u8 list \<Rightarrow> x1_config option \<Rightarrow> 's x1_ops option \<Rightarrow> int option" where
  "x1_validate crc drom0 cfg ops =
     (case (cfg, ops) of
        (Some c, Some _) \<Rightarrow>
          if cfg_serial c = 0 \<or> cfg_router c \<noteq> 0 \<or> cfg_phy_rx_eq c \<noteq> 0x6f \<or> cfg_mcu_preset c \<noteq> 0x0c63 \<or>
             cfg_reset_release_us c \<noteq> 100
          then Some (- EINVAL)
          else (case qcom_usb4_x1_drom_build crc (Some drom0) (cfg_serial c) 0 of
             None \<Rightarrow> None
           | Some (ret, _) \<Rightarrow>
               if ret \<noteq> 0 then Some ret else qcom_usb4_fw_validate (cfg_firmware c) 0xf000)
      | _ \<Rightarrow> Some (- EINVAL))"

text \<open>One round of the loop: \<open>again\<close> is what follows when bit 31 is still set.\<close>

definition clear_1200c_round :: "'s x1_ops \<Rightarrow> ('s, int) state \<Rightarrow> ('s, int) state" where
  "clear_1200c_round ops again = do {
     (ret, value) \<leftarrow> op_read ops 0x1200c;
     if ret \<noteq> 0 then State_Monad.return ret
     else if value AND 0x80000000 = 0 then do {
       op_delay ops 10000;
       State_Monad.return 0
     }
     else again
   }"

text \<open>The loop with \<open>n\<close> attempts left.\<close>

fun clear_1200c_from :: "'s x1_ops \<Rightarrow> nat \<Rightarrow> ('s, int) state" where
  "clear_1200c_from ops 0 = clear_1200c_round ops (State_Monad.return (- ETIMEDOUT))"
| "clear_1200c_from ops (Suc n) = clear_1200c_round ops (do {
     ret \<leftarrow> op_update ops 0x1200c 0x80000000 0;
     if ret \<noteq> 0 then State_Monad.return ret
     else do {
       op_delay ops 1;
       clear_1200c_from ops n
     }
   })"

definition clear_1200c :: "'s x1_ops \<Rightarrow> ('s, int) state" where
  "clear_1200c ops = clear_1200c_from ops 11"

definition execute :: "operation \<Rightarrow> x1_config \<Rightarrow> 's x1_ops \<Rightarrow> ('s, int) state" where
  "execute op cfg ops =
     (case o_kind op of
        PROVIDER \<Rightarrow> op_do ops (o_step op) cfg
      | UPDATE \<Rightarrow> op_update ops (o_offset op) (o_mask op) (o_value op)
      | DELAY \<Rightarrow> do { op_delay ops (o_value op); State_Monad.return 0 }
      | RELEASE_DELAY \<Rightarrow> do { op_delay ops (cfg_reset_release_us cfg); State_Monad.return 0 }
      | CLEAR_1200C \<Rightarrow> clear_1200c ops)"

definition startup_fail :: "x1_state \<Rightarrow> int \<Rightarrow> int option \<times> x1_state" where
  "startup_fail st ret =
     (let e = (if ret < 0 then ret else - EPROTO) in (Some e, st\<lparr>st_error := e, st_phase := X1_FAILED\<rparr>))"

text \<open>The loop over the table.\<close>

fun startup_table ::
    "operation list \<Rightarrow> x1_config \<Rightarrow> 's x1_ops \<Rightarrow> x1_state \<Rightarrow> ('s, int \<times> x1_state) state" where
  "startup_table [] cfg ops st = State_Monad.return (0, st)"
| "startup_table (op # rest) cfg ops st = do {
     let st = st\<lparr>st_active := o_step op\<rparr>;
     ret \<leftarrow> execute op cfg ops;
     if ret \<noteq> 0 then State_Monad.return (ret, st)
     else startup_table rest cfg ops (st\<lparr>st_completed := o_step op\<rparr>)
   }"

definition x1_startup_run ::
    "(u32 \<Rightarrow> u8 list \<Rightarrow> u32) \<Rightarrow> u8 list \<Rightarrow> x1_state option \<Rightarrow> x1_config option \<Rightarrow> 's x1_ops option \<Rightarrow>
     ('s, int option \<times> x1_state option) state" where
  "x1_startup_run crc drom0 state cfg ops =
     (case state of
        None \<Rightarrow> State_Monad.return (Some (- EINVAL), None)
      | Some st \<Rightarrow>
          if st_phase st \<noteq> X1_NEW
          then State_Monad.return (Some (if st_phase st = X1_RUNNING then - EBUSY else - EALREADY), Some st)
          else
            let st = \<lparr>st_phase = X1_RUNNING, st_active = X1_VALIDATE, st_completed = X1_NONE, st_error = 0\<rparr>;
                fail = (\<lambda>st ret. State_Monad.return (apsnd Some (startup_fail st ret))) in
            (case (x1_validate crc drom0 cfg ops, cfg, ops) of
               (Some ret, Some c, Some f) \<Rightarrow>
                 if ret \<noteq> 0 then fail st ret
                 else do {
                   let st = st\<lparr>st_completed := X1_VALIDATE, st_active := X1_OWNER\<rparr>;
                   ret \<leftarrow> op_owner f c;
                   if ret \<noteq> 0 then fail st ret
                   else do {
                     (ret, st) \<leftarrow> startup_table operations c f (st\<lparr>st_completed := X1_OWNER\<rparr>);
                     if ret \<noteq> 0 then fail st ret
                     else State_Monad.return
                       (Some 0, Some (st\<lparr>st_active := X1_NONE, st_phase := X1_COMPLETE\<rparr>))
                   }
                 }
             | (Some ret, _, _) \<Rightarrow> fail st ret
             | (None, _, _) \<Rightarrow> State_Monad.return (None, Some st)))"

section \<open>Traces\<close>

text \<open>An event is a call of a callback with what it answered.\<close>

datatype st_event =
    Ev_owner int
  | Ev_step x1_step int
  | Ev_read u32 int u32
  | Ev_update u32 u32 u32 int
  | Ev_delay u32

definition traced_ops :: "'s x1_ops \<Rightarrow> ('s \<times> st_event list) x1_ops" where
  "traced_ops ops =
     \<lparr>op_owner = (\<lambda>cfg. traced Ev_owner (op_owner ops cfg)),
      op_do = (\<lambda>step cfg. traced (Ev_step step) (op_do ops step cfg)),
      op_read = (\<lambda>off. traced (\<lambda>(ret, v). Ev_read off ret v) (op_read ops off)),
      op_update = (\<lambda>off m v. traced (Ev_update off m v) (op_update ops off m v)),
      op_delay = (\<lambda>us. traced (\<lambda>_. Ev_delay us) (op_delay ops us))\<rparr>"

text \<open>
  What the handshake on register 0x1200c leaves in the trace (oldest first) with the result \<open>ret\<close>: while bit
  31 is set, it repeats read, clear and a short delay, at most \<open>k\<close> times.
\<close>

abbreviation busy :: "u32 \<Rightarrow> bool" where
  "busy v \<equiv> v AND 0x80000000 \<noteq> 0"

inductive clear_trace :: "nat \<Rightarrow> int \<Rightarrow> st_event list \<Rightarrow> bool" where
  cleared: "\<not> busy v \<Longrightarrow> clear_trace k 0 [Ev_read 0x1200c 0 v, Ev_delay 10000]"
| unread: "ret \<noteq> 0 \<Longrightarrow> clear_trace k ret [Ev_read 0x1200c ret v]"
| unwritten: "busy v \<Longrightarrow> ret \<noteq> 0 \<Longrightarrow>
    clear_trace (Suc k) ret [Ev_read 0x1200c 0 v, Ev_update 0x1200c 0x80000000 0 ret]"
| exhausted: "busy v \<Longrightarrow> clear_trace 0 (- ETIMEDOUT) [Ev_read 0x1200c 0 v]"
| again: "busy v \<Longrightarrow> clear_trace k ret es \<Longrightarrow>
    clear_trace (Suc k) ret (Ev_read 0x1200c 0 v # Ev_update 0x1200c 0x80000000 0 0 # Ev_delay 1 # es)"

text \<open>What one operation leaves in the trace with the result \<open>ret\<close>; a successful table.\<close>

definition op_trace :: "x1_config \<Rightarrow> operation \<Rightarrow> int \<Rightarrow> st_event list \<Rightarrow> bool" where
  "op_trace cfg op ret es \<longleftrightarrow>
     (case o_kind op of
        PROVIDER \<Rightarrow> es = [Ev_step (o_step op) ret]
      | UPDATE \<Rightarrow> es = [Ev_update (o_offset op) (o_mask op) (o_value op) ret]
      | DELAY \<Rightarrow> ret = 0 \<and> es = [Ev_delay (o_value op)]
      | RELEASE_DELAY \<Rightarrow> ret = 0 \<and> es = [Ev_delay (cfg_reset_release_us cfg)]
      | CLEAR_1200C \<Rightarrow> clear_trace 11 ret es)"

fun table_trace :: "x1_config \<Rightarrow> operation list \<Rightarrow> st_event list \<Rightarrow> bool" where
  "table_trace cfg [] es \<longleftrightarrow> es = []"
| "table_trace cfg (op # ops) es \<longleftrightarrow>
     (\<exists>es1 es2. es = es1 @ es2 \<and> op_trace cfg op 0 es1 \<and> table_trace cfg ops es2)"

lemma traced_ops_simps [simp]:
  "op_owner (traced_ops ops) cfg = traced Ev_owner (op_owner ops cfg)"
  "op_do (traced_ops ops) step cfg = traced (Ev_step step) (op_do ops step cfg)"
  "op_read (traced_ops ops) off = traced (\<lambda>(ret, v). Ev_read off ret v) (op_read ops off)"
  "op_update (traced_ops ops) off m v = traced (Ev_update off m v) (op_update ops off m v)"
  "op_delay (traced_ops ops) us = traced (\<lambda>_. Ev_delay us) (op_delay ops us)"
  by (simp_all add: traced_ops_def)

lemma clear_from_trace:
  "run_state (clear_1200c_from (traced_ops ops) k) (s, h) = (ret, (s', h')) \<Longrightarrow>
     \<exists>ds. h' = ds @ h \<and> clear_trace k ret (rev ds)"
proof (induction k arbitrary: s h ret)
  case 0
  obtain r v s1 where rv: "run_state (op_read ops 0x1200c) s = ((r, v), s1)" by (metis surj_pair)
  with 0 show ?case
    by (auto simp: clear_1200c_round_def intro: clear_trace.intros split: if_splits prod.splits)
next
  case (Suc k)
  obtain r v s1 where rv: "run_state (op_read ops 0x1200c) s = ((r, v), s1)" by (metis surj_pair)
  obtain u s2 where u: "run_state (op_update ops 0x1200c 0x80000000 0) s1 = (u, s2)" by (metis surj_pair)
  obtain x s3 where d: "run_state (op_delay ops 1) s2 = (x, s3)" by (metis surj_pair)
  show ?case
  proof (cases "r = 0 \<and> busy v \<and> u = 0")
    case True
    let ?r = "[Ev_delay 1, Ev_update 0x1200c 0x80000000 0 0, Ev_read 0x1200c 0 v]"
    from True Suc.prems rv u d
    have "run_state (clear_1200c_from (traced_ops ops) k) (s3, ?r @ h) = (ret, (s', h'))"
      by (simp add: clear_1200c_round_def)
    from Suc.IH [OF this] obtain ds where ds: "h' = ds @ ?r @ h" "clear_trace k ret (rev ds)" by blast
    with clear_trace.again [OF _ ds(2), of v] True show ?thesis by (intro exI [of _ "ds @ ?r"]) simp
  next
    case False
    with Suc.prems rv u show ?thesis
      by (auto simp: clear_1200c_round_def intro: clear_trace.intros split: if_splits prod.splits)
  qed
qed

lemma execute_trace:
  assumes "run_state (execute op cfg (traced_ops ops)) (s, h) = (ret, (s', h'))"
  shows "\<exists>ds. h' = ds @ h \<and> op_trace cfg op ret (rev ds)"
  using assms clear_from_trace [of ops 11 s h ret s' h']
  by (auto simp: execute_def op_trace_def clear_1200c_def split: kind.splits prod.splits)

lemma startup_table_trace:
  "run_state (startup_table tbl cfg (traced_ops ops) st) (s, h) = ((ret, st'), (s', h')) \<Longrightarrow>
   (ret = 0 \<and> (\<exists>ds. h' = ds @ h \<and> table_trace cfg tbl (rev ds)) \<and>
      st_completed st' = last (st_completed st # map o_step tbl) \<and>
      st_phase st' = st_phase st \<and> st_error st' = st_error st) \<or>
   (ret \<noteq> 0 \<and> (\<exists>pre op post es fs. tbl = pre @ op # post \<and> h' = rev (es @ fs) @ h \<and>
      table_trace cfg pre es \<and> op_trace cfg op ret fs \<and>
      st' = st\<lparr>st_active := o_step op, st_completed := last (st_completed st # map o_step pre)\<rparr>))"
proof (induction tbl arbitrary: st s h)
  case (Cons op tbl)
  obtain r s1 h1 where r: "run_state (execute op cfg (traced_ops ops)) (s, h) = (r, (s1, h1))"
    by (metis surj_pair)
  from execute_trace [OF this] obtain ds where ds: "h1 = ds @ h" "op_trace cfg op r (rev ds)" by blast
  show ?case
  proof (cases "r = 0")
    case False
    with Cons.prems r have "ret = r" "h' = h1" "st' = st\<lparr>st_active := o_step op\<rparr>"
      by (auto simp: Let_def)
    with False ds show ?thesis
      by (intro disjI2 conjI exI [of _ "[]"] exI [of _ op] exI [of _ tbl] exI [of _ "rev ds"]) auto
  next
    case True
    let ?st = "st\<lparr>st_active := o_step op, st_completed := o_step op\<rparr>"
    from True Cons.prems r have "run_state (startup_table tbl cfg (traced_ops ops) ?st) (s1, h1) = ((ret, st'), (s', h'))"
      by (simp add: Let_def)
    from Cons.IH [OF this] show ?thesis
    proof (elim disjE conjE exE)
      fix es
      assume "ret = 0" "h' = es @ h1" "table_trace cfg tbl (rev es)"
        "st_completed st' = last (st_completed ?st # map o_step tbl)"
        "st_phase st' = st_phase ?st" "st_error st' = st_error ?st"
      with ds True show ?thesis
        by (intro disjI1 conjI exI [of _ "es @ ds"]) auto
    next
      fix pre op' post es fs
      assume *: "ret \<noteq> 0" "tbl = pre @ op' # post" "h' = rev (es @ fs) @ h1" "table_trace cfg pre es"
        "op_trace cfg op' ret fs"
        "st' = ?st\<lparr>st_active := o_step op', st_completed := last (st_completed ?st # map o_step pre)\<rparr>"
      have "table_trace cfg (op # pre) (rev ds @ es)" using *(4) ds(2) True by auto
      with * ds(1) show ?thesis
        by (intro disjI2 conjI exI [of _ "op # pre"] exI [of _ op'] exI [of _ post] exI [of _ "rev ds @ es"]
            exI [of _ fs]) auto
    qed
  qed
qed simp

text \<open>The trace changes nothing of what the callbacks do.\<close>

lemma shadows_clear: "shadows (clear_1200c_from (traced_ops ops) k) (clear_1200c_from ops k)"
  by (induction k) (auto simp: clear_1200c_round_def intro!: shadows_rules)

lemma shadows_execute: "shadows (execute op cfg (traced_ops ops)) (execute op cfg ops)"
  by (auto simp: execute_def clear_1200c_def intro!: shadows_rules shadows_clear split: kind.splits)

lemma shadows_table: "shadows (startup_table tbl cfg (traced_ops ops) st) (startup_table tbl cfg ops st)"
  by (induction tbl arbitrary: st) (auto simp: Let_def intro!: shadows_rules shadows_execute)

lemma x1_validate_map: "x1_validate crc drom0 cfg (map_option f ops) = x1_validate crc drom0 cfg ops"
  by (simp add: x1_validate_def split: option.splits)

lemma shadows_startup:
  "shadows (x1_startup_run crc drom0 state cfg (map_option traced_ops ops)) (x1_startup_run crc drom0 state cfg ops)"
  unfolding x1_startup_run_def x1_validate_map Let_def
  by (auto intro!: shadows_rules shadows_table split: option.splits)

lemma x1_validate_total: "\<exists>ret. x1_validate crc drom0 cfg ops = Some ret"
  using fw_validate_total
  by (auto simp: x1_validate_def x1_drom_build_eq split: option.splits)

lemma x1_validate_needs: "x1_validate crc drom0 cfg ops = Some 0 \<Longrightarrow> \<exists>c f. cfg = Some c \<and> ops = Some f"
  by (auto simp: x1_validate_def split: option.splits)

text \<open>
  The four ways an attempt can end: \<open>v\<close> is the result of the validation, \<open>r\<close> the first answer that was not
  zero.
\<close>

definition startup_error :: "int \<Rightarrow> int" where
  "startup_error r = (if r < 0 then r else - EPROTO)"

definition startup_result ::
    "int \<Rightarrow> x1_config option \<Rightarrow> st_event list \<Rightarrow> int option \<Rightarrow> x1_state \<Rightarrow> bool" where
  "startup_result v cfg trace ret st \<longleftrightarrow>
     (v = 0 \<and> ret = Some 0 \<and> (\<exists>c es. cfg = Some c \<and> trace = Ev_owner 0 # es \<and> table_trace c operations es) \<and>
        st = \<lparr>st_phase = X1_COMPLETE, st_active = X1_NONE, st_completed = X1_PRESET, st_error = 0\<rparr>) \<or>
     (\<exists>r. r \<noteq> 0 \<and> ret = Some (startup_error r) \<and> st_phase st = X1_FAILED \<and> st_error st = startup_error r \<and>
        ((v = r \<and> st_active st = X1_VALIDATE \<and> st_completed st = X1_NONE \<and> trace = []) \<or>
         (v = 0 \<and> st_active st = X1_OWNER \<and> st_completed st = X1_VALIDATE \<and> trace = [Ev_owner r]) \<or>
         (v = 0 \<and> (\<exists>c pre op post es fs. cfg = Some c \<and> operations = pre @ op # post \<and>
            st_active st = o_step op \<and> st_completed st = last (X1_OWNER # map o_step pre) \<and>
            trace = Ev_owner 0 # es @ fs \<and> table_trace c pre es \<and> op_trace c op r fs))))"

lemma startup_fail_eq: "startup_fail st ret = (Some (startup_error ret),
    st\<lparr>st_error := startup_error ret, st_phase := X1_FAILED\<rparr>)"
  by (simp add: startup_fail_def startup_error_def Let_def)

lemma startup_error_negative: "startup_error r < 0"
  by (simp add: startup_error_def)

lemma startup_run_new:
  assumes "st_phase st = X1_NEW"
    and run: "run_state (x1_startup_run crc drom0 (Some st) cfg (map_option traced_ops ops)) (s, h) =
      ((ret, state'), (s', h'))"
  shows "\<exists>v st' ds. x1_validate crc drom0 cfg ops = Some v \<and> state' = Some st' \<and> h' = ds @ h \<and>
    startup_result v cfg (rev ds) ret st'"
proof -
  obtain v where v: "x1_validate crc drom0 cfg (map_option traced_ops ops) = Some v"
    using x1_validate_total by blast
  then have v': "x1_validate crc drom0 cfg ops = Some v" by (simp add: x1_validate_map)
  show ?thesis
  proof (cases "v = 0")
    case False
    with v assms have "(ret, state') = apsnd Some (startup_fail \<lparr>st_phase = X1_RUNNING,
        st_active = X1_VALIDATE, st_completed = X1_NONE, st_error = 0\<rparr> v)" "h' = h"
      by (cases cfg; cases ops; simp add: x1_startup_run_def Let_def)+
    with False v' show ?thesis by (auto simp: startup_fail_eq startup_result_def)
  next
    case True
    with v obtain c f where cf: "cfg = Some c" "ops = Some f" using x1_validate_needs by blast
    obtain o' s1 where owner_run: "run_state (op_owner f c) s = (o', s1)" by (metis surj_pair)
    let ?st = "\<lparr>st_phase = X1_RUNNING, st_active = X1_OWNER, st_completed = X1_OWNER, st_error = 0\<rparr>"
    show ?thesis
    proof (cases "o' = 0")
      case False
      with True v v' cf assms owner_run show ?thesis
        by (auto simp: x1_startup_run_def Let_def startup_fail_eq startup_result_def)
    next
      case owner: True
      obtain r st1 s2 h1 where
        t: "run_state (startup_table operations c (traced_ops f) ?st) (s1, Ev_owner 0 # h) = ((r, st1), (s2, h1))"
        by (metis surj_pair)
      have last: "last (X1_OWNER # map o_step operations) = X1_PRESET"
        by (simp add: operations_def opP_def)
      from startup_table_trace [OF t] show ?thesis
      proof (elim disjE conjE exE)
        fix ds
        assume r: "r = 0" "h1 = ds @ Ev_owner 0 # h" "table_trace c operations (rev ds)"
          "st_completed st1 = last (st_completed ?st # map o_step operations)" "st_phase st1 = st_phase ?st"
          "st_error st1 = st_error ?st"
        with True owner owner_run v cf assms t have "ret = Some 0" "h' = h1"
          "state' = Some (st1\<lparr>st_active := X1_NONE, st_phase := X1_COMPLETE\<rparr>)"
          by (auto simp: x1_startup_run_def Let_def)
        with r cf last v' True show ?thesis
          by (intro exI [of _ 0] exI [of _ "st1\<lparr>st_active := X1_NONE, st_phase := X1_COMPLETE\<rparr>"] exI [of _ "ds @ [Ev_owner 0]"])
            (auto simp: startup_result_def)
      next
        fix pre op post es fs
        assume r: "r \<noteq> 0" "operations = pre @ op # post" "h1 = rev (es @ fs) @ Ev_owner 0 # h"
          "table_trace c pre es" "op_trace c op r fs"
          "st1 = ?st\<lparr>st_active := o_step op, st_completed := last (st_completed ?st # map o_step pre)\<rparr>"
        let ?e = "startup_error r"
        from r(1) True owner owner_run v cf assms t have "ret = Some ?e" "h' = h1"
          "state' = Some (st1\<lparr>st_error := ?e, st_phase := X1_FAILED\<rparr>)"
          by (auto simp: x1_startup_run_def Let_def startup_fail_eq)
        moreover have "startup_result 0 cfg (Ev_owner 0 # es @ fs) (Some ?e) (st1\<lparr>st_error := ?e, st_phase := X1_FAILED\<rparr>)"
          unfolding startup_result_def using r(1,2,4-6) cf
          by (intro disjI2 exI [of _ r] conjI exI [of _ c] exI [of _ pre] exI [of _ op] exI [of _ post]
              exI [of _ es] exI [of _ fs]) auto
        ultimately show ?thesis using r(3) v' True by (intro exI [of _ 0] exI [of _ "rev (es @ fs) @ [Ev_owner 0]"] exI) auto
      qed
    qed
  qed
qed

text \<open>The provider steps of a trace, in order.\<close>

fun steps_of :: "st_event list \<Rightarrow> x1_step list" where
  "steps_of [] = []"
| "steps_of (Ev_step s r # es) = s # steps_of es"
| "steps_of (e # es) = steps_of es"

definition provider_steps :: "operation list \<Rightarrow> x1_step list" where
  "provider_steps tbl = map o_step (filter (\<lambda>op. o_kind op = PROVIDER) tbl)"

lemma steps_of_append: "steps_of (es @ fs) = steps_of es @ steps_of fs"
  by (induction es rule: steps_of.induct) simp_all

lemma steps_of_clear: "clear_trace k ret es \<Longrightarrow> steps_of es = []"
  by (induction rule: clear_trace.induct) simp_all

lemma steps_of_op: "op_trace cfg op ret es \<Longrightarrow> steps_of es = provider_steps [op]"
  by (auto simp: op_trace_def provider_steps_def steps_of_clear split: kind.splits)

lemma steps_of_table: "table_trace cfg tbl es \<Longrightarrow> steps_of es = provider_steps tbl"
proof (induction tbl arbitrary: es)
  case (Cons op tbl)
  then obtain es1 es2 where "es = es1 @ es2" "op_trace cfg op 0 es1" "table_trace cfg tbl es2" by auto
  with Cons.IH show ?case by (simp add: steps_of_append steps_of_op) (simp add: provider_steps_def)
qed (simp add: provider_steps_def)

lemma startup_result_steps:
  assumes "startup_result v cfg trace ret st"
  shows "prefix (steps_of trace) (provider_steps operations)"
proof -
  have cut: "provider_steps (pre @ op # post) = provider_steps pre @ provider_steps [op] @ provider_steps post"
    for pre op post
    by (simp add: provider_steps_def)
  from assms show ?thesis
    unfolding startup_result_def
  proof (elim disjE conjE exE)
    fix r c pre op post es fs
    assume o: "operations = pre @ op # post"
      and t: "trace = Ev_owner 0 # es @ fs" "table_trace c pre es" "op_trace c op r fs"
    have "provider_steps operations = steps_of trace @ provider_steps post"
      unfolding o cut by (simp add: t(1) steps_of_append steps_of_table [OF t(2)] steps_of_op [OF t(3)])
    then show ?thesis by simp
  qed (auto simp: steps_of_table)
qed

text \<open>A run keeps every relation that its callbacks keep.\<close>

lemma keeps_startup:
  assumes R: "history_order R"
    and cb: "\<And>cfg. keeps R (op_owner ops cfg)" "\<And>step cfg. keeps R (op_do ops step cfg)"
      "\<And>off. keeps R (op_read ops off)" "\<And>us. keeps R (op_delay ops us)"
    and upd: "\<And>off msk v. off \<in> insert 0x1200c (o_offset ` set operations) \<Longrightarrow> keeps R (op_update ops off msk v)"
  shows "keeps R (x1_startup_run crc drom0 state cfg (Some ops))"
proof -
  note rules = history_order.keeps_rules [OF R]
  have clear: "keeps R (clear_1200c_from ops n)" for n
    by (induction n) (auto simp: clear_1200c_round_def intro!: rules cb upd)
  have ex: "keeps R (execute op cfg ops)" if "op \<in> set operations" for op cfg
    using that by (auto simp: execute_def clear_1200c_def intro!: rules cb upd clear split: kind.splits)
  have tbl: "set tbl \<subseteq> set operations \<Longrightarrow> keeps R (startup_table tbl cfg ops st)" for tbl cfg st
    by (induction tbl arbitrary: st) (auto simp: Let_def intro!: rules ex)
  show ?thesis
    unfolding x1_startup_run_def Let_def
    by (auto intro!: rules cb tbl split: option.splits)
qed

section \<open>Properties\<close>

text \<open>One call, with the callbacks' state and the trace.\<close>

definition startup_call ::
    "(u32 \<Rightarrow> u8 list \<Rightarrow> u32) \<Rightarrow> u8 list \<Rightarrow> x1_config option \<Rightarrow> 's x1_ops option \<Rightarrow>
     x1_state \<times> 's \<times> st_event list \<Rightarrow> int \<times> (x1_state \<times> 's \<times> st_event list)" where
  "startup_call crc drom0 cfg ops s =
     (case run_state (x1_startup_run crc drom0 (Some (fst s)) cfg (map_option traced_ops ops)) (snd s) of
        ((ret, st), sh) \<Rightarrow> (case ret of Some r \<Rightarrow> r | None \<Rightarrow> 0, (case st of Some st' \<Rightarrow> st' | None \<Rightarrow> fst s, sh)))"

interpretation startup_once: one_shot "startup_call crc drom0 cfg ops" "\<lambda>s. st_phase (fst s) = X1_NEW"
  for crc drom0 cfg ops
proof unfold_locales
  fix s :: "x1_state \<times> 'a \<times> st_event list"
  show refused: "fst (startup_call crc drom0 cfg ops s) < 0 \<and> snd (startup_call crc drom0 cfg ops s) = s"
    if "st_phase (fst s) \<noteq> X1_NEW"
    using that by (auto simp: startup_call_def x1_startup_run_def)
  show "st_phase (fst (snd (startup_call crc drom0 cfg ops s))) \<noteq> X1_NEW"
  proof (cases "st_phase (fst s) = X1_NEW")
    case True
    obtain c h where s: "snd s = (c, h)" by (cases "snd s")
    obtain ret st c' h' where
      run: "run_state (x1_startup_run crc drom0 (Some (fst s)) cfg (map_option traced_ops ops)) (c, h) =
        ((ret, st), (c', h'))" by (metis surj_pair)
    from startup_run_new [OF True run] show ?thesis
      by (auto simp: startup_call_def s run startup_result_def)
  next
    case False
    with refused show ?thesis by simp
  qed
qed

text \<open>
  C1. Every attempt from a fresh state ends in one of four ways, and the trace of callbacks with their
  answers says which.  Success: the validation accepts, the owner callback and then all 46 operations of
  the table in order answer 0, each with exactly its own callback, delay or bounded handshake, and the
  state is complete.  Otherwise the attempt stops at the first answer that is not zero; that answer, or
  \<open>-EPROTO\<close> if it is positive, is returned and recorded in the failed state, which names the step that failed
  and the one completed before.  A refused validation makes no callback, a refused owner only that one,
  and a failed operation leaves exactly the trace of the operations before it and its own.
\<close>

theorem startup_sequence_exact:
  assumes "st_phase st = X1_NEW"
    and "run_state (x1_startup_run crc drom0 (Some st) cfg (map_option traced_ops ops)) (s, h) =
      ((ret, state'), (s', h'))"
  shows "\<exists>v st' ds. x1_validate crc drom0 cfg ops = Some v \<and> state' = Some st' \<and> h' = ds @ h \<and>
    startup_result v cfg (rev ds) ret st'"
  using assms by (rule startup_run_new)

text \<open>A valid profile with a one-record image, and callbacks that always succeed.\<close>

definition sample_cfg :: x1_config where
  "sample_cfg = \<lparr>cfg_firmware = Some [4, 0, 0, 0, 1, 0, 0, 0, 5, 0, 0, 0], cfg_serial = 7, cfg_router = 0,
     cfg_phy_rx_eq = 0x6f, cfg_mcu_preset = 0x0c63, cfg_reset_release_us = 100\<rparr>"

definition ready_ops :: "unit x1_ops" where
  "ready_ops = \<lparr>op_owner = \<lambda>_. State_Monad.return 0, op_do = \<lambda>_ _. State_Monad.return 0,
     op_read = \<lambda>_. State_Monad.return (0, 0), op_update = \<lambda>_ _ _. State_Monad.return 0,
     op_delay = \<lambda>_. State_Monad.return ()\<rparr>"

definition new_state :: x1_state where
  "new_state = \<lparr>st_phase = X1_NEW, st_active = X1_NONE, st_completed = X1_NONE, st_error = 0\<rparr>"

lemma sample_cfg_valid: "x1_validate (\<lambda>_ _. 0) (replicate 116 0) (Some sample_cfg) (Some ops) = Some 0"
  by (simp add: x1_validate_def sample_cfg_def x1_drom_build_eq qcom_usb4_fw_validate_def
      fw_validate_from.simps get_unaligned_le32_def be32_of_def unat_max_minus)

lemmas sample_startup_simps = x1_startup_run_def new_state_def sample_cfg_valid Let_def startup_fail_eq

text \<open>Callbacks of which the second step fails.\<close>

definition failing_ops :: "unit x1_ops" where
  "failing_ops = ready_ops\<lparr>op_do := \<lambda>step _. State_Monad.return (if step = X1_PHY_PREPARE then 0 else - EIO)\<rparr>"

theorem startup_sequence_exact_witness:
  "\<exists>st' ds. run_state (x1_startup_run (\<lambda>_ _. 0) (replicate 116 0) (Some new_state) (Some sample_cfg)
        (map_option traced_ops (Some failing_ops))) ((), []) = ((Some (- EIO), Some st'), ((), ds)) \<and>
     rev ds = [Ev_owner 0, Ev_step X1_PHY_PREPARE 0, Ev_step X1_RX_PREPARE (- EIO)] \<and>
     startup_result 0 (Some sample_cfg) (rev ds) (Some (- EIO)) st' \<and> st_active st' = X1_RX_PREPARE"
proof -
  have n: "st_phase new_state = X1_NEW" by (simp add: new_state_def)
  let ?ds = "[Ev_step X1_RX_PREPARE (- EIO), Ev_step X1_PHY_PREPARE 0, Ev_owner 0]"
  obtain st' where run: "run_state (x1_startup_run (\<lambda>_ _. 0) (replicate 116 0) (Some new_state) (Some sample_cfg)
        (map_option traced_ops (Some failing_ops))) ((), []) = ((Some (- EIO), Some st'), ((), ?ds))"
    and a: "st_active st' = X1_RX_PREPARE"
    by (rule that [of "\<lparr>st_phase = X1_FAILED, st_active = X1_RX_PREPARE, st_completed = X1_PHY_PREPARE, st_error = - EIO\<rparr>"])
      (simp_all add: sample_startup_simps startup_error_def failing_ops_def ready_ops_def operations_def opP_def execute_def)
  from startup_sequence_exact [OF n run] run a show ?thesis by (auto simp: sample_cfg_valid)
qed

text \<open>
  C35. One attempt per state: after a call of any outcome, every further call is refused with a negative
  error, makes no callback and leaves the state as it is, however often it is repeated.
\<close>

theorem startup_one_attempt:
  "fst (startup_call crc drom0 cfg ops (snd (startup_call crc drom0 cfg ops s))) < 0 \<and>
   ((\<lambda>s. snd (startup_call crc drom0 cfg ops s)) ^^ Suc n) s = snd (startup_call crc drom0 cfg ops s)"
  using startup_once.second_refused startup_once.iterate by blast

text \<open>
  Whatever the callbacks answer, the provider steps of an attempt are a prefix of the table's; in
  particular the MCU is never started before firmware, memory force, descriptor and PHY are done,
  and the preset command never before the start.
\<close>

lemma startup_provider_order:
  assumes "st_phase st = X1_NEW"
    and "run_state (x1_startup_run crc drom0 (Some st) cfg (map_option traced_ops ops)) (s, []) =
      ((ret, state'), (s', h'))"
  shows "prefix (steps_of (rev h')) (provider_steps operations) \<and>
    (\<forall>before after. steps_of (rev h') = before @ X1_MCU_START # after \<longrightarrow>
       {X1_SYS_READY, X1_UPLOAD, X1_SYS_MEMORY_FORCE, X1_DROM, X1_PHY_COMPOSITE} \<subseteq> set before \<and>
       X1_PRESET \<notin> set before)"
proof -
  from startup_run_new [OF assms] obtain v st' where "startup_result v cfg (rev h') ret st'" by auto
  then have p: "prefix (steps_of (rev h')) (provider_steps operations)" by (rule startup_result_steps)
  have d: "distinct (provider_steps operations)"
    by (simp add: provider_steps_def operations_def opP_def opU_def opD_def)
  obtain pre where pre: "provider_steps operations = pre @ X1_MCU_START # [X1_PRESET]"
    "{X1_SYS_READY, X1_UPLOAD, X1_SYS_MEMORY_FORCE, X1_DROM, X1_PHY_COMPOSITE} \<subseteq> set pre"
    by (rule that [of "butlast (butlast (provider_steps operations))"])
      (simp_all add: provider_steps_def operations_def opP_def opU_def opD_def)
  have "before = pre" if "steps_of (rev h') = before @ X1_MCU_START # after" for before after
  proof -
    from p that obtain rest where "provider_steps operations = before @ X1_MCU_START # after @ rest"
      by (auto simp: prefix_def)
    with d pre(1) show ?thesis by (metis append_Cons_eq_iff distinct.simps(2) distinct_append
          not_distinct_conv_prefix)
  qed
  moreover have "X1_PRESET \<notin> set pre" using d pre(1) by simp
  ultimately show ?thesis using p pre(2) by blast
qed

text \<open>
  The table and the enumeration agree: the table performs every step of \<open>enum x1_step\<close> except the
  three bookkeeping ones, each exactly once, and every step has a name of its own, so a diagnostic
  never reports \<open>invalid\<close>.
\<close>

lemma startup_table_complete:
  "distinct (map o_step operations) \<and>
   (s \<in> set (map o_step operations) \<longleftrightarrow> s \<notin> {X1_NONE, X1_VALIDATE, X1_OWNER}) \<and>
   x1_step_name s \<noteq> ''invalid'' \<and> (x1_step_name s = x1_step_name s' \<longleftrightarrow> s = s')"
proof -
  have d: "distinct (map o_step operations)"
    by (simp add: operations_def opP_def opU_def opD_def)
  have m: "s \<in> set (map o_step operations) \<longleftrightarrow> s \<notin> {X1_NONE, X1_VALIDATE, X1_OWNER}" for s
    by (cases s) (simp_all add: operations_def opP_def opU_def opD_def)
  have n: "distinct (map o_name operations)" "set (map o_name operations) \<inter> {''none'', ''validate'', ''owner'', ''invalid''} = {}"
    by (simp_all add: operations_def opP_def opU_def opD_def)
  have name: "\<exists>op \<in> set operations. o_step op = s \<and> x1_step_name s = o_name op"
    if s: "s \<notin> {X1_NONE, X1_VALIDATE, X1_OWNER}" for s
  proof (cases "List.find (\<lambda>op. o_step op = s) operations")
    case None
    with m [of s] s show ?thesis by (auto simp: find_None_iff)
  next
    case (Some op)
    then have "op \<in> set operations" "o_step op = s" by (auto simp: find_Some_iff)
    with Some s show ?thesis by (auto simp: x1_step_name_def)
  qed
  have early: "x1_step_name X1_NONE = ''none''" "x1_step_name X1_VALIDATE = ''validate''" "x1_step_name X1_OWNER = ''owner''"
    by (simp_all add: x1_step_name_def)
  have inj: "op = op'" if "op \<in> set operations" "op' \<in> set operations" "o_name op = o_name op'" for op op'
    using n(1) that by (auto simp: distinct_map inj_on_def)
  have fresh: "o_name op \<notin> {''none'', ''validate'', ''owner'', ''invalid''}" if "op \<in> set operations" for op
  proof -
    from that have "o_name op \<in> set (map o_name operations)" by simp
    with n(2) show ?thesis by blast
  qed
  have range: "x1_step_name s \<in> {''none'', ''validate'', ''owner''}" if "s \<in> {X1_NONE, X1_VALIDATE, X1_OWNER}" for s
    using that early by auto
  have range': "x1_step_name s \<notin> {''none'', ''validate'', ''owner'', ''invalid''}"
    if "s \<notin> {X1_NONE, X1_VALIDATE, X1_OWNER}" for s
  proof -
    from name [OF that] obtain op where "op \<in> set operations" "x1_step_name s = o_name op" by blast
    with fresh [of op] show ?thesis by simp
  qed
  have valid: "x1_step_name s \<noteq> ''invalid''" for s
    using range [of s] range' [of s] by (cases "s \<in> {X1_NONE, X1_VALIDATE, X1_OWNER}") auto
  have eq: "s = s'" if e: "x1_step_name s = x1_step_name s'" for s s'
  proof (cases "s \<in> {X1_NONE, X1_VALIDATE, X1_OWNER}")
    case True
    with range [of s] range' [of s'] e have "s' \<in> {X1_NONE, X1_VALIDATE, X1_OWNER}" by auto
    with True e early show ?thesis by auto
  next
    case False
    with range' [of s] range [of s'] e have s': "s' \<notin> {X1_NONE, X1_VALIDATE, X1_OWNER}" by auto
    from name [OF False] name [OF s'] e inj show ?thesis by metis
  qed
  from d m valid eq show ?thesis by blast
qed

end
