(* ===== verification/X1_Typec.thy ===== *)
theory X1_Typec
  imports X1_Prelude
begin

text \<open>
  The MCU mailbox words for Type-C events (\<open>snapshot/module/qcom-usb4-typec.c\<close>).  The field
  layout of the USB PD and Thunderbolt objects comes from kernel headers outside this
  repository, so it is a parameter (\<open>pd_layout\<close>): one accessor per macro the source uses.
\<close>

section \<open>Data\<close>

record qcom_usb4_pan_connect =
  pc_mode :: u8
  pc_orientation :: u8
  pc_cable_type :: u8
  pc_cable_speed :: u8
  pc_rounded :: u8
  pc_board_retimer :: u8

definition QCOM_USB4_TUNNEL_TBT :: u8 where "QCOM_USB4_TUNNEL_TBT = 0"
definition QCOM_USB4_TUNNEL_USB4 :: u8 where "QCOM_USB4_TUNNEL_USB4 = 1"
definition QCOM_USB4_PAN_NORMAL :: u8 where "QCOM_USB4_PAN_NORMAL = 0"
definition QCOM_USB4_PAN_REVERSE :: u8 where "QCOM_USB4_PAN_REVERSE = 1"
definition QCOM_USB4_PAN_PASSIVE :: u8 where "QCOM_USB4_PAN_PASSIVE = 0"
definition QCOM_USB4_PAN_RETIMER :: u8 where "QCOM_USB4_PAN_RETIMER = 1"

lemmas pan_consts = QCOM_USB4_TUNNEL_TBT_def QCOM_USB4_TUNNEL_USB4_def QCOM_USB4_PAN_NORMAL_def
  QCOM_USB4_PAN_REVERSE_def QCOM_USB4_PAN_PASSIVE_def QCOM_USB4_PAN_RETIMER_def

datatype typec_orientation =
  TYPEC_ORIENTATION_NONE | TYPEC_ORIENTATION_NORMAL | TYPEC_ORIENTATION_REVERSE

record enter_usb_data =
  eudo :: u32
  active_link_training :: bool

record typec_thunderbolt_data =
  tbt_device_mode :: u32
  tbt_cable_mode :: u32
  tbt_enter_vdo :: u32

record pd_layout =
  eudo_usb_mode :: "u32 \<Rightarrow> u32"
  eudo_mode_usb4 :: u32
  eudo_cable_speed :: "u32 \<Rightarrow> u32"
  eudo_speed_gen2 :: u32
  eudo_speed_gen3 :: u32
  eudo_cable_type :: "u32 \<Rightarrow> u32"
  tbt_mode_bit :: "u32 \<Rightarrow> bool"
  tbt_adapter_is_tbt3 :: "u32 \<Rightarrow> bool"
  tbt_optical_or_training :: "u32 \<Rightarrow> bool"
  tbt_cable_active :: "u32 \<Rightarrow> bool"
  tbt_enter_active :: "u32 \<Rightarrow> bool"
  tbt_cable_retimer :: "u32 \<Rightarrow> bool"
  tbt_cable_speed :: "u32 \<Rightarrow> u32"
  tbt_speed_usb3_passive :: u32
  tbt_speed_10_and_20 :: u32
  tbt_rounded_support :: "u32 \<Rightarrow> u32"

section \<open>The code\<close>

definition connect_word :: "qcom_usb4_pan_connect \<Rightarrow> u32 \<Rightarrow> u32" where
  "connect_word pan cable_class =
     1 OR push_bit 8 (ucast (pc_mode pan)) OR push_bit 9 (ucast (pc_orientation pan)) OR
     push_bit 10 (ucast (pc_board_retimer pan)) OR push_bit 11 cable_class OR
     push_bit 13 (ucast (pc_cable_speed pan))"

definition connect_class :: "qcom_usb4_pan_connect \<Rightarrow> u32" where
  "connect_class pan =
     (if pc_cable_type pan = QCOM_USB4_PAN_RETIMER
      then if pc_mode pan = QCOM_USB4_TUNNEL_TBT \<and> pc_rounded pan = 0 then 3 else 1
      else 0)"

text \<open>A command pointer is the word it points to, or \<^const>\<open>None\<close> for NULL.\<close>

definition qcom_usb4_typec_connect_command ::
    "qcom_usb4_pan_connect option \<Rightarrow> u32 option \<Rightarrow> int \<times> u32 option" where
  "qcom_usb4_typec_connect_command pan command =
     (case (pan, command) of
        (Some p, Some c) \<Rightarrow>
          if pc_mode p > QCOM_USB4_TUNNEL_USB4 \<or> pc_orientation p > QCOM_USB4_PAN_REVERSE \<or>
             pc_rounded p > 1 \<or> pc_board_retimer p > 1
          then (- EINVAL, Some c)
          else if pc_cable_type p > QCOM_USB4_PAN_RETIMER \<or> pc_cable_speed p > 1
          then (- EOPNOTSUPP, Some c)
          else (0, Some (connect_word p (connect_class p)))
      | _ \<Rightarrow> (- EINVAL, command))"

definition pan_orientation :: "typec_orientation \<Rightarrow> u8 option" where
  "pan_orientation o' =
     (case o' of
        TYPEC_ORIENTATION_NORMAL \<Rightarrow> Some QCOM_USB4_PAN_NORMAL
      | TYPEC_ORIENTATION_REVERSE \<Rightarrow> Some QCOM_USB4_PAN_REVERSE
      | TYPEC_ORIENTATION_NONE \<Rightarrow> None)"

definition qcom_usb4_typec_usb4_command ::
    "pd_layout \<Rightarrow> enter_usb_data option \<Rightarrow> typec_orientation \<Rightarrow> u8 \<Rightarrow> u32 option \<Rightarrow> int \<times> u32 option" where
  "qcom_usb4_typec_usb4_command L data orientation board_retimer command =
     (case (data, command) of
        (Some d, Some _) \<Rightarrow>
          if eudo_usb_mode L (eudo d) \<noteq> eudo_mode_usb4 L then (- EINVAL, command)
          else if active_link_training d then (- EOPNOTSUPP, command)
          else (case pan_orientation orientation of
             None \<Rightarrow> (- EINVAL, command)
           | Some pan_o \<Rightarrow>
               let speed = eudo_cable_speed L (eudo d) in
               if speed \<noteq> eudo_speed_gen2 L \<and> speed \<noteq> eudo_speed_gen3 L then (- EOPNOTSUPP, command)
               else qcom_usb4_typec_connect_command
                 (Some \<lparr>pc_mode = QCOM_USB4_TUNNEL_USB4, pc_orientation = pan_o,
                        pc_cable_type = ucast (eudo_cable_type L (eudo d)),
                        pc_cable_speed = (if speed = eudo_speed_gen2 L then 0 else 1),
                        pc_rounded = 0, pc_board_retimer = board_retimer\<rparr>) command)
      | _ \<Rightarrow> (- EINVAL, command))"

definition qcom_usb4_typec_tbt_command ::
    "pd_layout \<Rightarrow> typec_thunderbolt_data option \<Rightarrow> typec_orientation \<Rightarrow> u8 \<Rightarrow> u32 option \<Rightarrow> int \<times> u32 option" where
  "qcom_usb4_typec_tbt_command L data orientation board_retimer command =
     (case (data, command) of
        (Some d, Some _) \<Rightarrow>
          let cable = tbt_cable_mode d; enter = tbt_enter_vdo d;
              active = tbt_cable_active L cable; retimer = tbt_cable_retimer L cable;
              speed = tbt_cable_speed L cable; rounded = tbt_rounded_support L cable in
          if \<not> tbt_mode_bit L (tbt_device_mode d) \<or> \<not> tbt_mode_bit L cable \<or> \<not> tbt_mode_bit L enter
          then (- EINVAL, command)
          else if \<not> tbt_adapter_is_tbt3 L (tbt_device_mode d) then (- EOPNOTSUPP, command)
          else if tbt_optical_or_training L (cable OR enter) then (- EOPNOTSUPP, command)
          else if active \<noteq> tbt_enter_active L enter \<or> retimer \<noteq> tbt_cable_retimer L enter \<or>
                  (\<not> active \<and> retimer) then (- EINVAL, command)
          else if active \<and> \<not> retimer then (- EOPNOTSUPP, command)
          else if speed \<noteq> tbt_cable_speed L enter then (- EINVAL, command)
          else if speed \<noteq> tbt_speed_usb3_passive L \<and> speed \<noteq> tbt_speed_10_and_20 L
          then (- EOPNOTSUPP, command)
          else if rounded \<noteq> tbt_rounded_support L enter then (- EINVAL, command)
          else if rounded > 1 then (- EOPNOTSUPP, command)
          else (case pan_orientation orientation of
             None \<Rightarrow> (- EINVAL, command)
           | Some pan_o \<Rightarrow>
               qcom_usb4_typec_connect_command
                 (Some \<lparr>pc_mode = QCOM_USB4_TUNNEL_TBT, pc_orientation = pan_o,
                        pc_cable_type = (if retimer then QCOM_USB4_PAN_RETIMER else QCOM_USB4_PAN_PASSIVE),
                        pc_cable_speed = (if speed = tbt_speed_usb3_passive L then 0 else 1),
                        pc_rounded = ucast rounded, pc_board_retimer = board_retimer\<rparr>) command)
      | _ \<Rightarrow> (- EINVAL, command))"

definition qcom_usb4_typec_preset_command :: "u32 \<Rightarrow> u32 option \<Rightarrow> int \<times> u32 option" where
  "qcom_usb4_typec_preset_command preset command =
     (if command = None \<or> preset > 0xffff then (- EINVAL, command)
      else (0, Some (2 OR push_bit 8 preset)))"

definition qcom_usb4_typec_disconnect_command :: "u32 option \<Rightarrow> int \<times> u32 option" where
  "qcom_usb4_typec_disconnect_command command =
     (if command = None then (- EINVAL, command) else (0, Some 6))"

section \<open>The reference: reading a mailbox word\<close>

datatype mailbox =
  Mailbox_Connect bool bool bool nat nat \<comment> \<open>USB4, reversed, board retimer, cable class, speed\<close>
| Mailbox_Preset u32
| Mailbox_Disconnect

definition mailbox_decode :: "u32 \<Rightarrow> mailbox option" where
  "mailbox_decode w =
     (if take_bit 8 w = 1 \<and> drop_bit 14 w = 0
      then Some (Mailbox_Connect (bit w 8) (bit w 9) (bit w 10)
                   (unat (take_bit 2 (drop_bit 11 w))) (unat (drop_bit 13 w)))
      else if take_bit 8 w = 2 \<and> drop_bit 24 w = 0 then Some (Mailbox_Preset (drop_bit 8 w))
      else if w = 6 then Some Mailbox_Disconnect
      else None)"

section \<open>Lemmas\<close>

lemma u8_le_1: "(x :: u8) \<le> 1 \<longleftrightarrow> x = 0 \<or> x = 1"
  by (auto simp: word_le_nat_alt le_Suc_eq word_unat_eq_iff)

lemma connect_command_cases:
  "fst (qcom_usb4_typec_connect_command (Some p) (Some c)) = 0 \<longleftrightarrow>
   (pc_mode p = 0 \<or> pc_mode p = 1) \<and> (pc_orientation p = 0 \<or> pc_orientation p = 1) \<and>
   (pc_rounded p = 0 \<or> pc_rounded p = 1) \<and> (pc_board_retimer p = 0 \<or> pc_board_retimer p = 1) \<and>
   (pc_cable_type p = 0 \<or> pc_cable_type p = 1) \<and> (pc_cable_speed p = 0 \<or> pc_cable_speed p = 1)"
  by (auto simp: qcom_usb4_typec_connect_command_def pan_consts u8_le_1 simp flip: linorder_not_le)

lemma connect_command_unchanged:
  "fst (qcom_usb4_typec_connect_command p c) \<noteq> 0 \<Longrightarrow> snd (qcom_usb4_typec_connect_command p c) = c"
  by (auto simp: qcom_usb4_typec_connect_command_def split: option.splits if_splits)

lemma connect_command_decode:
  assumes "fst (qcom_usb4_typec_connect_command (Some p) (Some c)) = 0"
  shows "\<exists>w. snd (qcom_usb4_typec_connect_command (Some p) (Some c)) = Some w \<and>
    mailbox_decode w = Some (Mailbox_Connect (pc_mode p = 1) (pc_orientation p = 1)
      (pc_board_retimer p = 1)
      (if pc_cable_type p = 1 then if pc_mode p = 0 \<and> pc_rounded p = 0 then 3 else 1 else 0)
      (unat (pc_cable_speed p)))"
  using assms unfolding connect_command_cases
  by (elim conjE disjE)
    (simp_all add: qcom_usb4_typec_connect_command_def pan_consts connect_word_def
      connect_class_def mailbox_decode_def)

text \<open>How the adapters end: refused, or in the connect encoder with known fields.\<close>

lemma usb4_command_reaches:
  assumes "qcom_usb4_typec_usb4_command L (Some d) ori r (Some c) = (ret, out)"
  obtains "ret \<noteq> 0" and "out = Some c"
  | p where "qcom_usb4_typec_connect_command (Some p) (Some c) = (ret, out)" and "pc_mode p = 1"
      and "pc_board_retimer p = r" and "pc_orientation p = 1 \<longleftrightarrow> ori = TYPEC_ORIENTATION_REVERSE"
      and "ori \<noteq> TYPEC_ORIENTATION_NONE" and "\<not> active_link_training d"
  using assms
  by (cases ori)
    (fastforce simp: qcom_usb4_typec_usb4_command_def pan_orientation_def pan_consts Let_def
      split: if_splits)+

lemma tbt_command_reaches:
  assumes "qcom_usb4_typec_tbt_command L (Some d) ori r (Some c) = (ret, out)"
  obtains "ret \<noteq> 0" and "out = Some c"
  | p where "qcom_usb4_typec_connect_command (Some p) (Some c) = (ret, out)" and "pc_mode p = 0"
      and "pc_board_retimer p = r" and "pc_orientation p = 1 \<longleftrightarrow> ori = TYPEC_ORIENTATION_REVERSE"
      and "ori \<noteq> TYPEC_ORIENTATION_NONE"
      and "\<not> (tbt_cable_active L (tbt_cable_mode d) \<and> \<not> tbt_cable_retimer L (tbt_cable_mode d))"
      and "tbt_cable_speed L (tbt_cable_mode d) = tbt_cable_speed L (tbt_enter_vdo d)"
      and "tbt_rounded_support L (tbt_cable_mode d) = tbt_rounded_support L (tbt_enter_vdo d)"
  using assms
  by (cases ori)
    (fastforce simp: qcom_usb4_typec_tbt_command_def pan_orientation_def pan_consts Let_def
      split: if_splits)+

section \<open>Properties\<close>

text \<open>
  What the encoders put into the mailbox.  Each encoder either refuses with its output
  word unchanged, or emits a word that reads back as the event it stands for: a connect with
  the PAN's mode, orientation, board retimer, cable class and speed, a preset with all sixteen
  bits, a disconnect.
\<close>

lemma mailbox_words_read_back:
  "(case qcom_usb4_typec_connect_command (Some p) (Some c) of (ret, out) \<Rightarrow>
      if ret \<noteq> 0 then out = Some c
      else map_option mailbox_decode out = Some (Some (Mailbox_Connect (pc_mode p = 1)
        (pc_orientation p = 1) (pc_board_retimer p = 1)
        (if pc_cable_type p = 1 then if pc_mode p = 0 \<and> pc_rounded p = 0 then 3 else 1 else 0)
        (unat (pc_cable_speed p))))) \<and>
   (case qcom_usb4_typec_preset_command preset (Some c) of (ret, out) \<Rightarrow>
      if ret \<noteq> 0 then out = Some c \<and> preset > 0xffff
      else map_option mailbox_decode out = Some (Some (Mailbox_Preset preset))) \<and>
   map_option mailbox_decode (snd (qcom_usb4_typec_disconnect_command (Some c))) =
     Some (Some Mailbox_Disconnect)"
proof (intro conjI)
  show "case qcom_usb4_typec_connect_command (Some p) (Some c) of (ret, out) \<Rightarrow>
      if ret \<noteq> 0 then out = Some c
      else map_option mailbox_decode out = Some (Some (Mailbox_Connect (pc_mode p = 1)
        (pc_orientation p = 1) (pc_board_retimer p = 1)
        (if pc_cable_type p = 1 then if pc_mode p = 0 \<and> pc_rounded p = 0 then 3 else 1 else 0)
        (unat (pc_cable_speed p))))"
    using connect_command_decode [of p c] connect_command_unchanged [of "Some p" "Some c"]
    by (cases "qcom_usb4_typec_connect_command (Some p) (Some c)") auto
  show "case qcom_usb4_typec_preset_command preset (Some c) of (ret, out) \<Rightarrow>
      if ret \<noteq> 0 then out = Some c \<and> preset > 0xffff
      else map_option mailbox_decode out = Some (Some (Mailbox_Preset preset))"
  proof (cases "preset > 0xffff")
    case True
    then show ?thesis by (simp add: qcom_usb4_typec_preset_command_def)
  next
    case False
    then have "unat preset < 2 ^ 16" by (simp add: word_le_nat_alt not_less)
    note p16 = bit_unat_le [OF this]
    have "take_bit 8 (2 OR push_bit 8 preset) = 2" "drop_bit 24 (2 OR push_bit 8 preset) = 0"
      "drop_bit 8 (2 OR push_bit 8 preset) = preset"
      by (rule bit_word_eqI; auto simp: bit_simps dest: p16)+
    with False show ?thesis by (simp add: qcom_usb4_typec_preset_command_def mailbox_decode_def)
  qed
  show "map_option mailbox_decode (snd (qcom_usb4_typec_disconnect_command (Some c))) =
     Some (Some Mailbox_Disconnect)"
    by (simp add: qcom_usb4_typec_disconnect_command_def mailbox_decode_def)
qed

text \<open>
  C27.  The two adapters for kernel Type-C payloads never guess: they reach the mailbox only for
  a normal or reversed plug, they refuse a link-training USB4 cable, they refuse a Thunderbolt
  cable that is active without a retimer and one whose two descriptions disagree on speed or
  rounding, and when they refuse they leave the output word alone.
\<close>

theorem typec_adapters_refuse_ambiguity:
  "(case qcom_usb4_typec_usb4_command L (Some d) orientation board_retimer (Some c) of (ret, out) \<Rightarrow>
      if ret \<noteq> 0 then out = Some c
      else orientation \<noteq> TYPEC_ORIENTATION_NONE \<and> \<not> active_link_training d \<and>
        (\<exists>w cls spd. out = Some w \<and> cls \<le> 1 \<and>
          mailbox_decode w = Some (Mailbox_Connect True (orientation = TYPEC_ORIENTATION_REVERSE)
            (board_retimer = 1) cls spd))) \<and>
   (case qcom_usb4_typec_tbt_command L (Some t) orientation board_retimer (Some c) of (ret, out) \<Rightarrow>
      if ret \<noteq> 0 then out = Some c
      else orientation \<noteq> TYPEC_ORIENTATION_NONE \<and>
        \<not> (tbt_cable_active L (tbt_cable_mode t) \<and> \<not> tbt_cable_retimer L (tbt_cable_mode t)) \<and>
        tbt_cable_speed L (tbt_cable_mode t) = tbt_cable_speed L (tbt_enter_vdo t) \<and>
        tbt_rounded_support L (tbt_cable_mode t) = tbt_rounded_support L (tbt_enter_vdo t) \<and>
        (\<exists>w cls spd. out = Some w \<and>
          mailbox_decode w = Some (Mailbox_Connect False (orientation = TYPEC_ORIENTATION_REVERSE)
            (board_retimer = 1) cls spd)))"
  (is "?usb4 \<and> ?tbt")
proof
  obtain ret out where run: "qcom_usb4_typec_usb4_command L (Some d) orientation board_retimer (Some c)
      = (ret, out)" by fastforce
  then show ?usb4
  proof (cases rule: usb4_command_reaches)
    case (2 p)
    with connect_command_decode [of p c] connect_command_unchanged [of "Some p" "Some c"] run
    show ?thesis by (auto simp: split_def)
  qed (simp add: run)
next
  obtain ret out where run: "qcom_usb4_typec_tbt_command L (Some t) orientation board_retimer (Some c)
      = (ret, out)" by fastforce
  then show ?tbt
  proof (cases rule: tbt_command_reaches)
    case (2 p)
    with connect_command_decode [of p c] connect_command_unchanged [of "Some p" "Some c"] run
    show ?thesis by (auto simp: split_def)
  qed (simp add: run)
qed

end
