(* ===== verification/X1_Frontend.thy ===== *)
theory X1_Frontend
  imports X1_Board X1_Mcu X1_Startup X1_Typec
begin

text \<open>
  The platform driver that owns router 0 (\<open>snapshot/module/frontend.c\<close>): it supplies the start-up
  sequence's callbacks, verifies what it uploads, and offers the one-shot connect command.

  The driver's calls into clock, reset, PHY, pin, interconnect and NHI providers are events of the
  same history as the register accesses, and what they return is a function of that history.
  Log messages are not modelled.
\<close>

section \<open>Identity\<close>

text \<open>
  The device's own node: what its phandles resolve to.  \<open>phy_args\<close> is \<^const>\<open>None\<close> when the phandle
  does not parse with the error \<open>phy_error\<close>; otherwise it says whether it names
  \<open>/soc@0/phy@fd5000\<close>, the argument list, and the PHY node's state.
\<close>

record dt_node =
  empty_phyc :: bool
  phy_error :: int
  phy_is_expected :: bool
  phy_args :: "u32 list"
  phy_available :: bool
  phy_compatible :: bool
  phy_rx_eq_prop :: "u32 option"
  tcsr_compatible :: bool
  tcsr_resource :: "(u64 \<times> u64) option"

definition identity :: "bool \<Rightarrow> board \<Rightarrow> u32 \<Rightarrow> dt_node \<Rightarrow> int" where
  "identity run b usb4_phy n =
     (if \<not> run \<or> \<not> x1_diag_board_allowed b \<or> \<not> empty_phyc n then - EPERM
      else if phy_error n \<noteq> 0 then phy_error n
      else if \<not> (phy_is_expected n \<and> phy_args n = [usb4_phy] \<and> phy_available n \<and> phy_compatible n \<and>
                 phy_rx_eq_prop n = Some 0x6f) then - EINVAL
      else if tcsr_compatible n \<and> tcsr_resource n = Some (0x1fc0000, 0x30000) then 0 else - EINVAL)"

section \<open>State and providers\<close>

datatype provider =
    Gcc_claim
  | Gcc_apply x1_diag_gcc_op
  | Phy_apply x1_diag_phy_op
  | Pins nat
  | Tcsr_update u32 u32 u32
  | Tcsr_read u32
  | Phy_set_mode
  | Phy_init
  | Icc_apps
  | Icc_ddr
  | Pm_resume
  | Clk_enable
  | Nhi_run
  | Link_register
  | Link_stop
  | Create_result
  | Create_control_stop

record fe_env =
  regs :: "provider mmio_env"
  call :: "provider mmio_event list \<Rightarrow> provider \<Rightarrow> int"
  tcsr_value :: "provider mmio_event list \<Rightarrow> u32"

text \<open>The driver's \<open>struct probe\<close>, as far as its code changes or reads it, with the history.\<close>

record probe =
  p_log :: "provider mmio_event list"
  p_fw :: "u8 list"
  p_mcu :: qcom_usb4_mcu
  p_cfg :: x1_config
  p_state :: x1_state
  p_shared :: u32
  p_error :: int
  p_stage :: string
  p_reference_read_complete :: bool

text \<open>A register program, run on the driver's history.\<close>

definition on_regs :: "(provider mmio_event, 'a) io \<Rightarrow> (probe, 'a) state" where
  "on_regs m = State (\<lambda>p. case run_state m (p_log p) of (a, h) \<Rightarrow> (a, p\<lparr>p_log := h\<rparr>))"

definition provide :: "fe_env \<Rightarrow> provider \<Rightarrow> (probe, int) state" where
  "provide env c = on_regs (perform (\<lambda>h. call env h c) (\<lambda>_. Call c))"

definition upd :: "(probe \<Rightarrow> probe) \<Rightarrow> (probe, unit) state" where
  "upd f = State (\<lambda>p. ((), f p))"

definition look :: "(probe \<Rightarrow> 'a) \<Rightarrow> (probe, 'a) state" where
  "look f = State (\<lambda>p. (f p, p))"

section \<open>Router registers\<close>

definition read_router :: "fe_env \<Rightarrow> u32 \<Rightarrow> (probe, int \<times> u32) state" where
  "read_router env off =
     (if off AND 3 \<noteq> 0 \<or> off > 0x100000 - 4 then State_Monad.return (- EINVAL, 0)
      else do {
        v \<leftarrow> on_regs (readl (regs env) (unat off));
        State_Monad.return (0, v)
      })"

definition check_router :: "fe_env \<Rightarrow> u32 \<Rightarrow> u32 \<Rightarrow> u32 \<Rightarrow> (probe, int) state" where
  "check_router env off msk expected = do {
     actual \<leftarrow> on_regs (readl (regs env) (unat off));
     State_Monad.return (if actual AND msk = expected then 0 else - EIO)
   }"

definition update_router :: "fe_env \<Rightarrow> u32 \<Rightarrow> u32 \<Rightarrow> u32 \<Rightarrow> (probe, int) state" where
  "update_router env off msk value = do {
     (ret, old_value) \<leftarrow> read_router env off;
     if ret \<noteq> 0 then State_Monad.return ret
     else if value AND NOT msk \<noteq> 0 then State_Monad.return (- EINVAL)
     else do {
       on_regs (writel ((old_value AND NOT msk) OR value) (unat off));
       if off = 0x1200c then State_Monad.return 0
       else do {
         bad \<leftarrow> check_router env off msk value;
         State_Monad.return (if bad \<noteq> 0 then - EIO else 0)
       }
     }
   }"

text \<open>
  The owner check.  The pointer comparisons of the C code say that the sequence was given the
  driver's own configuration and firmware.
\<close>

definition owner :: "fe_env \<Rightarrow> x1_config \<Rightarrow> (probe, int) state" where
  "owner env cfg = do {
     own \<leftarrow> look (\<lambda>p. cfg = p_cfg p \<and> cfg_firmware cfg = Some (p_fw p));
     if \<not> own then State_Monad.return (- EINVAL)
     else do {
       bad \<leftarrow> run_ok [check_router env 0x78640 (NOT 0) 3, check_router env 0x22000 (NOT 0) 0,
                     check_router env 0x18 (NOT 0) 0, check_router env 0x22010 (NOT 0) 0,
                     check_router env 0x2201c (NOT 0) 0];
       State_Monad.return (if bad \<noteq> 0 then - EBUSY else 0)
     }
   }"

section \<open>Upload and descriptor, with read back\<close>

text \<open>
  The verification loop walks the records exactly as \<open>qcom_usb4_fw_upload\<close> does, with a
  comparison in place of the write, so it is the same traversal with another callback.
\<close>

definition upload_verify :: "fe_env \<Rightarrow> u8 list \<Rightarrow> (probe, int option) state" where
  "upload_verify env data =
     State (fw_upload_from (\<lambda>off v. do {
       bad \<leftarrow> check_router env (0x13000 + off) (NOT 0) v;
       State_Monad.return (if bad \<noteq> 0 then - EIO else 0)
     }) data 0)"

definition upload_checked :: "fe_env \<Rightarrow> (probe, int option) state" where
  "upload_checked env = do {
     mcu \<leftarrow> look p_mcu;
     data \<leftarrow> look p_fw;
     ret \<leftarrow> on_regs (qcom_usb4_mcu_upload (regs env) (Some mcu) (Some data));
     if ret \<noteq> Some 0 then State_Monad.return ret
     else do {
       ret \<leftarrow> upload_verify env data;
       if ret \<noteq> Some 0 then State_Monad.return ret
       else do {
         bad \<leftarrow> check_router env 0x22000 (NOT 0) 0;
         State_Monad.return (Some (if bad \<noteq> 0 then - EBUSY else 0))
       }
     }
   }"

text \<open>The descriptor's words at their router offsets.\<close>

definition drom_words_at :: "u32 list \<Rightarrow> (u32 \<times> u32) list" where
  "drom_words_at ws = zip (map (\<lambda>i. 0x20f20 + of_nat (4 * i)) [0..<QCOM_USB4_DROM_SIZE div 4]) ws"

definition store_drom :: "fe_env \<Rightarrow> (u32 \<Rightarrow> u8 list \<Rightarrow> u32) \<Rightarrow> u8 list \<Rightarrow> (probe, int option) state" where
  "store_drom env crc drom0 = do {
     serial \<leftarrow> look (\<lambda>p. cfg_serial (p_cfg p));
     mcu \<leftarrow> look p_mcu;
     case qcom_usb4_x1_drom_build crc (Some drom0) serial 0 of
       Some (ret, Some drom) \<Rightarrow>
         if ret \<noteq> 0 then State_Monad.return (Some ret)
         else if drom_offset mcu \<noteq> 0xdf20 \<or> of_nat QCOM_USB4_DROM_SIZE > of_nat (ram_size mcu) - (0xdf20 :: u64)
         then State_Monad.return (Some (- EINVAL))
         else do {
           ctl \<leftarrow> on_regs (readl (regs env) 0x22000);
           if ctl \<noteq> 0 then State_Monad.return (Some (- EINVAL))
           else (case drom_words drom of
              Some (hi # lo # ws) \<Rightarrow> do {
                on_regs (writel hi 0x801c);
                on_regs (writel lo 0x8020);
                bad \<leftarrow> run_ok [check_router env 0x801c (NOT 0) hi, check_router env 0x8020 (NOT 0) lo];
                if bad \<noteq> 0 then State_Monad.return (Some (- EIO))
                else do {
                  on_regs (writel_list (map (\<lambda>(off, v). (unat off, v)) (drom_words_at ws)));
                  bad \<leftarrow> run_ok (map (\<lambda>(off, v). check_router env off (NOT 0) v) (drom_words_at ws));
                  State_Monad.return (Some (if bad \<noteq> 0 then - EIO else 0))
                }
              }
            | _ \<Rightarrow> State_Monad.return None)
         }
     | Some (ret, None) \<Rightarrow> State_Monad.return (Some ret)
     | None \<Rightarrow> State_Monad.return None
   }"

definition mcu_snapshot :: "fe_env \<Rightarrow> (probe, unit) state" where
  "mcu_snapshot env = do {
     mcu \<leftarrow> look p_mcu;
     on_regs (readl (regs env) (unat (control_offset mcu)));
     on_regs (readl (regs env) 0x18);
     on_regs (readl (regs env) (unat (shared_offset_reg mcu)));
     on_regs (readl (regs env) (unat (control_offset mcu) + 0xc));
     State_Monad.return ()
   }"

section \<open>Steps\<close>

definition select_rx_source :: "fe_env \<Rightarrow> bool \<Rightarrow> (probe, int) state" where
  "select_rx_source env reference_only =
     (if \<not> reference_only then provide env (Gcc_apply X1_GCC_RX_PHY)
      else do {
        (ret, value) \<leftarrow> read_router env 0x1200c;
        if ret \<noteq> 0 then State_Monad.return ret
        else do {
          upd (\<lambda>p. p\<lparr>p_reference_read_complete := True\<rparr>);
          State_Monad.return (- ECANCELED)
        }
      })"

definition enable_clocks :: "fe_env \<Rightarrow> (probe, int) state" where
  "enable_clocks env = provide env Clk_enable"

text \<open>
  A result that is \<^const>\<open>None\<close>, a buffer access out of range, has no \<open>int\<close>; that it never occurs is
  a property of the upload and of the descriptor.
\<close>

definition defined_int :: "('s, int option) state \<Rightarrow> ('s, int) state" where
  "defined_int m = do { r \<leftarrow> m; State_Monad.return (case r of Some v \<Rightarrow> v | None \<Rightarrow> 0) }"

definition tcsr_route :: "fe_env \<Rightarrow> (probe, int) state" where
  "tcsr_route env = do {
     ret \<leftarrow> provide env (Tcsr_update 0x1b000 1 1);
     if ret \<noteq> 0 then State_Monad.return ret
     else do {
       route \<leftarrow> look (\<lambda>p. tcsr_value env (p_log p));
       ret \<leftarrow> provide env (Tcsr_read 0x1b000);
       State_Monad.return (if ret \<noteq> 0 then ret else if route AND 1 \<noteq> 0 then 0 else - EIO)
     }
   }"

definition phy_composite :: "fe_env \<Rightarrow> (probe, int) state" where
  "phy_composite env = run_ok [provide env Phy_set_mode, provide env Phy_init]"

definition mcu_start_step :: "fe_env \<Rightarrow> (probe, int) state" where
  "mcu_start_step env = do {
     mcu \<leftarrow> look p_mcu;
     (ret, shared) \<leftarrow> on_regs (qcom_usb4_mcu_start (regs env) (Some mcu) (Some 0));
     upd (\<lambda>p. p\<lparr>p_shared := (case shared of Some v \<Rightarrow> v | None \<Rightarrow> p_shared p)\<rparr>);
     mcu_snapshot env;
     State_Monad.return ret
   }"

definition mcu_preset_step :: "fe_env \<Rightarrow> x1_config \<Rightarrow> (probe, int) state" where
  "mcu_preset_step env cfg = do {
     mcu \<leftarrow> look p_mcu;
     ret \<leftarrow> (case qcom_usb4_typec_preset_command (cfg_mcu_preset cfg) (Some 0) of
        (ret, command) \<Rightarrow>
          if ret \<noteq> 0 then State_Monad.return ret
          else on_regs (qcom_usb4_mcu_command (regs env) (Some mcu)
                 (case command of Some c \<Rightarrow> c | None \<Rightarrow> 0) 10000));
     mcu_snapshot env;
     State_Monad.return ret
   }"

definition step_action ::
    "fe_env \<Rightarrow> bool \<Rightarrow> (u32 \<Rightarrow> u8 list \<Rightarrow> u32) \<Rightarrow> u8 list \<Rightarrow> x1_step \<Rightarrow> x1_config \<Rightarrow> (probe, int) state" where
  "step_action env reference_only crc drom0 op cfg =
     (case op of
        X1_PHY_PREPARE \<Rightarrow> provide env (Phy_apply X1_DIAG_PHY_PREPARE)
      | X1_RX_PREPARE \<Rightarrow> provide env (Pins 0)
      | X1_TXB_PREPARE \<Rightarrow> provide env (Pins 1)
      | X1_TXA_PREPARE \<Rightarrow> provide env (Pins 2)
      | X1_RX_ACTIVE \<Rightarrow> provide env (Pins 3)
      | X1_TXB_ACTIVE \<Rightarrow> provide env (Pins 4)
      | X1_TXA_ACTIVE \<Rightarrow> provide env (Pins 5)
      | X1_RX_CLOCK_REFERENCE \<Rightarrow> provide env (Gcc_apply X1_GCC_RX_REFERENCE)
      | X1_RX_CLOCK_PHY \<Rightarrow> select_rx_source env reference_only
      | X1_MISC_RESET_ASSERT \<Rightarrow> provide env (Gcc_apply X1_GCC_MISC_ASSERT)
      | X1_MISC_RESET_CLEAR \<Rightarrow> provide env (Gcc_apply X1_GCC_MISC_CLEAR)
      | X1_EXTRA_RESET_ASSERT \<Rightarrow> provide env (Gcc_apply X1_GCC_EXTRA_ASSERT)
      | X1_EXTRA_RESET_CLEAR \<Rightarrow> provide env (Gcc_apply X1_GCC_EXTRA_CLEAR)
      | X1_PIPE_RESET_ASSERT \<Rightarrow> provide env (Gcc_apply X1_GCC_PIPE_ASSERT)
      | X1_PIPE_RESET_CLEAR \<Rightarrow> provide env (Gcc_apply X1_GCC_PIPE_CLEAR)
      | X1_SYS_READY \<Rightarrow> provide env (Gcc_apply X1_GCC_SYS_READY)
      | X1_SYS_MEMORY_FORCE \<Rightarrow> provide env (Gcc_apply X1_GCC_MEMORY_FORCE)
      | X1_PIPE_HWCG_OFF \<Rightarrow> provide env (Gcc_apply X1_GCC_HWCG_OFF)
      | X1_DP_RESET_ASSERT \<Rightarrow> provide env (Phy_apply X1_DIAG_PHY_DP_ASSERT)
      | X1_DP_RESET_CLEAR \<Rightarrow> provide env (Phy_apply X1_DIAG_PHY_DP_CLEAR)
      | X1_TCSR_ROUTE \<Rightarrow> tcsr_route env
      | X1_UPLOAD \<Rightarrow> defined_int (upload_checked env)
      | X1_DROM \<Rightarrow> defined_int (store_drom env crc drom0)
      | X1_PHY_COMPOSITE \<Rightarrow> phy_composite env
      | X1_MCU_START \<Rightarrow> mcu_start_step env
      | X1_PRESET \<Rightarrow> mcu_preset_step env cfg
      | _ \<Rightarrow> State_Monad.return (- EINVAL))"

definition fe_step ::
    "fe_env \<Rightarrow> bool \<Rightarrow> (u32 \<Rightarrow> u8 list \<Rightarrow> u32) \<Rightarrow> u8 list \<Rightarrow> x1_step \<Rightarrow> x1_config \<Rightarrow> (probe, int) state" where
  "fe_step env reference_only crc drom0 op cfg = do {
     upd (\<lambda>p. p\<lparr>p_stage := x1_step_name op\<rparr>);
     step_action env reference_only crc drom0 op cfg
   }"

definition fe_ops :: "fe_env \<Rightarrow> bool \<Rightarrow> (u32 \<Rightarrow> u8 list \<Rightarrow> u32) \<Rightarrow> u8 list \<Rightarrow> probe x1_ops" where
  "fe_ops env reference_only crc drom0 =
     \<lparr>op_owner = owner env, op_do = fe_step env reference_only crc drom0, op_read = read_router env,
      op_update = update_router env, op_delay = (\<lambda>us. State_Monad.return ())\<rparr>"

definition link_connect :: "fe_env \<Rightarrow> board \<Rightarrow> bool \<Rightarrow> u32 \<Rightarrow> (probe, int) state" where
  "link_connect env b nhi_complete word = do {
     err \<leftarrow> look p_error;
     mcu \<leftarrow> look p_mcu;
     if err \<noteq> 0 \<or> \<not> nhi_complete \<or> \<not> x1_diag_board_allowed b \<or> \<not> root_property b ''birk,usb4-link-test'' \<or>
        (word \<noteq> 0x2501 \<and> word \<noteq> 0x2701)
     then State_Monad.return (- EPERM)
     else do {
       ret \<leftarrow> on_regs (qcom_usb4_mcu_command (regs env) (Some mcu) word 10000);
       mcu_snapshot env;
       State_Monad.return ret
     }
   }"

section \<open>Probe\<close>

text \<open>
  What the platform hands out, in the order the driver asks for it: a positive or negative error
  in place of a pointer is the left of a sum, a NULL interconnect path is \<^const>\<open>False\<close>.
  \<open>sha256\<close> is the kernel's.
\<close>

record platform =
  pf_resource :: "(u64 \<times> u64) option"
  pf_alloc :: bool
  pf_base :: "int + u64"
  pf_phy :: "int option"
  pf_tcsr :: "int option"
  pf_apps :: "int + bool"
  pf_pm_domain :: bool
  pf_ddr :: "int + bool"
  pf_clocks :: int
  pf_pinctrl :: "int option"
  pf_pins :: "int option list"
  pf_socinfo :: "int + (nat \<times> u32)"
  pf_firmware :: "int + u8 list"

definition firmware_sha256 :: "u8 list" where
  "firmware_sha256 = [
     0xcd,0x4f,0x59,0x29,0xb5,0x1f,0x2d,0xbb,0x0b,0x58,0x36,0x93,0xff,0x8d,0x02,0x45,
     0x21,0xc8,0x7f,0x0d,0x2e,0x45,0xc7,0xad,0xc1,0x42,0xfe,0xd9,0x76,0x65,0x0b,0x99]"

text \<open>
  Everything before the hardware is claimed: the result is an error or the driver's structure.
  \<open>serial_end\<close> is the offset behind \<open>serial_num\<close> in the SoC's build record.
\<close>

definition probe_acquire ::
    "(u8 list \<Rightarrow> u8 list) \<Rightarrow> nat \<Rightarrow> platform \<Rightarrow> int + probe" where
  "probe_acquire sha256 serial_end f =
     (if pf_resource f \<noteq> Some (0x15600000, 0x100000) then Inl (- EINVAL)
      else if \<not> pf_alloc f then Inl (- ENOMEM)
      else case (pf_base f, pf_phy f, pf_tcsr f, pf_apps f) of
        (Inl e, _, _, _) \<Rightarrow> Inl e
      | (_, Some e, _, _) \<Rightarrow> Inl e
      | (_, _, Some e, _) \<Rightarrow> Inl e
      | (_, _, _, Inl e) \<Rightarrow> Inl e
      | (Inr base, _, _, Inr apps) \<Rightarrow>
          if \<not> apps \<or> \<not> pf_pm_domain f then Inl (- ENODEV)
          else (case pf_ddr f of
             Inl e \<Rightarrow> Inl e
           | Inr ddr \<Rightarrow>
               if \<not> ddr then Inl (- ENODEV)
               else if pf_clocks f \<noteq> 0 then Inl (pf_clocks f)
               else (case (pf_pinctrl f, first_error (pf_pins f), pf_socinfo f) of
                  (Some e, _, _) \<Rightarrow> Inl e
                | (_, Some e, _) \<Rightarrow> Inl e
                | (_, _, Inl e) \<Rightarrow> Inl e
                | (_, _, Inr (len, serial)) \<Rightarrow>
                    if serial_end > len \<or> serial = 0 then Inl (- ENODEV)
                    else (case pf_firmware f of
                       Inl e \<Rightarrow> Inl e
                     | Inr fw \<Rightarrow>
                         if length fw \<noteq> 40816 \<or> sha256 fw \<noteq> firmware_sha256 then Inl (- EKEYREJECTED)
                         else (case qcom_usb4_fw_validate (Some fw) 0xf000 of
                            None \<Rightarrow> Inl 0
                          | Some ret \<Rightarrow>
                              if ret \<noteq> 0 then Inl ret
                              else (case qcom_usb4_mcu_init (Some mcu_zero) base 0x100000 0xf000
                                           (Some QCOM_USB4_MCU_LEGACY) of
                                 (ret, mcu) \<Rightarrow>
                                   if ret \<noteq> 0 then Inl ret
                                   else Inr \<lparr>p_log = [], p_fw = fw,
                                     p_mcu = (case mcu of Some m \<Rightarrow> m | None \<Rightarrow> mcu_zero),
                                     p_cfg = \<lparr>cfg_firmware = Some fw, cfg_serial = serial, cfg_router = 0,
                                       cfg_phy_rx_eq = 0x6f, cfg_mcu_preset = 0x0c63, cfg_reset_release_us = 100\<rparr>,
                                     p_state = \<lparr>st_phase = X1_NEW, st_active = X1_NONE, st_completed = X1_NONE,
                                       st_error = 0\<rparr>,
                                     p_shared = 0, p_error = 0, p_stage = [],
                                     p_reference_read_complete = False\<rparr>))))))"

definition stage :: "string \<Rightarrow> (probe, unit) state" where
  "stage name = upd (\<lambda>p. p\<lparr>p_stage := name\<rparr>)"

definition probe_startup ::
    "fe_env \<Rightarrow> bool \<Rightarrow> (u32 \<Rightarrow> u8 list \<Rightarrow> u32) \<Rightarrow> u8 list \<Rightarrow> (probe, int) state" where
  "probe_startup env reference_only crc drom0 = do {
     st \<leftarrow> look p_state;
     cfg \<leftarrow> look p_cfg;
     (ret, st) \<leftarrow> x1_startup_run crc drom0 (Some st) (Some cfg) (Some (fe_ops env reference_only crc drom0));
     upd (\<lambda>p. p\<lparr>p_state := (case st of Some s \<Rightarrow> s | None \<Rightarrow> p_state p)\<rparr>);
     State_Monad.return (case ret of Some r \<Rightarrow> r | None \<Rightarrow> 0)
   }"

text \<open>The part behind \<open>__module_get\<close> up to the label \<open>finish\<close>; the result is \<open>ret\<close> there.\<close>

definition probe_hardware ::
    "fe_env \<Rightarrow> bool \<Rightarrow> (u32 \<Rightarrow> u8 list \<Rightarrow> u32) \<Rightarrow> u8 list \<Rightarrow> (probe, int) state" where
  "probe_hardware env reference_only crc drom0 = do {
     stage ''interconnect'';
     ret \<leftarrow> provide env Icc_apps;
     if ret \<noteq> 0 then State_Monad.return ret
     else do {
       stage ''router-power'';
       ret \<leftarrow> provide env Pm_resume;
       if ret < 0 then State_Monad.return ret
       else do {
         stage ''router-clocks'';
         ret \<leftarrow> enable_clocks env;
         if ret \<noteq> 0 then State_Monad.return ret
         else do {
           stage ''sequence'';
           ret \<leftarrow> probe_startup env reference_only crc drom0;
           if ret \<noteq> 0 then State_Monad.return ret
           else do {
             stage ''ddr-interconnect'';
             ret \<leftarrow> provide env Icc_ddr;
             if ret \<noteq> 0 then State_Monad.return ret
             else do {
               stage ''NHI_CONTROL'';
               ret \<leftarrow> provide env Nhi_run;
               ret \<leftarrow> (if ret = 0 then provide env Link_register else State_Monad.return ret);
               if ret \<noteq> 0 then do {
                 provide env Link_stop;
                 State_Monad.return ret
               }
               else State_Monad.return 0
             }
           }
         }
       }
     }
   }"

definition probe_finish :: "fe_env \<Rightarrow> int \<Rightarrow> (probe, int) state" where
  "probe_finish env ret = do {
     upd (\<lambda>p. p\<lparr>p_error := (if ret < 0 then ret else if ret \<noteq> 0 then - EPROTO else 0)\<rparr>);
     provide env Create_result;
     ret \<leftarrow> provide env Create_control_stop;
     if ret \<noteq> 0 then do {
       provide env Link_stop;
       State_Monad.return 0
     }
     else State_Monad.return 0
   }"

text \<open>
  The whole probe.  The module's flag \<open>attempted\<close> and the driver's structure, once there is one,
  are its state; \<open>ident\<close> is the result of \<open>identity\<close>.
\<close>

record module_state =
  attempted :: bool
  drvdata :: "probe option"

definition probe_claimed ::
    "fe_env \<Rightarrow> bool \<Rightarrow> (u32 \<Rightarrow> u8 list \<Rightarrow> u32) \<Rightarrow> u8 list \<Rightarrow> (probe, int) state" where
  "probe_claimed env reference_only crc drom0 = do {
     ret \<leftarrow> provide env Gcc_claim;
     if ret \<noteq> 0 then State_Monad.return ret
     else do {
       ret \<leftarrow> probe_hardware env reference_only crc drom0;
       probe_finish env ret
     }
   }"

definition fe_probe ::
    "fe_env \<Rightarrow> bool \<Rightarrow> (u32 \<Rightarrow> u8 list \<Rightarrow> u32) \<Rightarrow> u8 list \<Rightarrow> (u8 list \<Rightarrow> u8 list) \<Rightarrow> nat \<Rightarrow> platform \<Rightarrow> int \<Rightarrow>
     module_state \<Rightarrow> int \<times> module_state" where
  "fe_probe env reference_only crc drom0 sha256 serial_end f ident m =
     (if ident \<noteq> 0 then (ident, m)
      else if attempted m then (- EALREADY, m)
      else (case probe_acquire sha256 serial_end f of
         Inl e \<Rightarrow> (e, m\<lparr>attempted := True\<rparr>)
       | Inr p \<Rightarrow> (case run_state (probe_claimed env reference_only crc drom0) p of
           (ret, p') \<Rightarrow> (ret, m\<lparr>attempted := True, drvdata := Some p'\<rparr>))))"

section \<open>Lemmas\<close>

lemma run_on_regs [simp]:
  "run_state (on_regs m) p = (case run_state m (p_log p) of (a, h) \<Rightarrow> (a, p\<lparr>p_log := h\<rparr>))"
  by (simp add: on_regs_def)

lemma run_look [simp]: "run_state (look f) p = (f p, p)"
  by (simp add: look_def)

lemma run_upd [simp]: "run_state (upd f) p = ((), f p)"
  by (simp add: upd_def)

lemma run_provide [simp]:
  "run_state (provide env c) p = (call env (p_log p) c, p\<lparr>p_log := Call c # p_log p\<rparr>)"
  by (simp add: provide_def)

lemma run_check [simp]:
  "run_state (check_router env off msk v) p =
     (let a = rd (regs env) (p_log p) (unat off) in
      (if a AND msk = v then 0 else - EIO, p\<lparr>p_log := Readl (unat off) a # p_log p\<rparr>))"
  by (simp add: check_router_def Let_def)

text \<open>A run of comparisons that succeeds has read back exactly the expected values.\<close>

lemma checks_run:
  assumes "run_state (run_ok (map (\<lambda>(off, v). do {
       bad \<leftarrow> check_router env (base + off) (NOT 0) v;
       State_Monad.return (if bad \<noteq> 0 then e else 0) }) ws)) p = (ret, p')" and "e \<noteq> 0"
  shows "\<exists>ds. p' = p\<lparr>p_log := ds @ p_log p\<rparr> \<and> writes_of ds = [] \<and> (ret = 0 \<or> ret = e) \<and>
    (ret = 0 \<longrightarrow> ds = rev (map (\<lambda>(off, v). Readl (unat (base + off)) v) ws))"
  using assms(1)
proof (induction ws arbitrary: p)
  case (Cons w ws)
  obtain off v where w: "w = (off, v)" by (cases w)
  let ?a = "rd (regs env) (p_log p) (unat (base + off))"
  let ?p = "p\<lparr>p_log := Readl (unat (base + off)) ?a # p_log p\<rparr>"
  show ?case
  proof (cases "?a = v")
    case True
    with Cons.prems w assms(2) have "run_state (run_ok (map (\<lambda>(off, v). do {
       bad \<leftarrow> check_router env (base + off) (NOT 0) v;
       State_Monad.return (if bad \<noteq> 0 then e else 0) }) ws)) ?p = (ret, p')" by (simp add: Let_def)
    from Cons.IH [OF this] obtain ds where ds: "p' = ?p\<lparr>p_log := ds @ p_log ?p\<rparr>" "writes_of ds = []"
      "ret = 0 \<or> ret = e" "ret = 0 \<longrightarrow> ds = rev (map (\<lambda>(off, v). Readl (unat (base + off)) v) ws)" by blast
    with True w show ?thesis
      by (intro exI [of _ "ds @ [Readl (unat (base + off)) v]"]) (auto simp: writes_of_append)
  next
    case False
    with Cons.prems w assms(2) show ?thesis
      by (auto simp: Let_def intro!: exI [of _ "[Readl (unat (base + off)) ?a]"])
  qed
qed simp

definition legacy_mcu :: "qcom_usb4_mcu \<Rightarrow> bool" where
  "legacy_mcu m \<longleftrightarrow> mcu_base m \<noteq> 0 \<and> ram_size m = 0xf000 \<and> ram_offset m = 0x13000 \<and>
     control_offset m = 0x22000 \<and> shared_offset_reg m = 0x22010 \<and> drom_offset m = 0xdf20"

lemma legacy_init:
  assumes "qcom_usb4_mcu_init (Some z) base 0x100000 0xf000 (Some QCOM_USB4_MCU_LEGACY) = (0, Some m)"
  shows "legacy_mcu m"
  using assms by (auto simp: qcom_usb4_mcu_init_def layout_regs_def legacy_mcu_def split: if_splits)

section \<open>Which registers a step may write\<close>

text \<open>
  The driver's state after a program, given that its MCU is \<open>M\<close>: the history is extended, and
  every register write added satisfies \<open>P\<close>.
\<close>

definition fe_ext :: "(nat \<Rightarrow> u32 \<Rightarrow> bool) \<Rightarrow> qcom_usb4_mcu \<Rightarrow> probe \<Rightarrow> probe \<Rightarrow> bool" where
  "fe_ext P M p p' \<longleftrightarrow> (p_mcu p = M \<longrightarrow> p_mcu p' = M \<and> ext_writes P (p_log p) (p_log p'))"

interpretation fe: history_order "fe_ext P M" for P M
  by unfold_locales (auto simp: fe_ext_def intro: mmio.refl mmio.trans)

lemma keeps_on_regs: "keeps (ext_writes P) m \<Longrightarrow> keeps (fe_ext P M) (on_regs m)"
  by (auto simp: keeps_def fe_ext_def split: prod.splits) (metis snd_conv)

lemma keeps_provide: "keeps (fe_ext P M) (provide env c)"
  by (auto simp: keeps_def fe_ext_def ext_writes_def intro: exI [of _ "[Call c]"])

lemma keeps_look: "keeps (fe_ext P M) (look f)"
  by (simp add: keeps_def fe.refl)

lemma keeps_look_mcu: "keeps (fe_ext P M) (k M) \<Longrightarrow> keeps (fe_ext P M) (look p_mcu \<bind> k)"
  by (auto simp: keeps_def fe_ext_def)

lemma keeps_upd:
  assumes "\<And>p. p_mcu (f p) = p_mcu p" and "\<And>p. p_log (f p) = p_log p"
  shows "keeps (fe_ext P M) (upd f)"
  using assms by (simp add: keeps_def fe_ext_def mmio.refl)

lemma keeps_check: "keeps (fe_ext P M) (check_router env off msk v)"
  unfolding check_router_def by (intro fe.keeps_rules keeps_on_regs keeps_mmio)

lemma keeps_read: "keeps (fe_ext P M) (read_router env off)"
  unfolding read_router_def by (intro fe.keeps_rules keeps_on_regs keeps_mmio)

lemma keeps_update:
  "(\<And>v. P (unat off) v) \<Longrightarrow> keeps (fe_ext P M) (update_router env off msk value)"
  unfolding update_router_def
  by (intro fe.keeps_rules keeps_read keeps_check keeps_on_regs keeps_mmio) auto

lemma keeps_owner: "keeps (fe_ext P M) (owner env cfg)"
  unfolding owner_def by (auto intro!: fe.keeps_rules keeps_look keeps_check fe.keeps_run_ok simp del: run_ok.simps)

lemma keeps_snapshot: "keeps (fe_ext P M) (mcu_snapshot env)"
  unfolding mcu_snapshot_def by (intro keeps_look_mcu fe.keeps_rules keeps_on_regs keeps_mmio)

lemmas fe_keeps = fe.keeps_rules keeps_look keeps_provide keeps_check keeps_read keeps_owner keeps_snapshot
  keeps_on_regs keeps_mmio

lemma keeps_verify: "keeps (fe_ext P M) (upload_verify env data)"
proof -
  have cb: "keeps (fe_ext P M) (do {
      bad \<leftarrow> check_router env (0x13000 + off) (NOT 0) v;
      State_Monad.return (if bad \<noteq> 0 then - EIO else 0) })" for off v
    by (intro fe_keeps)
  from fw_upload_from_keeps [OF fe.history_order_axioms cb] show ?thesis
    by (simp add: upload_verify_def keeps_def)
qed

lemma keeps_upload_checked:
  assumes "P (unat (control_offset M)) 0"
    and "\<And>off v. unat (off :: u32) + 4 \<le> ram_size M \<Longrightarrow> P (unat (ram_offset M) + unat off) v"
  shows "keeps (fe_ext P M) (upload_checked env)"
  unfolding upload_checked_def
  by (intro keeps_look_mcu fe_keeps keeps_verify keeps_mcu_upload assms)

lemma drom_offsets:
  assumes "(off, v) \<in> set (map (\<lambda>(off, v). (unat off, v)) (drom_words_at ws))"
  shows "0x20f20 \<le> off \<and> off < 0x20f20 + 116"
proof -
  from assms obtain i where i: "i < 29" "off = unat (0x20f20 + of_nat (4 * i) :: u32)"
    by (auto simp: drom_words_at_def QCOM_USB4_DROM_SIZE_def dest!: set_zip_leftD)
  have "unat (of_nat (4 * i) :: u32) = 4 * i"
    using i(1) unfolding unat_of_nat by (simp add: take_bit_nat_eq_self_iff)
  with i show ?thesis by (simp add: unat_word_ariths)
qed

lemma keeps_store_drom:
  assumes "\<And>v. P 0x801c v" "\<And>v. P 0x8020 v" "\<And>off v. 0x20f20 \<le> off \<Longrightarrow> off < 0x20f20 + 116 \<Longrightarrow> P off v"
  shows "keeps (fe_ext P M) (store_drom env crc drom0)"
  unfolding store_drom_def
  by (auto intro!: fe_keeps keeps_look_mcu fe.keeps_run_ok keeps_writel_list assms dest!: drom_offsets
      simp del: run_ok.simps split: option.splits list.splits prod.splits)

text \<open>
  The steps other than the MCU's start never set RUN in the control register of a legacy MCU.
\<close>

definition run_clear :: "nat \<Rightarrow> u32 \<Rightarrow> bool" where
  "run_clear off v \<longleftrightarrow> off \<noteq> 0x22000 \<or> v AND QCOM_USB4_MCU_RUN = 0"

lemma keeps_preset:
  "legacy_mcu M \<Longrightarrow> keeps (fe_ext run_clear M) (mcu_preset_step env cfg)"
  unfolding mcu_preset_step_def
  by (auto intro!: keeps_look_mcu fe_keeps keeps_mcu_command simp: run_clear_def legacy_mcu_def
      split: prod.splits option.splits)

lemma keeps_step:
  assumes M: "legacy_mcu M" and "op \<noteq> X1_MCU_START"
  shows "keeps (fe_ext run_clear M) (fe_step env reference_only crc drom0 op cfg)"
proof -
  have up: "keeps (fe_ext run_clear M) (upload_checked env)"
    using M by (intro keeps_upload_checked) (auto simp: run_clear_def legacy_mcu_def)
  have dr: "keeps (fe_ext run_clear M) (store_drom env crc drom0)"
    by (intro keeps_store_drom) (auto simp: run_clear_def)
  have rx: "keeps (fe_ext run_clear M) (select_rx_source env reference_only)"
    unfolding select_rx_source_def by (auto intro!: fe_keeps keeps_upd)
  have di: "keeps (fe_ext run_clear M) m \<Longrightarrow> keeps (fe_ext run_clear M) (defined_int m)" for m
    unfolding defined_int_def by (intro fe_keeps)
  have "keeps (fe_ext run_clear M) (step_action env reference_only crc drom0 op cfg)"
    using assms(2) unfolding step_action_def tcsr_route_def phy_composite_def
    by (cases op)
      (auto intro!: fe_keeps fe.keeps_run_ok di up dr rx keeps_preset [OF M] simp del: run_ok.simps)
  then show ?thesis unfolding fe_step_def by (intro fe_keeps keeps_upd) simp_all
qed

text \<open>The same beside a trace: as long as the start is not in the trace, RUN is not set.\<close>

definition fe_traced :: "qcom_usb4_mcu \<Rightarrow> probe \<times> st_event list \<Rightarrow> probe \<times> st_event list \<Rightarrow> bool" where
  "fe_traced M s s' \<longleftrightarrow> (\<exists>ds. snd s' = ds @ snd s \<and>
     (X1_MCU_START \<notin> set (steps_of ds) \<longrightarrow> fe_ext run_clear M (fst s) (fst s')))"

interpretation fe_tr: history_order "fe_traced M" for M
proof unfold_locales
  fix s t u
  show "fe_traced M s s" by (simp add: fe_traced_def fe.refl)
  assume "fe_traced M s t" "fe_traced M t u"
  then obtain ds es where "snd t = ds @ snd s" "snd u = es @ snd t"
    "X1_MCU_START \<notin> set (steps_of ds) \<longrightarrow> fe_ext run_clear M (fst s) (fst t)"
    "X1_MCU_START \<notin> set (steps_of es) \<longrightarrow> fe_ext run_clear M (fst t) (fst u)"
    unfolding fe_traced_def by blast
  then show "fe_traced M s u"
    unfolding fe_traced_def by (intro exI [of _ "es @ ds"]) (auto simp: steps_of_append intro: fe.trans)
qed

lemma keeps_traced:
  assumes "(\<And>a. X1_MCU_START \<notin> set (steps_of [e a])) \<Longrightarrow> keeps (fe_ext run_clear M) m"
    and "\<And>a b. steps_of [e a] = steps_of [e b]"
  shows "keeps (fe_traced M) (traced e m)"
  unfolding keeps_def
proof
  fix s :: "probe \<times> st_event list"
  obtain p h where s: "s = (p, h)" by (cases s)
  obtain a p' where m: "run_state m p = (a, p')" by (cases "run_state m p")
  have "fe_ext run_clear M p p'" if "X1_MCU_START \<notin> set (steps_of [e a])"
    using assms that m by (metis keepsD)
  then show "fe_traced M s (snd (run_state (traced e m) s))"
    unfolding fe_traced_def s run_traced m by (intro exI [of _ "[e a]"]) simp
qed

lemma keeps_fe_ops:
  assumes M: "legacy_mcu M" and ops_def: "ops = traced_ops (fe_ops env reference_only crc drom0)"
  shows "keeps (fe_traced M) (op_owner ops cfg)" "keeps (fe_traced M) (op_do ops step cfg)"
    "keeps (fe_traced M) (op_read ops off)" "keeps (fe_traced M) (op_delay ops us)"
    "unat off \<noteq> 0x22000 \<Longrightarrow> keeps (fe_traced M) (op_update ops off msk v)"
  using keeps_step [OF M, of step env reference_only crc drom0 cfg]
  by (auto simp: ops_def fe_ops_def run_clear_def intro!: keeps_traced fe_keeps keeps_update)

lemma steps_of_rev: "set (steps_of (rev es)) = set (steps_of es)"
  by (induction es rule: steps_of.induct) (simp_all add: steps_of_append)

lemma table_offsets: "off \<in> insert 0x1200c (o_offset ` set operations) \<Longrightarrow> unat off \<noteq> 0x22000"
  by (auto simp: operations_def opP_def opU_def opD_def)

lemma startup_traced:
  assumes "legacy_mcu (p_mcu p)"
    and "run_state (x1_startup_run crc drom0 (Some st) cfg
      (map_option traced_ops (Some (fe_ops env reference_only crc drom0)))) (p, []) = ((ret, st'), (p', es))"
    and "X1_MCU_START \<notin> set (steps_of es)"
  shows "ext_writes run_clear (p_log p) (p_log p')"
proof -
  have "keeps (fe_traced (p_mcu p)) (x1_startup_run crc drom0 (Some st) cfg
      (Some (traced_ops (fe_ops env reference_only crc drom0))))"
    by (intro keeps_startup [OF fe_tr.history_order_axioms] keeps_fe_ops [OF assms(1) refl] table_offsets)
  then have "fe_traced (p_mcu p) (p, []) (snd (run_state (x1_startup_run crc drom0 (Some st) cfg
      (Some (traced_ops (fe_ops env reference_only crc drom0)))) (p, [])))" by (simp only: keeps_def)
  with assms(2) have "fe_traced (p_mcu p) (p, []) (p', es)" by simp
  with assms(3) show ?thesis by (simp add: fe_traced_def fe_ext_def)
qed

section \<open>Properties\<close>

text \<open>
  C12. The checked upload always returns a defined result.  When it succeeds, the image is a
  sequence of records, the MCU's RAM was written with exactly its words after the control register
  was cleared, and afterwards every single word was read back with its value and the control
  register read as zero; nothing was written in between.
\<close>

theorem upload_checked_verified:
  assumes M: "legacy_mcu (p_mcu p)" and run: "run_state (upload_checked env) p = (ret, p')"
  shows "ret \<noteq> None \<and> (ret = Some 0 \<longrightarrow> (\<exists>rs h. p_fw p = fw_encode rs \<and>
     writes_of h = writes_of (p_log p) @ (0x22000, 0) # map (\<lambda>(off, v). (0x13000 + unat off, v)) (fw_writes rs) \<and>
     p_log p' = Readl 0x22000 0 # rev (map (\<lambda>(off, v). Readl (0x13000 + unat off) v) (fw_writes rs)) @ h))"
proof -
  from M have base: "mcu_base (p_mcu p) \<noteq> 0" by (simp add: legacy_mcu_def)
  from base show ?thesis
  proof (cases rule: mcu_upload_cases [where env = "regs env" and data = "Some (p_fw p)" and h = "p_log p"])
    case (refused e h)
    with run show ?thesis by (auto simp: upload_checked_def)
  next
    case (uploaded rs h)
    let ?p = "p\<lparr>p_log := h\<rparr>"
    obtain r p1 where v: "run_state (run_ok (map (\<lambda>(off, v). do {
        bad \<leftarrow> check_router env (0x13000 + off) (NOT 0) v;
        State_Monad.return (if bad \<noteq> 0 then - EIO else 0) }) (fw_writes rs))) ?p = (r, p1)"
      by (metis surj_pair)
    then have ver: "run_state (upload_verify env (p_fw p)) ?p = (Some r, p1)"
      using uploaded(1,3) fw_upload_from_eq [of rs "ram_size (p_mcu p)" _ "[]" ?p]
      by (simp add: upload_verify_def list_all_iff)
    from checks_run [OF v] obtain ds where ds: "p1 = ?p\<lparr>p_log := ds @ h\<rparr>"
      "r = 0 \<longrightarrow> ds = rev (map (\<lambda>(off, v). Readl (unat (0x13000 + off)) v) (fw_writes rs))" by auto
    have off: "unat (0x13000 + off) = 0x13000 + unat off" if "(off, v) \<in> set (fw_writes rs)" for off :: u32 and v
      using fw_writes_fit [OF uploaded(3) that] M by (subst unat_add_lem [THEN iffD1]) (auto simp: legacy_mcu_def)
    have "map (\<lambda>(off, v). Readl (unat (0x13000 + off)) v) (fw_writes rs) =
        map (\<lambda>(off, v). Readl (0x13000 + unat off) v) (fw_writes rs)"
      by (rule map_cong) (auto simp: off)
    with ds uploaded ver run M show ?thesis
      by (auto simp: upload_checked_def Let_def legacy_mcu_def split: if_splits intro!: exI [of _ rs] exI [of _ h])
  qed
qed

definition remembering :: "provider mmio_event list \<Rightarrow> nat \<Rightarrow> u32" where
  "remembering h off = (case map_of (rev (writes_of h)) off of Some v \<Rightarrow> v
     | None \<Rightarrow> if off = 0x78640 then 3 else 0)"

text \<open>Registers that keep what is written, and providers that all refuse.\<close>

definition sample_env :: fe_env where
  "sample_env = \<lparr>regs = \<lparr>rd = remembering, polled = \<lambda>_ _. 0\<rparr>, call = \<lambda>_ _. - ENODEV, tcsr_value = \<lambda>_. 0\<rparr>"

definition sample_probe :: probe where
  "sample_probe = \<lparr>p_log = [], p_fw = [4, 0, 0, 0, 1, 0, 0, 0, 5, 0, 0, 0],
     p_mcu = \<lparr>mcu_base = 1, ram_size = 0xf000, ram_offset = 0x13000, control_offset = 0x22000,
       shared_offset_reg = 0x22010, drom_offset = 0xdf20\<rparr>,
     p_cfg = sample_cfg, p_state = new_state, p_shared = 0, p_error = 0, p_stage = [],
     p_reference_read_complete = False\<rparr>"

lemma sample_legacy: "legacy_mcu (p_mcu sample_probe)"
  by (simp add: legacy_mcu_def sample_probe_def)

lemma sample_log: "p_log sample_probe = []"
  by (simp add: sample_probe_def)

lemma sample_regs: "rd (regs sample_env) = remembering"
  by (simp add: sample_env_def)

theorem upload_checked_verified_witness:
  "fst (run_state (upload_checked sample_env) sample_probe) = Some 0 \<and>
   (\<exists>rs h. p_fw sample_probe = fw_encode rs \<and>
     p_log (snd (run_state (upload_checked sample_env) sample_probe)) =
       Readl 0x22000 0 # rev (map (\<lambda>(off, v). Readl (0x13000 + unat off) v) (fw_writes rs)) @ h)"
proof -
  obtain ret p' where run: "run_state (upload_checked sample_env) sample_probe = (ret, p')" by (metis surj_pair)
  have enc: "p_fw sample_probe = fw_encode [(4, [5])]" and fits: "list_all (record_fits 0xf000) [(4, [5])]"
    and ws: "fw_writes [(4, [5])] = [(4, 5)]"
    by (simp_all add: sample_probe_def fw_encode_def record_fits_def fw_writes_def record_writes_def
        record_bytes_def words_bytes_def le32_bytes_def)
  have v: "run_state (upload_verify sample_env (p_fw sample_probe)) p = apfst Some (run_state (do {
      bad \<leftarrow> check_router sample_env 0x13004 (NOT 0) 5;
      State_Monad.return (if bad \<noteq> 0 then - EIO else 0) }) p)" for p
    using fw_upload_from_eq [of "[(4, [5])]" "0xf000" _ "[]" p] fits
    by (simp add: upload_verify_def enc ws split: prod.splits del: fw_encode_simps)
  have u: "run_state (qcom_usb4_mcu_upload (regs sample_env) (Some (p_mcu sample_probe)) (Some (p_fw sample_probe))) [] =
      (Some 0, [Readl 0x22000 0, Writel 0x13004 5, Writel 0x22000 0, Readl 0x22000 0])"
    unfolding qcom_usb4_mcu_upload_def enc using sample_legacy
    by (simp add: fw_upload_runs [OF _ fits] fw_validate_accepts [OF _ fits] ws mcu_usable_def sample_env_def
        legacy_mcu_def remembering_def qcom_usb4_mcu_write_word_def del: fw_encode_simps)
  from run have "ret = Some 0"
    by (simp add: upload_checked_def u v sample_log sample_regs remembering_def Let_def)
  with upload_checked_verified [OF sample_legacy run] run show ?thesis by auto
qed

text \<open>
  C11. The MCU is never set running by any other part of the sequence: with the driver's own
  callbacks, either no register write of an attempt sets RUN in the control register, or the step
  MCU_START was reached, and the steps before it, upload and descriptor among them, have all been
  carried out in the order of the table.
\<close>

theorem run_bit_only_by_start:
  assumes M: "legacy_mcu (p_mcu p)" and new: "st_phase st = X1_NEW"
    and run: "run_state (x1_startup_run crc drom0 (Some st) cfg
      (map_option traced_ops (Some (fe_ops env reference_only crc drom0)))) (p, []) = ((ret, st'), (p', es))"
  shows "ext_writes (\<lambda>off v. off \<noteq> 0x22000 \<or> v AND QCOM_USB4_MCU_RUN = 0) (p_log p) (p_log p') \<or>
    (\<exists>before after. steps_of (rev es) = before @ X1_MCU_START # after \<and>
       prefix (before @ [X1_MCU_START]) (provider_steps operations) \<and>
       {X1_UPLOAD, X1_SYS_MEMORY_FORCE, X1_DROM, X1_PHY_COMPOSITE} \<subseteq> set before)"
proof (cases "X1_MCU_START \<in> set (steps_of es)")
  case False
  with startup_traced [OF M run] show ?thesis by (simp add: run_clear_def [abs_def])
next
  case True
  then have "X1_MCU_START \<in> set (steps_of (rev es))" by (simp add: steps_of_rev)
  then obtain before after where b: "steps_of (rev es) = before @ X1_MCU_START # after" "X1_MCU_START \<notin> set before"
    by (meson split_list_first)
  from startup_run_new [OF new run] obtain v st1 where "startup_result v cfg (rev es) ret st1" by auto
  from startup_result_steps [OF this] b(1) have p: "prefix (before @ [X1_MCU_START]) (provider_steps operations)"
    by (auto simp: prefix_def)
  then have "before = takeWhile (\<lambda>s. s \<noteq> X1_MCU_START) (provider_steps operations)"
    using b(2) by (auto simp: prefix_def takeWhile_append takeWhile_tail)
  with b p show ?thesis
    by (intro disjI2 exI [of _ before] exI [of _ after])
      (simp add: provider_steps_def operations_def opP_def opU_def opD_def)
qed

theorem run_bit_only_by_start_witness:
  "legacy_mcu (p_mcu sample_probe) \<and>
   (case run_state (x1_startup_run (\<lambda>_ _. 0) (replicate 116 0) (Some new_state) (Some sample_cfg)
        (map_option traced_ops (Some (fe_ops sample_env False (\<lambda>_ _. 0) (replicate 116 0))))) (sample_probe, []) of
      ((ret, st'), (p', es)) \<Rightarrow> ret = Some (- ENODEV) \<and> steps_of (rev es) = [X1_PHY_PREPARE] \<and>
        ext_writes (\<lambda>off v. off \<noteq> 0x22000 \<or> v AND QCOM_USB4_MCU_RUN = 0) [] (p_log p'))"
proof -
  have n: "st_phase new_state = X1_NEW" by (simp add: new_state_def)
  obtain ret st' p' es where run: "run_state (x1_startup_run (\<lambda>_ _. 0) (replicate 116 0) (Some new_state)
      (Some sample_cfg) (map_option traced_ops (Some (fe_ops sample_env False (\<lambda>_ _. 0) (replicate 116 0)))))
      (sample_probe, []) = ((ret, st'), (p', es))" by (metis surj_pair)
  obtain p1 where o: "run_state (owner sample_env sample_cfg) sample_probe = (0, p1)"
    by (rule that)
      (simp add: owner_def sample_env_def sample_probe_def sample_cfg_def remembering_def Let_def)
  from run o have "ret = Some (- ENODEV) \<and> es = [Ev_step X1_PHY_PREPARE (- ENODEV), Ev_owner 0]"
    by (simp add: sample_startup_simps startup_error_def fe_ops_def operations_def opP_def execute_def fe_step_def step_action_def)
      (auto simp: sample_env_def)
  with run show ?thesis
    using run_bit_only_by_start [OF sample_legacy n run] sample_legacy
    by (auto simp: sample_log Cons_eq_append_conv)
qed

text \<open>
  C36. The connect command reaches the MCU only for one of the two words the router understands, on
  an allowed board, after a probe without error and a finished NHI run.  Then at most that one word
  is written, once, to the mailbox, and exactly that when the call succeeds; in every other case the
  driver's state is as before.
\<close>

theorem link_connect_guarded:
  assumes M: "legacy_mcu (p_mcu p)" and run: "run_state (link_connect env b nhi word) p = (ret, p')"
  shows "(ret = - EPERM \<and> p' = p) \<or>
    (p_error p = 0 \<and> nhi \<and> x1_diag_board_allowed b \<and> root_property b ''birk,usb4-link-test'' \<and>
     (word = 0x2501 \<or> word = 0x2701) \<and>
     (\<exists>ws. writes_of (p_log p') = writes_of (p_log p) @ ws \<and> (ws = [] \<or> ws = [(0x2200c, word)]) \<and>
        (ret = 0 \<longrightarrow> ws = [(0x2200c, word)])))"
proof (cases "p_error p \<noteq> 0 \<or> \<not> nhi \<or> \<not> x1_diag_board_allowed b \<or> \<not> root_property b ''birk,usb4-link-test'' \<or>
    (word \<noteq> 0x2501 \<and> word \<noteq> 0x2701)")
  case True
  with run show ?thesis by (auto simp: link_connect_def split: if_splits)
next
  case False
  obtain r h where c: "run_state (qcom_usb4_mcu_command (regs env) (Some (p_mcu p)) word 10000) (p_log p) = (r, h)"
    by (metis surj_pair)
  with False run have p': "ret = r" "writes_of (p_log p') = writes_of h"
    by (auto simp: link_connect_def mcu_snapshot_def)
  from mcu_command_cases [OF c] p' M
  have "\<exists>ws. writes_of (p_log p') = writes_of (p_log p) @ ws \<and> (ws = [] \<or> ws = [(0x2200c, word)]) \<and>
        (ret = 0 \<longrightarrow> ws = [(0x2200c, word)])"
    by (auto simp: legacy_mcu_def)
  with False show ?thesis by auto
qed

theorem link_connect_guarded_witness:
  "x1_diag_board_allowed lab_board \<and>
   (\<exists>ws. writes_of (p_log (snd (run_state (link_connect sample_env lab_board True 0x2501) sample_probe))) = ws \<and>
     (ws = [] \<or> ws = [(0x2200c, 0x2501)]))"
proof -
  obtain ret p' where run: "run_state (link_connect sample_env lab_board True 0x2501) sample_probe = (ret, p')"
    by (metis surj_pair)
  have b: "x1_diag_board_allowed lab_board" by (simp add: x1_diag_board_allowed_def x1_diag_disabled_def lab_board_def)
  from link_connect_guarded [OF sample_legacy run] run b show ?thesis by (auto simp: sample_log)
qed

text \<open>One probe of the device whose identity was accepted.\<close>

interpretation probe_once: one_shot "fe_probe env reference_only crc drom0 sha256 serial_end f 0" "\<lambda>m. \<not> attempted m"
  for env reference_only crc drom0 sha256 serial_end f
  by unfold_locales (auto simp: fe_probe_def split: sum.splits prod.splits)

lemma legacy_init_defined: "qcom_usb4_mcu_init (Some z) base sz ram (Some l) \<noteq> (0, None)"
  by (simp add: qcom_usb4_mcu_init_def split: prod.splits)

lemma probe_acquire_cases:
  assumes "probe_acquire sha256 serial_end f = Inr p"
  shows "p_log p = [] \<and> legacy_mcu (p_mcu p) \<and> pf_firmware f = Inr (p_fw p) \<and> length (p_fw p) = 40816 \<and>
    sha256 (p_fw p) = firmware_sha256 \<and> qcom_usb4_fw_validate (Some (p_fw p)) 0xf000 = Some 0 \<and>
    cfg_serial (p_cfg p) \<noteq> 0 \<and> st_phase (p_state p) = X1_NEW"
  using assms legacy_init legacy_init_defined
  by (auto simp: probe_acquire_def split: if_splits sum.splits option.splits prod.splits)

lemma probe_claimed_cases:
  assumes "run_state (probe_claimed env reference_only crc drom0) p = (ret, p')"
  shows "(ret \<noteq> 0 \<and> p_log p' = Call Gcc_claim # p_log p) \<or> (ret = 0 \<and> p_error p' \<le> 0)"
proof (cases "call env (p_log p) Gcc_claim = 0")
  case True
  obtain r p1 where "run_state (probe_hardware env reference_only crc drom0) (p\<lparr>p_log := Call Gcc_claim # p_log p\<rparr>) = (r, p1)"
    by (metis surj_pair)
  with True assms show ?thesis by (auto simp: probe_claimed_def probe_finish_def split: if_splits)
qed (use assms in \<open>auto simp: probe_claimed_def\<close>)

text \<open>
  A module attempts its device once.  The first probe after an accepted identity either stops
  before anything is claimed, or it holds the firmware of exactly the expected size and hash that
  also passes the format check, and then a refused claim is the only thing it did.  The error it records is never positive.  Every
  further probe returns -EALREADY and changes nothing, whatever the platform offers it.
\<close>

lemma probe_gated:
  assumes "\<not> attempted m" and "fe_probe env reference_only crc drom0 sha256 serial_end f 0 m = (ret, m')"
  shows "(m' = m\<lparr>attempted := True\<rparr> \<or>
      (\<exists>fw p. pf_firmware f = Inr fw \<and> length fw = 40816 \<and> sha256 fw = firmware_sha256 \<and>
         qcom_usb4_fw_validate (Some fw) 0xf000 = Some 0 \<and> m' = m\<lparr>attempted := True, drvdata := Some p\<rparr> \<and>
         (ret \<noteq> 0 \<longrightarrow> p_log p = [Call Gcc_claim]) \<and> (ret = 0 \<longrightarrow> p_error p \<le> 0))) \<and>
    fe_probe env' reference_only' crc' drom0' sha256' serial_end' f' 0 m' = (- EALREADY, m') \<and>
    ((\<lambda>m. snd (fe_probe env reference_only crc drom0 sha256 serial_end f 0 m)) ^^ Suc n) m = m'"
    (is "?first \<and> ?refused \<and> ?again")
proof -
  have again: ?again
    by (subst probe_once.iterate) (simp add: assms(2))
  have refused: ?refused
    using assms by (auto simp: fe_probe_def split: sum.splits prod.splits)
  show ?thesis
  proof (cases "probe_acquire sha256 serial_end f")
    case (Inl e)
    with assms have ?first by (auto simp: fe_probe_def)
    with refused again show ?thesis by blast
  next
    case (Inr p)
    obtain r p' where c: "run_state (probe_claimed env reference_only crc drom0) p = (r, p')" by (metis surj_pair)
    with Inr assms have "ret = r" "m' = m\<lparr>attempted := True, drvdata := Some p'\<rparr>" by (auto simp: fe_probe_def)
    with probe_acquire_cases [OF Inr] probe_claimed_cases [OF c] have ?first by auto
    with refused again show ?thesis by blast
  qed
qed

definition bare_platform :: platform where
  "bare_platform = \<lparr>pf_resource = Some (0x15600000, 0x1000), pf_alloc = True, pf_base = Inr 1, pf_phy = None,
     pf_tcsr = None, pf_apps = Inr True, pf_pm_domain = True, pf_ddr = Inr True, pf_clocks = 0, pf_pinctrl = None,
     pf_pins = [], pf_socinfo = Inr (100, 7), pf_firmware = Inr []\<rparr>"

end
