(* ===== verification/X1_Pan.thy ===== *)
theory X1_Pan
  imports X1_Prelude X1_Typec
begin

text \<open>
  Type-C port notifications (PAN) as the Yoga's PMIC firmware sends them:
  \<open>yoga_pan_packet.h\<close> decodes the 32-byte packet, \<open>yoga_pan_plan.h\<close> turns a packet into a port
  plan with the MCU connect word, \<open>yoga_link_plan.h\<close> picks the word of the only supported link
  (all under \<open>snapshot/kernel/drivers/soc/qcom/\<close>).
\<close>

section \<open>Data\<close>

record yoga_pan =
  pan_port :: u8
  orientation_raw :: u8
  mux_raw :: u8
  pan_ext :: "u8 list"
  pan_vid :: u16
  svid_header :: u16
  svid_payload :: u16

datatype yoga_port_mode = YOGA_SAFE | YOGA_USB3 | YOGA_USB4 | YOGA_TBT

record yoga_port_plan =
  plan_orientation :: u8
  plan_mode :: yoga_port_mode
  plan_cable_type :: u8
  plan_speed :: u8
  plan_rounded :: u8
  plan_connect_word :: u32

section \<open>The code\<close>

text \<open>The packet's length stands for \<open>len\<close>.\<close>

definition yoga_pan_decode :: "u8 list option \<Rightarrow> yoga_pan option \<Rightarrow> (int \<times> yoga_pan option) option" where
  "yoga_pan_decode buf out =
     (case (buf, out) of
        (Some p, Some _) \<Rightarrow>
          if length p \<noteq> 32 then Some (- EINVAL, out)
          else do {
            w0 \<leftarrow> get_unaligned_le32 p 0;
            w4 \<leftarrow> get_unaligned_le32 p 4;
            w8 \<leftarrow> get_unaligned_le32 p 8;
            b12 \<leftarrow> get_u8 p 12;
            if w0 \<noteq> 32780 \<or> w4 \<noteq> 2 \<or> w8 AND 0xffff \<noteq> 0x16 \<or> b12 \<ge> 3 then Some (- EBADMSG, out)
            else do {
              b13 \<leftarrow> get_u8 p 13;
              b14 \<leftarrow> get_u8 p 14;
              v \<leftarrow> get_unaligned_le16 p 16;
              sp \<leftarrow> get_unaligned_le16 p 18;
              Some (0, Some \<lparr>pan_port = b12, orientation_raw = b13, mux_raw = b14,
                             pan_ext = take 8 (drop 20 p), pan_vid = v,
                             svid_header = ucast (drop_bit 16 w8), svid_payload = sp\<rparr>)
            }
          }
      | _ \<Rightarrow> Some (- EINVAL, out))"

text \<open>\<open>pan_ext\<close> holds the eight bytes of the C array.\<close>

definition yoga_plan_tunnel :: "yoga_pan \<Rightarrow> yoga_port_mode \<Rightarrow> int + yoga_port_plan" where
  "yoga_plan_tunnel e mode =
     (let ext0 = pan_ext e ! 0 in
      if ext0 AND 0x80 \<noteq> 0 then Inl (- EOPNOTSUPP)
      else if list_ex (\<lambda>b. b \<noteq> 0) (drop 1 (pan_ext e)) then Inl (- EOPNOTSUPP)
      else
        let speed = ext0 AND 7; cable_type = drop_bit 3 ext0 AND 7; rounded = drop_bit 6 ext0 AND 1 in
        if speed > 1 \<or> cable_type > 1 then Inl (- EOPNOTSUPP)
        else
          let cable_class = (if cable_type \<noteq> 0
                             then if mode = YOGA_TBT \<and> rounded = 0 then 3 else 1 else 0 :: u32) in
          Inr \<lparr>plan_orientation = orientation_raw e, plan_mode = mode, plan_cable_type = cable_type,
               plan_speed = speed, plan_rounded = rounded,
               plan_connect_word = 1 OR (if mode = YOGA_USB4 then push_bit 8 1 else 0) OR
                 push_bit 9 (ucast (orientation_raw e)) OR push_bit 10 1 OR push_bit 11 cable_class OR
                 push_bit 13 (ucast speed)\<rparr>)"

definition yoga_plan_of :: "yoga_pan \<Rightarrow> int + yoga_port_plan" where
  "yoga_plan_of e =
     (let zero = \<lparr>plan_orientation = orientation_raw e, plan_mode = YOGA_SAFE, plan_cable_type = 0,
                  plan_speed = 0, plan_rounded = 0, plan_connect_word = 0\<rparr> in
      if pan_port e \<noteq> 0 \<or> orientation_raw e > 2 then Inl (- EINVAL)
      else if mux_raw e = 0 then Inr (zero\<lparr>plan_orientation := 2\<rparr>)
      else if mux_raw e = 1 then
        if orientation_raw e = 2 then Inl (- EINVAL)
        else if svid_header e \<noteq> 0xff00 \<or> svid_payload e \<noteq> 0xff00 then Inl (- EOPNOTSUPP)
        else Inr (zero\<lparr>plan_mode := YOGA_USB3\<rparr>)
      else if mux_raw e = 4 then
        if orientation_raw e = 2 \<or> svid_header e \<noteq> svid_payload e then Inl (- EINVAL)
        else if svid_header e = 0xff00 then yoga_plan_tunnel e YOGA_USB4
        else if svid_header e = 0x8087 then yoga_plan_tunnel e YOGA_TBT
        else Inl (- EOPNOTSUPP)
      else Inl (- EOPNOTSUPP))"

definition yoga_plan :: "yoga_pan option \<Rightarrow> yoga_port_plan option \<Rightarrow> int \<times> yoga_port_plan option" where
  "yoga_plan e out =
     (case (e, out) of
        (Some e', Some _) \<Rightarrow> (case yoga_plan_of e' of Inl ret \<Rightarrow> (ret, out) | Inr p \<Rightarrow> (0, Some p))
      | _ \<Rightarrow> (- EINVAL, out))"

text \<open>The loop over the events: the last one of port 0.\<close>

fun last_port0 :: "yoga_pan list \<Rightarrow> nat \<Rightarrow> yoga_pan option \<Rightarrow> yoga_pan option" where
  "last_port0 events 0 e = e"
| "last_port0 [] (Suc n) e = e"
| "last_port0 (x # events) (Suc n) e = last_port0 events n (if pan_port x = 0 then Some x else e)"

definition yoga_link_word ::
    "yoga_pan list option \<Rightarrow> nat \<Rightarrow> nat \<Rightarrow> u32 option \<Rightarrow> int \<times> u32 option" where
  "yoga_link_word events count processed word =
     (case (events, word) of
        (Some evs, Some _) \<Rightarrow>
          if count = 0 \<or> count > 32 \<or> count \<noteq> processed then (- EAGAIN, word)
          else (case last_port0 evs count None of
             None \<Rightarrow> (- ENOTCONN, word)
           | Some e \<Rightarrow>
               if pan_vid e \<noteq> 0x059f \<or> pan_ext e ! 0 \<noteq> 1 then (- ENOTCONN, word)
               else (case yoga_plan_of e of
                  Inl _ \<Rightarrow> (- ENOTCONN, word)
                | Inr p \<Rightarrow>
                    if plan_mode p \<noteq> YOGA_USB4 \<or>
                       (plan_connect_word p \<noteq> 0x2501 \<and> plan_connect_word p \<noteq> 0x2701)
                    then (- ENOTCONN, word)
                    else (0, Some (plan_connect_word p))))
      | _ \<Rightarrow> (- EAGAIN, word))"

section \<open>The reference packet\<close>

text \<open>A PAN packet with its reserved bytes: one behind the mux byte, four at the end.\<close>

definition pan_bytes :: "yoga_pan \<Rightarrow> u8 \<Rightarrow> u8 list \<Rightarrow> u8 list" where
  "pan_bytes e pad tail =
     le32_bytes 32780 @ le32_bytes 2 @ le32_bytes (push_bit 16 (ucast (svid_header e)) OR 0x16) @
     [pan_port e, orientation_raw e, mux_raw e, pad] @ le16_bytes (pan_vid e) @
     le16_bytes (svid_payload e) @ pan_ext e @ tail"

definition pan_wf :: "yoga_pan \<Rightarrow> bool" where
  "pan_wf e \<longleftrightarrow> length (pan_ext e) = 8 \<and> pan_port e < 3"

section \<open>Lemmas\<close>

lemma svid_word:
  "(push_bit 16 (ucast (h :: u16)) OR 0x16 :: u32) AND 0xffff = 0x16"
  "ucast (drop_bit 16 (push_bit 16 (ucast (h :: u16)) :: u32)) = h"
proof -
  have b16: "bit (0x16 :: u32) n \<Longrightarrow> n < 16" for n
    by (rule bit_unat_le [of "0x16 :: u32"]) simp_all
  have m: "(0xffff :: u32) = mask 16" by (simp add: mask_eq_exp_minus_1)
  define k :: u32 where "k = 0x16"
  show "(push_bit 16 (ucast h) OR 0x16 :: u32) AND 0xffff = 0x16"
    unfolding m k_def [symmetric]
    by (rule bit_word_eqI) (use b16 in \<open>auto simp: bit_simps k_def [symmetric]\<close>)
  show "ucast (drop_bit 16 (push_bit 16 (ucast h) :: u32)) = h"
    by (rule bit_word_eqI) (auto simp: bit_simps dest: bit_imp_le_length)
qed

lemma svid_word_inverse:
  fixes w :: u32
  assumes "w AND 0xffff = 0x16"
  shows "push_bit 16 (ucast (ucast (drop_bit 16 w) :: u16)) OR 0x16 = w"
proof -
  have m: "(0xffff :: u32) = mask 16" by (simp add: mask_eq_exp_minus_1)
  show ?thesis
    unfolding assms [symmetric] m
    by (rule bit_word_eqI) (auto simp: bit_simps)
qed

lemma pan_decode_bytes:
  assumes "pan_wf e" and "length tail = 4"
  shows "yoga_pan_decode (Some (pan_bytes e pad tail)) (Some z) = Some (0, Some e)"
proof -
  from assms have ext: "length (pan_ext e) = 8" "pan_port e < 3" by (simp_all add: pan_wf_def)
  then show ?thesis
    using assms(2)
    by (simp add: yoga_pan_decode_def pan_bytes_def byte_simps svid_word not_le)
qed

lemma pan_decode_total:
  "\<exists>ret z'. yoga_pan_decode (Some p) (Some z) = Some (ret, Some z') \<and>
     (ret = 0 \<or> (ret = (if length p = 32 then - EBADMSG else - EINVAL) \<and> z' = z))"
  by (auto simp: yoga_pan_decode_def get_unaligned_le32_def get_unaligned_le16_def get_u8_def)

lemma pan_decode_inverse:
  assumes "yoga_pan_decode (Some p) (Some z) = Some (0, Some e)"
  shows "p = pan_bytes e (p ! 15) (drop 28 p) \<and> pan_wf e \<and> length p = 32"
proof -
  from assms have len: "length p = 32" by (auto simp: yoga_pan_decode_def split: if_splits)
  with assms obtain w8 v sp where
      w: "get_unaligned_le32 p 0 = Some 32780" "get_unaligned_le32 p 4 = Some 2"
         "get_unaligned_le32 p 8 = Some w8" "w8 AND 0xffff = 0x16" "p ! 12 < 3"
    and h: "get_unaligned_le16 p 16 = Some v" "get_unaligned_le16 p 18 = Some sp"
    and e: "e = \<lparr>pan_port = p ! 12, orientation_raw = p ! 13, mux_raw = p ! 14,
                 pan_ext = take 8 (drop 20 p), pan_vid = v,
                 svid_header = ucast (drop_bit 16 w8), svid_payload = sp\<rparr>"
    by (auto simp: yoga_pan_decode_def get_u8_def bind_eq_Some_conv not_le split: if_splits)
  have mid: "take 4 (drop 12 p) = [p ! 12, p ! 13, p ! 14, p ! 15]"
    using len by (intro nth_equalityI) (auto simp: nth_Cons' numeral_eq_Suc less_Suc_eq)
  have "p = take 4 (drop 0 p) @ take 4 (drop 4 p) @ take 4 (drop 8 p) @ take 4 (drop 12 p) @
      take 2 (drop 16 p) @ take 2 (drop 18 p) @ take 8 (drop 20 p) @ drop 28 p"
    using drop_cut [of 0 p 4] drop_cut [of 4 p 4] drop_cut [of 8 p 4] drop_cut [of 12 p 4]
      drop_cut [of 16 p 2] drop_cut [of 18 p 2] drop_cut [of 20 p 8] by simp
  then have "p = pan_bytes e (p ! 15) (drop 28 p)"
    unfolding w(1-3) [THEN get_le32_inverse] h [THEN get_le16_inverse] mid
    by (simp add: pan_bytes_def e svid_word_inverse [OF w(4)])
  with len w(5) show ?thesis by (simp add: e pan_wf_def)
qed

interpretation pan_wire: wire_format
  "\<lambda>(e, pad, tail). pan_bytes e pad tail" "\<lambda>p. yoga_pan_decode (Some p) (Some z)"
  "\<lambda>(e, pad, tail). Some e" "\<lambda>(e, pad, tail). pan_wf e \<and> length tail = 4" for z
  by unfold_locales (auto simp: pan_decode_bytes)

lemma u8_below_2: "\<not> (2 :: u8) < o' \<Longrightarrow> o' \<noteq> 2 \<Longrightarrow> o' = 0 \<or> o' = 1" for o' :: u8
  using u8_le_1 [of o'] by (auto simp: word_less_nat_alt word_le_nat_alt word_unat_eq_iff)

lemma last_port0_filter:
  "last_port0 evs n e =
     (let fs = filter (\<lambda>x. pan_port x = 0) (take n evs) in if fs = [] then e else Some (last fs))"
  by (induction evs n e rule: last_port0.induct) (auto simp: Let_def)

lemma last_port0_Some:
  "last_port0 evs n None = Some e \<longleftrightarrow>
     (\<exists>before. filter (\<lambda>x. pan_port x = 0) (take n evs) = before @ [e])"
  by (auto simp: last_port0_filter Let_def) (metis append_butlast_last_id)

text \<open>The only tunnel plans: a supported cable behind a zeroed extension.\<close>

lemma plan_tunnel_Inr:
  assumes "yoga_plan_tunnel e m = Inr p"
  shows "plan_mode p = m \<and> plan_orientation p = orientation_raw e \<and>
    plan_speed p \<le> 1 \<and> plan_cable_type p \<le> 1 \<and> plan_rounded p \<le> 1 \<and>
    plan_connect_word p = connect_word
      \<lparr>pc_mode = (if m = YOGA_USB4 then 1 else 0), pc_orientation = orientation_raw e,
       pc_cable_type = plan_cable_type p, pc_cable_speed = plan_speed p, pc_rounded = plan_rounded p,
       pc_board_retimer = 1\<rparr>
      (if plan_cable_type p \<noteq> 0 then if m = YOGA_TBT \<and> plan_rounded p = 0 then 3 else 1 else 0)"
proof -
  have "drop_bit 6 (pan_ext e ! 0) AND 1 \<le> 1" by (simp add: word_and_le1)
  with assms show ?thesis
    by (auto simp: yoga_plan_tunnel_def Let_def connect_word_def not_less split: if_splits)
qed

lemma plan_of_tunnel:
  assumes "yoga_plan_of e = Inr p" and "plan_mode p = YOGA_USB4 \<or> plan_mode p = YOGA_TBT"
  shows "yoga_plan_tunnel e (plan_mode p) = Inr p \<and> mux_raw e = 4 \<and> pan_port e = 0 \<and>
    (orientation_raw e = 0 \<or> orientation_raw e = 1) \<and> svid_payload e = svid_header e \<and>
    svid_header e = (if plan_mode p = YOGA_USB4 then 0xff00 else 0x8087)"
  using assms u8_below_2
  by (auto simp: yoga_plan_of_def Let_def dest: plan_tunnel_Inr split: if_splits)

lemma connect_command_ok:
  assumes "pc_mode c \<le> 1" "pc_orientation c \<le> 1" "pc_rounded c \<le> 1" "pc_board_retimer c \<le> 1"
    "pc_cable_type c \<le> 1" "pc_cable_speed c \<le> 1"
  shows "qcom_usb4_typec_connect_command (Some c) (Some w) = (0, Some (connect_word c (connect_class c)))"
  using assms by (simp add: qcom_usb4_typec_connect_command_def pan_consts not_less)

lemma link_plan_word:
  assumes "yoga_plan_of e = Inr p" and "plan_mode p = YOGA_USB4" and "pan_ext e ! 0 = 1"
  shows "plan_connect_word p = (if orientation_raw e = 0 then 0x2501 else 0x2701)"
  using assms(3) plan_of_tunnel [OF assms(1)] assms(2)
  by (auto simp: yoga_plan_tunnel_def Let_def split: if_splits)

lemma link_plan_exists:
  assumes "pan_port e = 0" "mux_raw e = 4" "svid_header e = 0xff00" "svid_payload e = 0xff00"
    "orientation_raw e = 0 \<or> orientation_raw e = 1" "pan_ext e ! 0 = 1" "\<forall>b \<in> set (drop 1 (pan_ext e)). b = 0"
  shows "\<exists>p. yoga_plan_of e = Inr p \<and> plan_mode p = YOGA_USB4"
  using assms by (auto simp: yoga_plan_of_def yoga_plan_tunnel_def Let_def list_ex_iff)

section \<open>Properties\<close>

text \<open>
  C29. The PAN decoder accepts exactly the 32-byte packets of the reference layout (owner 32780,
  notification type 2, opcode 0x16 below the authoritative SVID, a port below 3), and what it
  returns is the packet's content; every other packet of any length is refused without a read
  outside it, with \<open>-EINVAL\<close> for the length and \<open>-EBADMSG\<close> for the content, and the caller's
  structure is unchanged.
\<close>

theorem pan_decode_exact:
  "(yoga_pan_decode (Some p) (Some z) = Some (0, Some e) \<longleftrightarrow>
      pan_wf e \<and> (\<exists>pad tail. length tail = 4 \<and> p = pan_bytes e pad tail)) \<and>
   ((\<exists>e. yoga_pan_decode (Some p) (Some z) = Some (0, Some e)) \<or>
      yoga_pan_decode (Some p) (Some z) =
        Some (if length p = 32 then - EBADMSG else - EINVAL, Some z))"
proof (intro conjI iffI)
  assume dec: "yoga_pan_decode (Some p) (Some z) = Some (0, Some e)"
  from pan_decode_inverse [OF dec] show "pan_wf e" by simp
  from pan_decode_inverse [OF dec] show "\<exists>pad tail. length tail = 4 \<and> p = pan_bytes e pad tail"
    by (intro exI [of _ "p ! 15"] exI [of _ "drop 28 p"]) simp
next
  assume "pan_wf e \<and> (\<exists>pad tail. length tail = 4 \<and> p = pan_bytes e pad tail)"
  then show "yoga_pan_decode (Some p) (Some z) = Some (0, Some e)" by (auto simp: pan_decode_bytes)
next
  show "(\<exists>e. yoga_pan_decode (Some p) (Some z) = Some (0, Some e)) \<or>
      yoga_pan_decode (Some p) (Some z) = Some (if length p = 32 then - EBADMSG else - EINVAL, Some z)"
    using pan_decode_total [of p z] by auto
qed

text \<open>
  C30. The PAN planner and the module's Type-C adapter agree: whenever the planner decides on a
  tunnel, the connect word it computes is the one \<open>qcom_usb4_typec_connect_command\<close> accepts and
  builds for the same mode, orientation and cable on a board with a retimer; a plan without a
  tunnel has word 0.
\<close>

theorem pan_plan_agrees_with_typec:
  assumes "yoga_plan (Some e) (Some z) = (0, Some p)"
  shows "if plan_mode p = YOGA_USB4 \<or> plan_mode p = YOGA_TBT
    then qcom_usb4_typec_connect_command
       (Some \<lparr>pc_mode = (if plan_mode p = YOGA_USB4 then QCOM_USB4_TUNNEL_USB4 else QCOM_USB4_TUNNEL_TBT),
              pc_orientation = plan_orientation p, pc_cable_type = plan_cable_type p,
              pc_cable_speed = plan_speed p, pc_rounded = plan_rounded p, pc_board_retimer = 1\<rparr>)
       (Some w) = (0, Some (plan_connect_word p))
    else plan_connect_word p = 0"
proof -
  from assms consider "yoga_plan_of e = Inr p" | ret where "yoga_plan_of e = Inl ret" "ret = 0"
    by (auto simp: yoga_plan_def split: sum.splits)
  then have plan: "yoga_plan_of e = Inr p"
    by cases (auto simp: yoga_plan_of_def yoga_plan_tunnel_def Let_def split: if_splits)
  show ?thesis
  proof (cases "plan_mode p = YOGA_USB4 \<or> plan_mode p = YOGA_TBT")
    case True
    note t = plan_of_tunnel [OF plan True]
    note i = plan_tunnel_Inr [OF t [THEN conjunct1]]
    from t i have "plan_cable_type p = 0 \<or> plan_cable_type p = 1" using u8_le_1 by blast
    with True t i show ?thesis
      by (subst connect_command_ok) (auto simp: pan_consts connect_class_def)
  next
    case False
    with plan show ?thesis
      by (auto simp: yoga_plan_of_def Let_def dest: plan_tunnel_Inr split: if_splits)
  qed
qed

definition sample_pan :: yoga_pan where
  "sample_pan = \<lparr>pan_port = 0, orientation_raw = 1, mux_raw = 4, pan_ext = [1, 0, 0, 0, 0, 0, 0, 0],
     pan_vid = 0x059f, svid_header = 0xff00, svid_payload = 0xff00\<rparr>"

theorem pan_plan_agrees_with_typec_witness:
  "\<exists>p. yoga_plan (Some sample_pan) (Some \<lparr>plan_orientation = 0, plan_mode = YOGA_SAFE,
        plan_cable_type = 0, plan_speed = 0, plan_rounded = 0, plan_connect_word = 0\<rparr>) = (0, Some p) \<and>
     plan_mode p = YOGA_USB4 \<and> plan_connect_word p = 0x2701 \<and>
     qcom_usb4_typec_connect_command
       (Some \<lparr>pc_mode = 1, pc_orientation = 1, pc_cable_type = 0, pc_cable_speed = 1, pc_rounded = 0,
              pc_board_retimer = 1\<rparr>) (Some 0) = (0, Some 0x2701)"
proof -
  define z where "z = \<lparr>plan_orientation = 0, plan_mode = YOGA_SAFE,
        plan_cable_type = 0, plan_speed = 0, plan_rounded = 0, plan_connect_word = 0\<rparr>"
  define p where "p = \<lparr>plan_orientation = 1, plan_mode = YOGA_USB4,
        plan_cable_type = 0, plan_speed = 1, plan_rounded = 0, plan_connect_word = 0x2701\<rparr>"
  have "yoga_plan (Some sample_pan) (Some z) = (0, Some p)"
    by (simp add: yoga_plan_def yoga_plan_of_def yoga_plan_tunnel_def sample_pan_def z_def p_def Let_def)
  from this pan_plan_agrees_with_typec [OF this, of 0] show ?thesis
    unfolding z_def by (simp add: p_def pan_consts)
qed

text \<open>
  \<open>yoga_link_word\<close> delivers a word exactly when all of 1 to 32 recorded notifications were
  processed and the last one of port 0 is the supported drive on the supported cable: vendor
  0x059f, mux 4, both SVIDs 0xff00, a definite orientation, extension byte 1 and nothing else in
  the extension.  The word is then 0x2501 or, reversed, 0x2701; no other word can come out.
\<close>

lemma link_word_exact:
  "yoga_link_word (Some evs) count processed (Some w0) = (0, Some w) \<longleftrightarrow>
     0 < count \<and> count \<le> 32 \<and> count = processed \<and>
     (\<exists>before e. filter (\<lambda>x. pan_port x = 0) (take count evs) = before @ [e] \<and>
        pan_vid e = 0x059f \<and> mux_raw e = 4 \<and> svid_header e = 0xff00 \<and> svid_payload e = 0xff00 \<and>
        (orientation_raw e = 0 \<or> orientation_raw e = 1) \<and> pan_ext e ! 0 = 1 \<and>
        filter (\<lambda>b. b \<noteq> 0) (drop 1 (pan_ext e)) = [] \<and>
        w = (if orientation_raw e = 0 then 0x2501 else 0x2701))"
  (is "?L \<longleftrightarrow> ?R")
proof
  assume ?L
  then obtain e p where e: "last_port0 evs count None = Some e" and plan: "yoga_plan_of e = Inr p"
    and rest: "0 < count" "count \<le> 32" "count = processed" "pan_vid e = 0x059f" "pan_ext e ! 0 = 1"
      "plan_mode p = YOGA_USB4" "w = plan_connect_word p"
    by (auto simp: yoga_link_word_def split: if_splits option.splits sum.splits)
  from plan_of_tunnel [OF plan] rest(6) have t: "yoga_plan_tunnel e YOGA_USB4 = Inr p" "mux_raw e = 4"
    "orientation_raw e = 0 \<or> orientation_raw e = 1" "svid_header e = 0xff00" "svid_payload e = 0xff00"
    by auto
  from t(1) have "filter (\<lambda>b. b \<noteq> 0) (drop 1 (pan_ext e)) = []"
    by (auto simp: yoga_plan_tunnel_def Let_def list_ex_iff filter_empty_conv split: if_splits)
  with e t rest link_plan_word [OF plan rest(6,5)] show ?R by (auto simp: last_port0_Some)
next
  assume ?R
  then obtain before e where
      e: "filter (\<lambda>x. pan_port x = 0) (take count evs) = before @ [e]"
    and c: "0 < count" "count \<le> 32" "count = processed" "pan_vid e = 0x059f"
    and f: "mux_raw e = 4" "svid_header e = 0xff00" "svid_payload e = 0xff00"
      "orientation_raw e = 0 \<or> orientation_raw e = 1" "pan_ext e ! 0 = 1"
      "\<forall>b \<in> set (drop 1 (pan_ext e)). b = 0"
      "w = (if orientation_raw e = 0 then 0x2501 else 0x2701)"
    by (auto simp: filter_empty_conv)
  from e have last: "last_port0 evs count None = Some e" by (auto simp: last_port0_Some)
  from e have "e \<in> set (filter (\<lambda>x. pan_port x = 0) (take count evs))" by simp
  then have "pan_port e = 0" by simp
  with f obtain p where p: "yoga_plan_of e = Inr p" "plan_mode p = YOGA_USB4"
    using link_plan_exists [of e] by blast
  from link_plan_word [OF p f(5)] last p c f(4,5,7) show ?L
    by (auto simp: yoga_link_word_def)
qed

end
