(* ===== verification/Spec2Isabelle.thy ===== *)
theory Spec2Isabelle
  imports X1_Native X1_Link X1_Session X1_Imsi X1_Mem X1_Pdlog X1_Query X1_Bridge X1_Frontend X1_Fw X1_Drom X1_Mcu X1_Typec X1_Startup X1_Pan
    X1_Packets X1_Topology
begin

text \<open>
  A verification development for the USB4 bring-up code of the Lenovo Yoga Slim 7x (Qualcomm X1
  Elite).  Paths below are relative to \<open>src/\<close>; \<open>TB\<close> is \<open>snapshot/kernel/drivers/thunderbolt\<close>, \<open>SOC\<close> is
  \<open>snapshot/kernel/drivers/soc/qcom\<close>, \<open>EL1\<close> is \<open>experiments/el1-pci0/kernel/drivers/thunderbolt\<close>.

  \<^bold>\<open>The program.\<close>  A frontend module (\<open>snapshot/module/frontend.c\<close>) owns the USB4 router of one port.  It
  loads a firmware image (\<open>qcom-usb4-fw.c\<close>) and a router descriptor (\<open>qcom-usb4-drom.c\<close>) into the
  router's microcontroller through \<open>qcom-usb4-mcu.c\<close>, in the fixed order of \<open>qcom-usb4-x1-startup.c\<close>, and
  sends it mailbox words made by \<open>qcom-usb4-typec.c\<close>.  The Type-C side (\<open>SOC/yoga_pan_*.h\<close>) decodes what the
  embedded controller reports and plans the word to send; two further diagnostics listen to the same
  controller, a log capture (\<open>SOC/yoga_pdlog*\<close>) and a restricted UCSI client (\<open>SOC/yoga_ucsi_*\<close>).  Once the
  router runs, configuration packets go through the packet helpers \<open>TB/x1-*-packet.h\<close>, a bounded walk
  reads the topology (\<open>TB/x1-topology.h\<close>), and the tunnelled PCIe controller is initialized
  (\<open>TB/x1-pcie-init.h\<close>), linked and scanned (\<open>TB/qcom-x1-pcie.c\<close>).  Who drives this is decided by the build:
  one bounded manual session over the control rings (\<open>TB/qcom-x1-nhi-diag.c\<close>), or the glue that hands the
  rings to the connection manager and admits one disk (\<open>TB/qcom-x1-native.c\<close>).  An experiment adds an
  outbound memory window (\<open>EL1/x1-pci0-mem.h\<close>) and policies for an MSI receiver (\<open>EL1/x1-imsi-policy.c\<close>);
  another hands out one ticket for a read test (\<open>experiments/omarchy1/\<dots>/x1-private-read.h\<close>).

  \<^bold>\<open>How code becomes definitions.\<close>  Machine words keep their width.  A C \<open>int\<close> result is an \<^typ>\<open>int\<close>, 0 or
  minus an error number.  Reading or writing outside a buffer is \<^const>\<open>None\<close>, so that staying inside is a
  theorem.  Code that talks to hardware, to a callback or to another driver is a program in the state
  monad; every answer it gets is an arbitrary function of the history before it, so each theorem holds
  for every device, clock and firmware.  Kernel services that are not part of the sources (crc32c, sha256,
  device tree, clocks, rpmsg, GLINK) are parameters.

  \<^item> \<open>X1_Prelude\<close>: words, byte buffers, histories and the shared program logics: \<open>follows\<close> (the effects are a
    prefix of a plan), \<open>keeps\<close> (a preorder between the states before and after), \<open>triple\<close> (total
    correctness), \<open>adds\<close> (how much a measure can grow), \<open>traced\<close>/\<open>shadows\<close> (adding a log of the answers
    changes nothing).  Its locales are the contracts
    components share: \<open>history_order\<close>, \<open>one_shot\<close>, \<open>budget\<close>, \<open>wire_format\<close>; each is interpreted on the
    definitions of the components that provide it.
  \<^item> \<open>X1_Fw\<close>: \<open>qcom_usb4_fw_validate\<close>, \<open>qcom_usb4_fw_upload\<close>.  Validation accepts exactly the encodings of
    non-empty record lists inside the limits; the upload calls back with exactly their words.
  \<^item> \<open>X1_Drom\<close>: the descriptor builders; exact layout, and a checksum that detects every change of one byte.
  \<^item> \<open>X1_Mcu\<close>: the microcontroller helper over a register history; all-or-nothing load, a start that never
    sets the run bit early, one mailbox write per command.
  \<^item> \<open>X1_Typec\<close>, \<open>X1_Pan\<close>: mailbox words and the controller's port reports; encodings read back, and the
    two independent planners agree.
  \<^item> \<open>X1_Startup\<close>: the table-driven sequence of 46 operations; the trace of every attempt, with the
    answers it got, and its result are characterized, and there is one attempt.
  \<^item> \<open>X1_Board\<close>, \<open>X1_Time\<close>: the board gate of \<open>x1-usb4-diag.h\<close> and the kernel's time comparisons.
  \<^item> \<open>X1_Frontend\<close>: the module itself, composed of the above; the uploaded words are read back before
    anything runs, only the start step sets the run bit, the link command and the probe are gated.
  \<^item> \<open>X1_Packets\<close>: the configuration packets and the write white list; \<open>X1_Topology\<close>: the walk, its read
    budget and its termination.
  \<^item> \<open>X1_Pci0\<close>: the controller's register sequences as plans; \<open>X1_Bridge\<close>: the driver above it as a
    transition system, with an invariant and a refinement to five stages.
  \<^item> \<open>X1_Link\<close>: the manual session on top of \<open>X1_Packets\<close> and \<open>X1_Topology\<close>, with an explicit flag for undefined
    behaviour.  The flag stays unset, buffers are never used twice, only listed frames and at most 16
    acknowledgements are sent, there is one session with at most one connect command, and its last actions
    turn the interrupt off and stop both rings.
  \<^item> \<open>X1_Native\<close>: the policy and the glue of the connection manager, composed with \<open>X1_Bridge\<close>: one attempt, a
    successful connect has done the whole plan and exposed the bridge, the public identity admits nothing,
    and a connect returns.
  \<^item> \<open>X1_Session\<close>: the tickets of the read test, refined to a ledger of one session.
  \<^item> \<open>X1_Pdlog\<close>: the log capture as a transition system whose steps are its locked sections, in every
    interleaving of the work item, the callback, the attribute, removal and probing.
  \<^item> \<open>X1_Ucsi\<close>: the command protocol over any transport (locales \<open>uq_reader\<close>, \<open>uq_transport\<close>); \<open>X1_Query\<close>: the driver
    that provides one, interpreted as such; nothing but listed commands on the wire, terminal errors, and
    bounds on the rounds and polls that send and on the acknowledgements sent.
  \<^item> \<open>X1_Mem\<close>, \<open>X1_Imsi\<close>: the experiment's memory window and MSI target policies.

  \<^bold>\<open>Bounds.\<close>  Loops of the code are structural recursions on the number of rounds they may still make (50
  polls of \<open>uq_poll\<close>, 8 of \<open>query_drain\<close>, 5 of the window enable, the delays of \<open>x1_pp\<close>), so no fuel is
  needed.  Counters the code compares with a limit are natural numbers, and the limit is an invariant far
  below the width of the C type.  The one loop whose rounds only a clock limits, the wait of
  \<open>x1_native_connect\<close>, takes fuel; that a ticking clock makes some fuel enough is a theorem.

  \<^bold>\<open>Concurrency.\<close>  \<open>X1_Pdlog\<close> and \<open>X1_Bridge\<close> are step relations.  In \<open>X1_Query\<close> the operations hold one
  mutex; what the callbacks do meanwhile is a list of arrivals chosen by the environment at the start of
  every exchange, before its message is sent, while it waits and between operations.

  \<^bold>\<open>Not modelled.\<close>  The vendored kernel files the changes are applied to (clock controller, QMP PHY, ITS,
  NVMe, Thunderbolt core, retimer) are the upstream drivers with small hooks; they are specified by Linux,
  not by this repository.  Of \<open>TB/qcom-x1-nhi-diag.c\<close> the isolation checks, the buffer allocation and the two
  baseline reads before the session are left out; \<open>X1_Link\<close> starts from the state they hand over.  The Type-C observer and the large
  host and PCIe drivers of the two experiments are left out, as are device-tree sources, shell and Python
  tooling and the tests.  Log lines and sysfs formatting are output only.
\<close>

end
